(* ===== verification/Bms_Prelude.thy ===== *)
theory Bms_Prelude
  imports Main "HOL-Library.Word"
begin

text \<open>
  Shared vocabulary of the development: the C integer types as words, the fact collections the
  component proofs use, generic lemmas on lists, loops and words, C strings, and the locale of machines that
  keep an invariant. Nothing here depends on a component.
\<close>

unbundle bit_operations_syntax

section \<open>C integer types\<close>

text \<open>
  An unsigned C integer of width \<open>w\<close> is a \<open>w word\<close> read with \<^const>\<open>uint\<close> or
  \<^const>\<open>unat\<close>; a signed one is the same word read with \<^const>\<open>sint\<close>. Where C promotes
  an operand to \<open>int\<close> before comparing it, the model compares the \<^const>\<open>uint\<close> or
  \<^const>\<open>sint\<close> values.
\<close>

type_synonym u8 = "8 word"
type_synonym u16 = "16 word"
type_synonym i16 = "16 word"
type_synonym u32 = "32 word"
type_synonym i32 = "32 word"

text \<open>C division of integers rounds towards zero.\<close>

definition c_div :: "int \<Rightarrow> int \<Rightarrow> int" where
  "c_div a b = sgn a * sgn b * (\<bar>a\<bar> div \<bar>b\<bar>)"

lemma c_div_nonneg: "0 \<le> a \<Longrightarrow> 0 < b \<Longrightarrow> c_div a b = a div b"
  by (cases "a = 0") (simp_all add: c_div_def)

lemma c_div_nonpos: "a \<le> 0 \<Longrightarrow> 0 < b \<Longrightarrow> c_div a b = - (- a div b)"
  by (cases "a = 0") (simp_all add: c_div_def)

lemma c_div_error: "0 < b \<Longrightarrow> \<bar>b * c_div a b - a\<bar> < b"
proof (cases "0 \<le> a")
  case True
  assume b: "0 < b"
  have "b * (a div b) + a mod b = a" "0 \<le> a mod b" "a mod b < b" using b by simp_all
  then show ?thesis unfolding c_div_nonneg [OF True b] by linarith
next
  case False
  assume b: "0 < b"
  have "b * (- a div b) + - a mod b = - a" "0 \<le> - a mod b" "- a mod b < b" using b by simp_all
  moreover have "b * - (- a div b) = - (b * (- a div b))" by simp
  moreover have "c_div a b = - (- a div b)" using c_div_nonpos [of a b] False b by simp
  ultimately show ?thesis by (simp only:)
qed

lemma div_le_c_div: "0 < b \<Longrightarrow> a div b \<le> c_div a b"
proof (cases "0 \<le> a")
  case False
  assume b: "0 < b"
  have "a div b * b \<le> a" using b by (simp add: minus_mod_eq_div_mult [symmetric])
  moreover have "- a div b * b \<le> - a" using b by (simp add: minus_mod_eq_div_mult [symmetric])
  ultimately have "(a div b + - a div b) * b \<le> 0" by (simp add: distrib_right)
  with b have "a div b + - a div b \<le> 0" by (simp add: mult_le_0_iff)
  with False b show ?thesis using c_div_nonpos [of a b] by simp
qed (simp add: c_div_nonneg)

lemma c_div_mono:
  assumes "0 < b" and "a \<le> a'"
  shows "c_div a b \<le> c_div a' b"
proof -
  consider "0 \<le> a" | "a < 0" "0 \<le> a'" | "a' < 0" by linarith
  then show ?thesis
  proof cases
    case 1
    then show ?thesis using assms by (simp add: c_div_nonneg zdiv_mono1)
  next
    case 2
    then have "0 \<le> - a div b" "0 \<le> a' div b" using assms by (simp_all add: pos_imp_zdiv_nonneg_iff)
    then show ?thesis using 2 assms c_div_nonpos [of a b] c_div_nonneg [of a' b] by linarith
  next
    case 3
    then have "- a' div b \<le> - a div b" using assms by (simp add: zdiv_mono1)
    then show ?thesis using 3 assms c_div_nonpos [of a b] c_div_nonpos [of a' b] by linarith
  qed
qed

section \<open>Fact collections\<close>

named_theorems config_defs \<open>definitions of the configuration constants\<close>
named_theorems frame_defs \<open>definitions that lay out bus frames\<close>

section \<open>Words\<close>

lemma bit_byte_mask_iff [simp]: "bit (0xFF :: int) n \<longleftrightarrow> n < 8"
proof -
  have "(0xFF :: int) = mask 8" by (simp add: mask_eq_exp_minus_1)
  then show ?thesis by (simp only: bit_mask_iff) simp
qed

lemma u16_split_join:
  fixes v :: u16
  shows "push_bit 8 (ucast (ucast (drop_bit 8 v) :: u8)) OR ucast (ucast (v AND 0xFF) :: u8) = v"
  by (rule bit_word_eqI) (auto simp: bit_simps)

lemma ucast_ucast_u8 [simp]: "ucast (ucast (b :: u8) :: u16) = b"
  by (rule bit_word_eqI) (auto simp: bit_simps)

section \<open>Lists\<close>

lemma length_3_conv: "length xs = 3 \<longleftrightarrow> (\<exists>x y z. xs = [x, y, z])"
  by (auto simp: numeral_3_eq_3 length_Suc_conv)

section \<open>C strings\<close>

text \<open>
  A buffer is the list of its characters, a string the part before the first null.
  \<open>strncpy\<close> writes exactly \<open>n\<close> characters, padding a shorter source with nulls, so
  copying into a zeroed buffer that is longer by one always leaves a terminated string.
\<close>

definition strncpy_to :: "string \<Rightarrow> string \<Rightarrow> nat \<Rightarrow> string" where
  "strncpy_to dst src n = take n (src @ replicate n (CHR 0x00)) @ drop n dst"

definition c_string :: "string \<Rightarrow> string" where
  "c_string buf = takeWhile (\<lambda>ch. ch \<noteq> CHR 0x00) buf"

lemma takeWhile_no_nul: "CHR 0x00 \<notin> set s \<Longrightarrow> takeWhile (\<lambda>ch. ch \<noteq> CHR 0x00) (s @ CHR 0x00 # t) = s"
  by (induction s) auto

lemma strncpy_zeroed:
  "strncpy_to (replicate (Suc n) (CHR 0x00)) src n =
     take n src @ CHR 0x00 # replicate (n - length src) (CHR 0x00)"
proof -
  have "drop n (replicate (Suc n) c) = [c]" for c :: char by (simp only: drop_replicate) simp
  then show ?thesis by (simp add: strncpy_to_def min_def replicate_append_same del: replicate_Suc)
qed

lemma length_strncpy_zeroed: "length (strncpy_to (replicate (Suc n) (CHR 0x00)) src n) = Suc n"
  by (simp add: strncpy_zeroed min_def del: replicate_Suc)

lemma c_string_strncpy:
  assumes "CHR 0x00 \<notin> set src"
  shows "c_string (strncpy_to (replicate (Suc n) (CHR 0x00)) src n) = take n src"
proof -
  have "CHR 0x00 \<notin> set (take n src)" using assms by (meson in_set_takeD)
  then show ?thesis by (simp add: c_string_def strncpy_zeroed takeWhile_no_nul del: replicate_Suc)
qed

section \<open>Machines\<close>

text \<open>
  A deterministic machine with a step function and an invariant its steps keep: runs are folds over
  event lists, and every run keeps the invariant. A simulation relates two machines over the same
  events, possibly only for the events that are admissible.
\<close>

locale step_machine =
  fixes step :: "'s \<Rightarrow> 'e \<Rightarrow> 's"
    and inv :: "'s \<Rightarrow> bool"
  assumes step_inv: "inv s \<Longrightarrow> inv (step s e)"
begin

lemma run_inv: "inv s \<Longrightarrow> inv (foldl step s es)"
  by (induction es arbitrary: s) (simp_all add: step_inv)

lemma run_absorbing:
  assumes "\<And>s e. absorbed s \<Longrightarrow> step s e = s" and "absorbed s"
  shows "foldl step s es = s"
  using assms by (induction es) simp_all

end

locale simulation =
  fixes cstep :: "'c \<Rightarrow> 'e \<Rightarrow> 'c"
    and astep :: "'a \<Rightarrow> 'e \<Rightarrow> 'a"
    and rel :: "'c \<Rightarrow> 'a \<Rightarrow> bool"
    and admissible :: "'e \<Rightarrow> bool"
  assumes sim_step: "rel c a \<Longrightarrow> admissible e \<Longrightarrow> rel (cstep c e) (astep a e)"
begin

lemma sim_run: "rel c a \<Longrightarrow> list_all admissible es \<Longrightarrow> rel (foldl cstep c es) (foldl astep a es)"
  by (induction es arbitrary: c a) (simp_all add: sim_step)

end

end
