(* ===== verification/Bms_Config.thy ===== *)
theory Bms_Config
  imports Complex_Main Bms_Prelude
begin

text \<open>
  The constants of \<open>src/bms/bms_config.h\<close>. The integer macros have the C type \<open>int\<close>
  and are integers here; the cell count, which only bounds loops and arrays, is a natural number.
  The Kalman tuning macros are decimal literals: their mathematical value is given here and the
  estimator rounds each one to a double, as the compiler does.
\<close>

section \<open>Pack limits\<close>

definition BMS_CELL_COUNT :: nat where [config_defs]: "BMS_CELL_COUNT = 5"

definition BMS_CELL_NOMINAL_MV :: int where [config_defs]: "BMS_CELL_NOMINAL_MV = 3700"

definition BMS_CELL_OVERVOLTAGE_MV :: int where [config_defs]: "BMS_CELL_OVERVOLTAGE_MV = 4200"

definition BMS_CELL_UNDERVOLTAGE_MV :: int where [config_defs]: "BMS_CELL_UNDERVOLTAGE_MV = 3000"

definition BMS_CELL_IMBALANCE_MV :: int where [config_defs]: "BMS_CELL_IMBALANCE_MV = 150"

definition BMS_OVERTEMP_C :: int where [config_defs]: "BMS_OVERTEMP_C = 60"

definition BMS_WARNING_MARGIN_MV :: int where [config_defs]: "BMS_WARNING_MARGIN_MV = 50"

definition BMS_PACK_CAPACITY_MAH :: u16 where [config_defs]: "BMS_PACK_CAPACITY_MAH = 5000"

section \<open>Kalman filter tuning\<close>

definition BMS_SOC_INITIAL_VARIANCE_PCT2 :: real where
  [config_defs]: "BMS_SOC_INITIAL_VARIANCE_PCT2 = 1"

definition BMS_SOC_CURRENT_SENSE_ERROR_FRAC :: real where
  [config_defs]: "BMS_SOC_CURRENT_SENSE_ERROR_FRAC = 1 / 100"

definition BMS_SOC_PROCESS_NOISE_FLOOR_PCT2 :: real where
  [config_defs]: "BMS_SOC_PROCESS_NOISE_FLOOR_PCT2 = 4 / 10000"

definition BMS_SOC_OCV_BASE_VARIANCE_PCT2 :: real where
  [config_defs]: "BMS_SOC_OCV_BASE_VARIANCE_PCT2 = 25 / 100"

definition BMS_SOC_OCV_LOAD_COEFF_PCT2_PER_A2 :: real where
  [config_defs]: "BMS_SOC_OCV_LOAD_COEFF_PCT2_PER_A2 = 100"

definition BMS_SOC_BIAS_INITIAL_VARIANCE_CA2 :: real where
  [config_defs]: "BMS_SOC_BIAS_INITIAL_VARIANCE_CA2 = 25"

definition BMS_SOC_BIAS_RANDOM_WALK_CA2_PER_S :: real where
  [config_defs]: "BMS_SOC_BIAS_RANDOM_WALK_CA2_PER_S = 1 / 10000"

section \<open>Task periods\<close>

definition TASK_PERIOD_SENSOR_MS :: u32 where [config_defs]: "TASK_PERIOD_SENSOR_MS = 100"

definition TASK_PERIOD_SOC_MS :: u32 where [config_defs]: "TASK_PERIOD_SOC_MS = 500"

definition TASK_PERIOD_FAULT_MS :: u32 where [config_defs]: "TASK_PERIOD_FAULT_MS = 50"

definition TASK_PERIOD_WATCHDOG_MS :: u32 where [config_defs]: "TASK_PERIOD_WATCHDOG_MS = 200"

definition WATCHDOG_STALE_MS :: u32 where [config_defs]: "WATCHDOG_STALE_MS = 1000"

end
