(* ===== verification/Can_Protocol.thy ===== *)
theory Can_Protocol
  imports Bms_Config
begin

text \<open>
  The frame type of \<open>src/can/can_hal.h\<close> and the message layout of
  \<open>src/can/can_protocol.h\<close> and \<open>can_protocol.c\<close>: a frame is a record with its
  64-byte payload as a list, every \<open>pack\<close> function starts from the zeroed frame, and every
  \<open>unpack\<close> function returns \<^const>\<open>None\<close> where the C function returns -1 without
  touching its output. The locales \<open>frame_decoder\<close> and \<open>frame_codec\<close> are the contract
  a message type offers to the tasks and to the bus; each message of the protocol interprets one.
\<close>

section \<open>Frames\<close>

definition CAN_MAX_DLC :: nat where [config_defs]: "CAN_MAX_DLC = 64"

record can_frame_t =
  can_id :: u32
  dlc :: u8
  data :: "u8 list"

definition zero_frame :: can_frame_t where
  [frame_defs]: "zero_frame = \<lparr>can_id = 0, dlc = 0, data = replicate CAN_MAX_DLC 0\<rparr>"

definition frame_ok :: "can_frame_t \<Rightarrow> bool" where
  "frame_ok f \<longleftrightarrow> length (data f) = CAN_MAX_DLC"

section \<open>Message data\<close>

definition CAN_ID_FAULT_REPORT :: u32 where [frame_defs]: "CAN_ID_FAULT_REPORT = 0x080"

definition CAN_ID_BMS_STATUS :: u32 where [frame_defs]: "CAN_ID_BMS_STATUS = 0x100"

definition CAN_ID_CELL_VOLTAGES :: u32 where [frame_defs]: "CAN_ID_CELL_VOLTAGES = 0x101"

definition CAN_ID_CHARGE_COMMAND :: u32 where [frame_defs]: "CAN_ID_CHARGE_COMMAND = 0x200"

datatype bms_state_t =
  BMS_STATE_NORMAL | BMS_STATE_WARNING | BMS_STATE_FAULT | BMS_STATE_SHUTDOWN

fun bms_state_code :: "bms_state_t \<Rightarrow> u8" where
  "bms_state_code BMS_STATE_NORMAL = 0"
| "bms_state_code BMS_STATE_WARNING = 1"
| "bms_state_code BMS_STATE_FAULT = 2"
| "bms_state_code BMS_STATE_SHUTDOWN = 3"

record bms_status_t =
  st_pack_voltage_mv :: u16
  st_pack_current_ca :: i16
  st_soc_percent_x2 :: u8
  st_state :: u8

record cell_voltages_t =
  cv_cell_mv :: "u16 list"

record fault_report_t =
  fr_fault_bitmask :: u16
  fr_severity :: u8

record charge_command_t =
  requested_current_x10 :: u16

definition FAULT_BIT_OVERVOLTAGE :: u16 where [config_defs]: "FAULT_BIT_OVERVOLTAGE = 1"

definition FAULT_BIT_UNDERVOLTAGE :: u16 where [config_defs]: "FAULT_BIT_UNDERVOLTAGE = 2"

definition FAULT_BIT_OVERTEMP :: u16 where [config_defs]: "FAULT_BIT_OVERTEMP = 4"

definition FAULT_BIT_CELL_IMBALANCE :: u16 where [config_defs]: "FAULT_BIT_CELL_IMBALANCE = 8"

definition FAULT_BIT_TASK_WATCHDOG :: u16 where [config_defs]: "FAULT_BIT_TASK_WATCHDOG = 16"

section \<open>Packing and unpacking\<close>

text \<open>
  \<open>put_u16 buf off v\<close> is \<open>put_u16(&buf[off], v)\<close>; both C helpers promote the bytes to
  \<open>int\<close> before shifting, so \<open>get_u16\<close> joins them at 32 bits and then truncates.
\<close>

definition put_u16 :: "u8 list \<Rightarrow> nat \<Rightarrow> u16 \<Rightarrow> u8 list" where
  "put_u16 buf off v = buf[off := ucast (drop_bit 8 v), off + 1 := ucast (v AND 0xFF)]"

definition get_u16 :: "u8 list \<Rightarrow> nat \<Rightarrow> u16" where
  "get_u16 buf off =
     ucast (push_bit 8 (ucast (buf ! off) :: i32) OR (ucast (buf ! (off + 1)) :: i32))"

definition can_protocol_pack_status :: "bms_status_t \<Rightarrow> can_frame_t" where
  "can_protocol_pack_status s =
     (let d0 = put_u16 (data zero_frame) 0 (st_pack_voltage_mv s);
          d1 = put_u16 d0 2 (st_pack_current_ca s);
          d2 = d1[4 := st_soc_percent_x2 s];
          d3 = d2[5 := st_state s]
      in zero_frame\<lparr>can_id := CAN_ID_BMS_STATUS, dlc := 6, data := d3\<rparr>)"

definition can_protocol_unpack_status :: "can_frame_t \<Rightarrow> bms_status_t option" where
  "can_protocol_unpack_status f =
     (if can_id f \<noteq> CAN_ID_BMS_STATUS \<or> dlc f < 6 then None
      else Some \<lparr>st_pack_voltage_mv = get_u16 (data f) 0, st_pack_current_ca = get_u16 (data f) 2,
                 st_soc_percent_x2 = data f ! 4, st_state = data f ! 5\<rparr>)"

definition can_protocol_pack_cell_voltages :: "cell_voltages_t \<Rightarrow> can_frame_t" where
  "can_protocol_pack_cell_voltages cv =
     zero_frame\<lparr>can_id := CAN_ID_CELL_VOLTAGES, dlc := of_nat (BMS_CELL_COUNT * 2),
       data := foldl (\<lambda>d i. put_u16 d (i * 2) (cv_cell_mv cv ! i)) (data zero_frame)
                 [0..<BMS_CELL_COUNT]\<rparr>"

definition can_protocol_unpack_cell_voltages :: "can_frame_t \<Rightarrow> cell_voltages_t option" where
  "can_protocol_unpack_cell_voltages f =
     (if can_id f \<noteq> CAN_ID_CELL_VOLTAGES \<or> unat (dlc f) < BMS_CELL_COUNT * 2 then None
      else Some \<lparr>cv_cell_mv = map (\<lambda>i. get_u16 (data f) (i * 2)) [0..<BMS_CELL_COUNT]\<rparr>)"

definition can_protocol_pack_fault :: "fault_report_t \<Rightarrow> can_frame_t" where
  "can_protocol_pack_fault r =
     (let d0 = put_u16 (data zero_frame) 0 (fr_fault_bitmask r);
          d1 = d0[2 := fr_severity r]
      in zero_frame\<lparr>can_id := CAN_ID_FAULT_REPORT, dlc := 3, data := d1\<rparr>)"

definition can_protocol_unpack_fault :: "can_frame_t \<Rightarrow> fault_report_t option" where
  "can_protocol_unpack_fault f =
     (if can_id f \<noteq> CAN_ID_FAULT_REPORT \<or> dlc f < 3 then None
      else Some \<lparr>fr_fault_bitmask = get_u16 (data f) 0, fr_severity = data f ! 2\<rparr>)"

definition can_protocol_unpack_charge_command :: "can_frame_t \<Rightarrow> charge_command_t option" where
  "can_protocol_unpack_charge_command f =
     (if can_id f \<noteq> CAN_ID_CHARGE_COMMAND \<or> dlc f < 2 then None
      else Some \<lparr>requested_current_x10 = get_u16 (data f) 0\<rparr>)"

section \<open>Byte-level lemmas\<close>

lemma u16_hi_of_join: "ucast (drop_bit 8 (ucast (push_bit 8 (ucast (h :: u8) :: i32) OR ucast (l :: u8)) :: u16)) = h"
  by (rule bit_word_eqI) (auto simp: bit_simps dest: bit_imp_le_length)

lemma u16_lo_of_join: "ucast ((ucast (push_bit 8 (ucast (h :: u8) :: i32) OR ucast (l :: u8)) :: u16) AND 0xFF) = l"
  by (rule bit_word_eqI) (auto simp: bit_simps)

lemma u16_join_of_split:
  fixes v :: u16
  shows "ucast (push_bit 8 (ucast (ucast (drop_bit 8 v) :: u8) :: i32)
           OR (ucast (ucast (v AND 0xFF) :: u8) :: i32)) = v"
  by (rule bit_word_eqI) (auto simp: bit_simps)

lemma length_put_u16 [simp]: "length (put_u16 buf off v) = length buf"
  by (simp add: put_u16_def)

lemma get_put_u16_same [simp]: "off + 1 < length buf \<Longrightarrow> get_u16 (put_u16 buf off v) off = v"
  by (simp add: get_u16_def put_u16_def u16_join_of_split)

lemma nth_put_u16_other: "i \<noteq> off \<Longrightarrow> i \<noteq> off + 1 \<Longrightarrow> put_u16 buf off v ! i = buf ! i"
  by (simp add: put_u16_def)

lemma get_put_u16_other:
  "off' + 1 < off \<or> off + 1 < off' \<Longrightarrow> get_u16 (put_u16 buf off v) off' = get_u16 buf off'"
  by (auto simp: get_u16_def nth_put_u16_other)

lemma get_u16_list_update_other:
  "i \<noteq> off \<Longrightarrow> i \<noteq> off + 1 \<Longrightarrow> get_u16 (buf[i := b]) off = get_u16 buf off"
  by (simp add: get_u16_def)

lemma put_get_u16 [simp]: "put_u16 buf off (get_u16 buf off) = buf"
  by (simp only: put_u16_def get_u16_def u16_hi_of_join u16_lo_of_join list_update_id)

lemma get_u16_local:
  "take n xs = take n ys \<Longrightarrow> off + 1 < n \<Longrightarrow> get_u16 xs off = get_u16 ys off"
  by (metis add_lessD1 get_u16_def nth_take)

lemma nth_local: "take n xs = take n ys \<Longrightarrow> i < n \<Longrightarrow> xs ! i = ys ! i"
  by (metis nth_take)

lemma get_u16_determines_bytes:
  assumes "get_u16 xs off = get_u16 ys off"
  shows "xs ! off = ys ! off" and "xs ! (off + 1) = ys ! (off + 1)"
proof -
  show "xs ! off = ys ! off"
    using assms unfolding get_u16_def by (metis u16_hi_of_join)
  show "xs ! (off + 1) = ys ! (off + 1)"
    using assms unfolding get_u16_def by (metis u16_lo_of_join)
qed

text \<open>The cell-voltage loop: after \<open>n\<close> rounds the first \<open>n\<close> slots hold the voltages.\<close>

abbreviation put_cells :: "u16 list \<Rightarrow> nat \<Rightarrow> u8 list \<Rightarrow> u8 list" where
  "put_cells vs n d \<equiv> foldl (\<lambda>d i. put_u16 d (i * 2) (vs ! i)) d [0..<n]"

lemma length_put_cells [simp]: "length (put_cells vs n d) = length d"
  by (induction n) simp_all

lemma get_put_cells:
  "j < n \<Longrightarrow> n * 2 \<le> length d \<Longrightarrow> get_u16 (put_cells vs n d) (j * 2) = vs ! j"
proof (induction n)
  case 0
  then show ?case by simp
next
  case (Suc n)
  show ?case
  proof (cases "j = n")
    case True
    with Suc.prems show ?thesis by simp
  next
    case False
    with Suc show ?thesis by (simp add: get_put_u16_other)
  qed
qed

section \<open>The codec contracts\<close>

text \<open>
  A decoder for frames with identifier \<open>fid\<close> that needs \<open>need\<close> payload bytes: it rejects
  exactly the frames with another identifier or too short a length, and its answer depends on the
  payload only through the first \<open>need\<close> bytes. A codec adds an encoder that writes such frames.
\<close>

locale frame_decoder =
  fixes unpack :: "can_frame_t \<Rightarrow> 'm option"
    and fid :: u32
    and need :: nat
  assumes unpack_None_iff: "unpack f = None \<longleftrightarrow> can_id f \<noteq> fid \<or> unat (dlc f) < need"
    and unpack_local: "can_id f = can_id g \<Longrightarrow> dlc f = dlc g \<Longrightarrow>
          take need (data f) = take need (data g) \<Longrightarrow> unpack f = unpack g"
begin

lemma unpack_SomeD: "unpack f = Some m \<Longrightarrow> can_id f = fid \<and> need \<le> unat (dlc f)"
  using unpack_None_iff [of f] by auto

lemma unpack_ignores_tail:
  assumes "take (unat (dlc f)) (data f) = take (unat (dlc f)) bytes"
  shows "unpack (f\<lparr>data := bytes\<rparr>) = unpack f"
proof (cases "unat (dlc f) < need")
  case True
  then have "unpack f = None" and "unpack (f\<lparr>data := bytes\<rparr>) = None"
    by (simp_all add: unpack_None_iff)
  then show ?thesis by simp
next
  case False
  then have "take need (data f) = take need bytes"
    using assms by (metis min.absorb1 not_le take_take)
  then show ?thesis by (auto intro!: unpack_local)
qed

lemma unpack_total: "can_id f = fid \<Longrightarrow> need \<le> unat (dlc f) \<Longrightarrow> \<exists>m. unpack f = Some m"
  using unpack_None_iff [of f] by auto

end

locale frame_codec = frame_decoder unpack fid need
  for unpack :: "can_frame_t \<Rightarrow> 'm option" and fid and need +
  fixes pack :: "'m \<Rightarrow> can_frame_t"
    and valid :: "'m \<Rightarrow> bool"
  assumes unpack_pack: "valid m \<Longrightarrow> unpack (pack m) = Some m"
    and pack_header: "can_id (pack m) = fid" "unat (dlc (pack m)) = need" "frame_ok (pack m)"
    and need_fits: "need \<le> CAN_MAX_DLC"
    and unpack_valid: "unpack f = Some m \<Longrightarrow> valid m"
    and unpack_bytes: "unpack f = Some m \<Longrightarrow> unpack g = Some m \<Longrightarrow> i < need \<Longrightarrow>
          data f ! i = data g ! i"
begin

lemma pack_inj: "valid m \<Longrightarrow> valid m' \<Longrightarrow> pack m = pack m' \<Longrightarrow> m = m'"
  by (metis option.inject unpack_pack)

lemma pack_unpack:
  assumes "frame_ok f" and "unpack f = Some m"
  shows "take need (data (pack m)) = take need (data f)"
proof (rule nth_equalityI)
  show "length (take need (data (pack m))) = length (take need (data f))"
    using assms(1) pack_header(3) [of m] by (simp add: frame_ok_def)
next
  fix i assume "i < length (take need (data (pack m)))"
  then have "i < need" by simp
  moreover have "unpack (pack m) = Some m"
    using assms(2) unpack_valid unpack_pack by blast
  ultimately show "take need (data (pack m)) ! i = take need (data f) ! i"
    using unpack_bytes [OF _ assms(2)] by simp
qed

lemma pack_dlc_bound: "unat (dlc (pack m)) \<le> CAN_MAX_DLC"
  using pack_header(2) need_fits by simp

end

section \<open>The messages are codecs\<close>

definition cell_count_ok :: "cell_voltages_t \<Rightarrow> bool" where
  "cell_count_ok cv \<longleftrightarrow> length (cv_cell_mv cv) = BMS_CELL_COUNT"

interpretation status_msg: frame_codec can_protocol_unpack_status CAN_ID_BMS_STATUS 6
  can_protocol_pack_status "\<lambda>_. True"
proof (unfold_locales, goal_cases)
  case (1 f)
  show ?case by (simp add: can_protocol_unpack_status_def word_less_nat_alt)
next
  case (2 f g)
  then show ?case
    by (auto simp: can_protocol_unpack_status_def
        intro: get_u16_local [where n = 6] nth_local [where n = 6])
next
  case (3 m)
  show ?case
    by (simp add: can_protocol_unpack_status_def can_protocol_pack_status_def frame_defs config_defs
        get_put_u16_other get_u16_list_update_other)
next
  case (6 m)
  show ?case by (simp add: can_protocol_pack_status_def frame_ok_def zero_frame_def)
next
  case (9 f m g i)
  then have "get_u16 (data f) 0 = get_u16 (data g) 0" "get_u16 (data f) 2 = get_u16 (data g) 2"
    "data f ! 4 = data g ! 4" "data f ! 5 = data g ! 5"
    by (auto simp: can_protocol_unpack_status_def split: if_splits)
  moreover from 9 have "i \<in> {0, 1, 2, 3, 4, 5}" by auto
  ultimately show ?case
    using get_u16_determines_bytes [of "data f" 0 "data g"]
      get_u16_determines_bytes [of "data f" 2 "data g"] by auto
qed (simp_all add: can_protocol_pack_status_def config_defs)

interpretation cells_msg: frame_codec can_protocol_unpack_cell_voltages CAN_ID_CELL_VOLTAGES
  "BMS_CELL_COUNT * 2" can_protocol_pack_cell_voltages cell_count_ok
proof (unfold_locales, goal_cases)
  case (1 f)
  show ?case by (simp add: can_protocol_unpack_cell_voltages_def)
next
  case (2 f g)
  then show ?case
    by (auto simp: can_protocol_unpack_cell_voltages_def
        intro!: get_u16_local [where n = "BMS_CELL_COUNT * 2"])
next
  case (3 m)
  then have "map (\<lambda>i. get_u16 (data (can_protocol_pack_cell_voltages m)) (i * 2)) [0..<BMS_CELL_COUNT]
      = cv_cell_mv m"
    by (intro nth_equalityI) (auto simp: can_protocol_pack_cell_voltages_def cell_count_ok_def
        zero_frame_def get_put_cells config_defs simp del: upt_rec_numeral)
  then show ?case
    by (simp add: can_protocol_unpack_cell_voltages_def del: upt_rec_numeral)
      (simp add: can_protocol_pack_cell_voltages_def config_defs)
next
  case (6 m)
  show ?case by (simp add: can_protocol_pack_cell_voltages_def frame_ok_def zero_frame_def)
next
  case (9 f m g i)
  then have "\<forall>j<BMS_CELL_COUNT. get_u16 (data f) (j * 2) = get_u16 (data g) (j * 2)"
    by (auto simp: can_protocol_unpack_cell_voltages_def split: if_splits)
  moreover from 9 have "i div 2 < BMS_CELL_COUNT" by auto
  ultimately have eq: "get_u16 (data f) (i div 2 * 2) = get_u16 (data g) (i div 2 * 2)" by blast
  have "i = i div 2 * 2 \<or> i = i div 2 * 2 + 1" by presburger
  with get_u16_determines_bytes [OF eq] show ?case by metis
qed (auto simp: can_protocol_pack_cell_voltages_def can_protocol_unpack_cell_voltages_def
    cell_count_ok_def config_defs split: if_splits)

interpretation fault_msg: frame_codec can_protocol_unpack_fault CAN_ID_FAULT_REPORT 3
  can_protocol_pack_fault "\<lambda>_. True"
proof (unfold_locales, goal_cases)
  case (1 f)
  show ?case by (simp add: can_protocol_unpack_fault_def word_less_nat_alt)
next
  case (2 f g)
  then show ?case
    by (auto simp: can_protocol_unpack_fault_def
        intro: get_u16_local [where n = 3] nth_local [where n = 3])
next
  case (3 m)
  show ?case
    by (simp add: can_protocol_unpack_fault_def can_protocol_pack_fault_def frame_defs config_defs
        get_u16_list_update_other)
next
  case (6 m)
  show ?case by (simp add: can_protocol_pack_fault_def frame_ok_def zero_frame_def)
next
  case (9 f m g i)
  then have "get_u16 (data f) 0 = get_u16 (data g) 0" "data f ! 2 = data g ! 2"
    by (auto simp: can_protocol_unpack_fault_def split: if_splits)
  moreover from 9 have "i \<in> {0, 1, 2}" by auto
  ultimately show ?case
    using get_u16_determines_bytes [of "data f" 0 "data g"] by auto
qed (simp_all add: can_protocol_pack_fault_def config_defs)

interpretation charge_msg: frame_decoder can_protocol_unpack_charge_command CAN_ID_CHARGE_COMMAND 2
proof (unfold_locales, goal_cases)
  case (1 f)
  show ?case by (simp add: can_protocol_unpack_charge_command_def word_less_nat_alt)
next
  case (2 f g)
  then show ?case
    by (auto simp: can_protocol_unpack_charge_command_def intro: get_u16_local [where n = 2])
qed

end
