(* ===== verification/Cell_Model.thy ===== *)
theory Cell_Model
  imports Bms_Config
begin

text \<open>
  The simulated analog front end of \<open>src/bms/cell_model.h\<close> and \<open>cell_model.c\<close>. The
  three file-scope variables are the fields of a record and every operation takes and returns it.
  The elapsed time is a 32-bit word and the drift a 16-bit word, so that both wrap as in C; the
  millivolt value of a cell is an integer between the subtraction and the final clamp.
\<close>

section \<open>Data\<close>

datatype cell_scenario_t =
  SCENARIO_NOMINAL | SCENARIO_OVERVOLTAGE | SCENARIO_UNDERVOLTAGE | SCENARIO_OVERTEMP
| SCENARIO_CELL_IMBALANCE

record cell_reading_t =
  cell_mv :: "u16 list"
  cell_temp_c :: "i16 list"
  pack_current_ca :: i16

record cell_model_t =
  g_scenario :: cell_scenario_t
  g_elapsed_ms :: u32
  g_base_mv :: "u16 list"

definition reading_ok :: "cell_reading_t \<Rightarrow> bool" where
  "reading_ok r \<longleftrightarrow> length (cell_mv r) = BMS_CELL_COUNT \<and> length (cell_temp_c r) = BMS_CELL_COUNT"

section \<open>Operations\<close>

definition cell_model_init :: cell_model_t where
  "cell_model_init =
     \<lparr>g_scenario = SCENARIO_NOMINAL, g_elapsed_ms = 0,
      g_base_mv = replicate BMS_CELL_COUNT (word_of_int BMS_CELL_NOMINAL_MV)\<rparr>"

definition cell_model_set_scenario :: "cell_scenario_t \<Rightarrow> cell_model_t \<Rightarrow> cell_model_t" where
  "cell_model_set_scenario sc m = m\<lparr>g_scenario := sc\<rparr>"

text \<open>
  The body of the loop over the cells: the voltage of cell \<open>i\<close> before the clamp, its
  temperature, and the two clamps with the narrowing store.
\<close>

definition scenario_mv :: "cell_scenario_t \<Rightarrow> nat \<Rightarrow> int \<Rightarrow> int" where
  "scenario_mv sc i mv =
     (case sc of
        SCENARIO_OVERVOLTAGE \<Rightarrow> if i = 0 then BMS_CELL_OVERVOLTAGE_MV + 50 else mv
      | SCENARIO_UNDERVOLTAGE \<Rightarrow> if i = 0 then BMS_CELL_UNDERVOLTAGE_MV - 50 else mv
      | SCENARIO_CELL_IMBALANCE \<Rightarrow> if i = 2 then mv + (BMS_CELL_IMBALANCE_MV + 20) else mv
      | _ \<Rightarrow> mv)"

definition scenario_temp :: "cell_scenario_t \<Rightarrow> nat \<Rightarrow> i16" where
  "scenario_temp sc i =
     (if sc = SCENARIO_OVERTEMP then (if i = 1 then word_of_int (BMS_OVERTEMP_C + 5) else 25) else 25)"

definition clamp_mv :: "int \<Rightarrow> int" where
  "clamp_mv mv = (let mv1 = (if mv < 0 then 0 else mv) in if mv1 > 65535 then 65535 else mv1)"

definition cell_model_step :: "u32 \<Rightarrow> cell_model_t \<Rightarrow> cell_model_t \<times> cell_reading_t" where
  "cell_model_step dt_ms m =
     (let elapsed = g_elapsed_ms m + dt_ms;
          drift_mv = (ucast (elapsed div 1000) :: u16);
          mv_of = (\<lambda>i. scenario_mv (g_scenario m) i (uint (g_base_mv m ! i) - uint drift_mv))
      in (m\<lparr>g_elapsed_ms := elapsed\<rparr>,
          \<lparr>cell_mv = map (\<lambda>i. word_of_int (clamp_mv (mv_of i))) [0..<BMS_CELL_COUNT],
           cell_temp_c = map (scenario_temp (g_scenario m)) [0..<BMS_CELL_COUNT],
           pack_current_ca = word_of_int (- 200)\<rparr>))"

section \<open>Invariant and readings\<close>

definition cell_model_ok :: "cell_model_t \<Rightarrow> bool" where
  "cell_model_ok m \<longleftrightarrow>
     g_base_mv m = replicate BMS_CELL_COUNT (word_of_int BMS_CELL_NOMINAL_MV)"

definition drift_of :: "u32 \<Rightarrow> int" where
  "drift_of elapsed = uint elapsed div 1000 mod 65536"

lemma uint_drift: "uint (ucast (elapsed div 1000 :: u32) :: u16) = drift_of elapsed"
  by (simp add: drift_of_def unsigned_ucast_eq take_bit_eq_mod uint_div_distrib)

lemma cell_model_init_ok [simp]: "cell_model_ok cell_model_init"
  by (simp add: cell_model_ok_def cell_model_init_def)

lemma cell_model_set_scenario_ok [simp]:
  "cell_model_ok (cell_model_set_scenario sc m) \<longleftrightarrow> cell_model_ok m"
  by (simp add: cell_model_ok_def cell_model_set_scenario_def)

lemma cell_model_step_ok [simp]:
  "cell_model_ok (fst (cell_model_step dt m)) \<longleftrightarrow> cell_model_ok m"
  by (simp add: cell_model_ok_def cell_model_step_def Let_def)

lemma cell_model_step_state [simp]:
  "g_elapsed_ms (fst (cell_model_step dt m)) = g_elapsed_ms m + dt"
  "g_scenario (fst (cell_model_step dt m)) = g_scenario m"
  by (simp_all add: cell_model_step_def Let_def)

lemma cell_model_step_reading_ok [simp]: "reading_ok (snd (cell_model_step dt m))"
  by (simp add: reading_ok_def cell_model_step_def Let_def)

lemma pack_current_step [simp]: "pack_current_ca (snd (cell_model_step dt m)) = word_of_int (- 200)"
  by (simp add: cell_model_step_def Let_def)

lemma clamp_mv_range: "0 \<le> clamp_mv mv" "clamp_mv mv \<le> 65535"
  by (simp_all add: clamp_mv_def Let_def)

lemma uint_clamped [simp]: "uint (word_of_int (clamp_mv mv) :: u16) = clamp_mv mv"
  using clamp_mv_range [of mv] by (simp add: uint_word_of_int)

lemma cell_mv_step:
  assumes "cell_model_ok m" and "i < BMS_CELL_COUNT"
  shows "uint (cell_mv (snd (cell_model_step dt m)) ! i)
    = clamp_mv (scenario_mv (g_scenario m) i (BMS_CELL_NOMINAL_MV - drift_of (g_elapsed_ms m + dt)))"
  using assms by (simp add: cell_model_step_def Let_def uint_drift cell_model_ok_def
      BMS_CELL_NOMINAL_MV_def)

lemma cell_temp_step:
  "i < BMS_CELL_COUNT \<Longrightarrow>
    cell_temp_c (snd (cell_model_step dt m)) ! i = scenario_temp (g_scenario m) i"
  by (simp add: cell_model_step_def Let_def)

lemma drift_of_nonneg: "0 \<le> drift_of elapsed"
  by (simp add: drift_of_def)

lemma cell_mv_step_le:
  assumes "cell_model_ok m" and "i < BMS_CELL_COUNT"
  shows "uint (cell_mv (snd (cell_model_step dt m)) ! i) \<le> BMS_CELL_OVERVOLTAGE_MV + 50"
  using drift_of_nonneg [of "g_elapsed_ms m + dt"]
  by (auto simp: cell_mv_step [OF assms] clamp_mv_def scenario_mv_def config_defs
      split: cell_scenario_t.splits)

end
