(* ===== verification/Fault_Manager.thy ===== *)
theory Fault_Manager
  imports Can_Protocol Cell_Model
begin

text \<open>
  The fault state machine of \<open>src/bms/fault_manager.h\<close> and \<open>fault_manager.c\<close>: the
  record \<open>fault_manager_t\<close>, one definition per C function, the declarative meaning of the
  scan over the cells and of the severity table, and the invariant every operation keeps. The
  history of fault entries and the timing of recoveries are treated in \<open>Fault_History\<close>.
\<close>

section \<open>Data\<close>

definition FAULT_DEBOUNCE_MS :: u32 where [config_defs]: "FAULT_DEBOUNCE_MS = 300"

definition FAULT_LATCH_WINDOW_MS :: u32 where [config_defs]: "FAULT_LATCH_WINDOW_MS = 5000"

definition FAULT_LATCH_COUNT :: nat where [config_defs]: "FAULT_LATCH_COUNT = 3"

datatype bms_asil_t = BMS_ASIL_QM | BMS_ASIL_A | BMS_ASIL_B | BMS_ASIL_C | BMS_ASIL_D

fun asil_code :: "bms_asil_t \<Rightarrow> nat" where
  "asil_code BMS_ASIL_QM = 0"
| "asil_code BMS_ASIL_A = 1"
| "asil_code BMS_ASIL_B = 2"
| "asil_code BMS_ASIL_C = 3"
| "asil_code BMS_ASIL_D = 4"

lemma asil_code_inj: "asil_code a = asil_code b \<Longrightarrow> a = b"
  by (cases a; cases b) simp_all

text \<open>C compares the enumerators by their value, so the order is the order of the codes.\<close>

instantiation bms_asil_t :: linorder
begin

definition less_eq_bms_asil_t :: "bms_asil_t \<Rightarrow> bms_asil_t \<Rightarrow> bool" where
  "less_eq_bms_asil_t a b \<longleftrightarrow> asil_code a \<le> asil_code b"

definition less_bms_asil_t :: "bms_asil_t \<Rightarrow> bms_asil_t \<Rightarrow> bool" where
  "less_bms_asil_t a b \<longleftrightarrow> asil_code a < asil_code b"

instance
  by standard (auto simp: less_eq_bms_asil_t_def less_bms_asil_t_def asil_code_inj)

end

lemmas asil_order = less_eq_bms_asil_t_def less_bms_asil_t_def

record fault_manager_t =
  fm_state :: bms_state_t
  active_faults :: u16
  fm_severity :: bms_asil_t
  last_ok_tick_ms :: u32
  watchdog_fault_until_ms :: u32
  fault_entry_ticks_ms :: "u32 list"
  fault_entry_count :: nat

section \<open>Operations\<close>

text \<open>
  \<open>memmove(&a[0], &a[1], n * sizeof a[0])\<close>: the first \<open>n\<close> slots take the values of
  the slots one above, the rest keep theirs.
\<close>

definition memmove_down :: "nat \<Rightarrow> 'a list \<Rightarrow> 'a list" where
  "memmove_down n a = take n (drop 1 a) @ drop n a"

definition record_fault_entry :: "fault_manager_t \<Rightarrow> u32 \<Rightarrow> fault_manager_t" where
  "record_fault_entry fm now_ms =
     (if fault_entry_count fm < FAULT_LATCH_COUNT then
        fm\<lparr>fault_entry_ticks_ms := (fault_entry_ticks_ms fm)[fault_entry_count fm := now_ms],
           fault_entry_count := fault_entry_count fm + 1\<rparr>
      else
        fm\<lparr>fault_entry_ticks_ms :=
             (memmove_down (FAULT_LATCH_COUNT - 1) (fault_entry_ticks_ms fm))
               [FAULT_LATCH_COUNT - 1 := now_ms]\<rparr>)"

definition latch_should_trip :: "fault_manager_t \<Rightarrow> u32 \<Rightarrow> bool" where
  "latch_should_trip fm now_ms =
     (if fault_entry_count fm < FAULT_LATCH_COUNT then False
      else now_ms - fault_entry_ticks_ms fm ! 0 \<le> FAULT_LATCH_WINDOW_MS)"

record fault_severity_entry_t =
  sev_bit :: u16
  sev_severity :: bms_asil_t

definition FAULT_SEVERITIES :: "fault_severity_entry_t list" where
  "FAULT_SEVERITIES =
     [\<lparr>sev_bit = FAULT_BIT_OVERVOLTAGE, sev_severity = BMS_ASIL_D\<rparr>,
      \<lparr>sev_bit = FAULT_BIT_OVERTEMP, sev_severity = BMS_ASIL_D\<rparr>,
      \<lparr>sev_bit = FAULT_BIT_TASK_WATCHDOG, sev_severity = BMS_ASIL_D\<rparr>,
      \<lparr>sev_bit = FAULT_BIT_UNDERVOLTAGE, sev_severity = BMS_ASIL_C\<rparr>,
      \<lparr>sev_bit = FAULT_BIT_CELL_IMBALANCE, sev_severity = BMS_ASIL_B\<rparr>]"

definition fault_manager_get_severity :: "u16 \<Rightarrow> bms_asil_t" where
  "fault_manager_get_severity faults =
     foldl (\<lambda>worst e. if faults AND sev_bit e \<noteq> 0 \<and> sev_severity e > worst
                      then sev_severity e else worst)
       BMS_ASIL_QM FAULT_SEVERITIES"

definition fault_manager_init :: fault_manager_t where
  "fault_manager_init =
     \<lparr>fm_state = BMS_STATE_NORMAL, active_faults = 0, fm_severity = BMS_ASIL_QM,
      last_ok_tick_ms = 0, watchdog_fault_until_ms = 0,
      fault_entry_ticks_ms = replicate FAULT_LATCH_COUNT 0, fault_entry_count = 0\<rparr>"

text \<open>The local variables of \<open>evaluate_hard_faults\<close> and one round of its loop.\<close>

record scan_t =
  sc_faults :: u16
  sc_warning :: bool
  sc_min_mv :: u16
  sc_max_mv :: u16
  sc_max_temp :: i16

definition scan_start :: "cell_reading_t \<Rightarrow> scan_t" where
  "scan_start r = \<lparr>sc_faults = 0, sc_warning = False, sc_min_mv = cell_mv r ! 0,
     sc_max_mv = cell_mv r ! 0, sc_max_temp = cell_temp_c r ! 0\<rparr>"

definition scan_cell :: "cell_reading_t \<Rightarrow> scan_t \<Rightarrow> nat \<Rightarrow> scan_t" where
  "scan_cell r s i =
     (let mv = cell_mv r ! i;
          t = cell_temp_c r ! i;
          s1 = s\<lparr>sc_min_mv := (if mv < sc_min_mv s then mv else sc_min_mv s),
                 sc_max_mv := (if mv > sc_max_mv s then mv else sc_max_mv s),
                 sc_max_temp := (if sint t > sint (sc_max_temp s) then t else sc_max_temp s)\<rparr>;
          s2 = (if uint mv \<ge> BMS_CELL_OVERVOLTAGE_MV
                then s1\<lparr>sc_faults := sc_faults s1 OR FAULT_BIT_OVERVOLTAGE\<rparr>
                else if uint mv \<ge> BMS_CELL_OVERVOLTAGE_MV - BMS_WARNING_MARGIN_MV
                then s1\<lparr>sc_warning := True\<rparr> else s1);
          s3 = (if uint mv \<le> BMS_CELL_UNDERVOLTAGE_MV
                then s2\<lparr>sc_faults := sc_faults s2 OR FAULT_BIT_UNDERVOLTAGE\<rparr>
                else if uint mv \<le> BMS_CELL_UNDERVOLTAGE_MV + BMS_WARNING_MARGIN_MV
                then s2\<lparr>sc_warning := True\<rparr> else s2)
      in s3)"

definition evaluate_hard_faults :: "cell_reading_t \<Rightarrow> u16 \<times> bool" where
  "evaluate_hard_faults r =
     (let s = foldl (scan_cell r) (scan_start r) [0..<BMS_CELL_COUNT];
          s1 = (if sint (sc_max_temp s) \<ge> BMS_OVERTEMP_C
                then s\<lparr>sc_faults := sc_faults s OR FAULT_BIT_OVERTEMP\<rparr>
                else if sint (sc_max_temp s) \<ge> BMS_OVERTEMP_C - 5
                then s\<lparr>sc_warning := True\<rparr> else s);
          spread = uint (sc_max_mv s1 - sc_min_mv s1);
          s2 = (if spread \<ge> BMS_CELL_IMBALANCE_MV
                then s1\<lparr>sc_faults := sc_faults s1 OR FAULT_BIT_CELL_IMBALANCE\<rparr>
                else if spread \<ge> BMS_CELL_IMBALANCE_MV * 3 div 4
                then s1\<lparr>sc_warning := True\<rparr> else s1)
      in (sc_faults s2, sc_warning s2))"

definition fault_manager_evaluate ::
  "fault_manager_t \<Rightarrow> cell_reading_t \<Rightarrow> u32 \<Rightarrow> fault_manager_t" where
  "fault_manager_evaluate fm reading now_ms =
     (if fm_state fm = BMS_STATE_SHUTDOWN then fm
      else
        let (hard_faults, warning) = evaluate_hard_faults reading;
            watchdog_active = (watchdog_fault_until_ms fm \<noteq> 0 \<and> now_ms < watchdog_fault_until_ms fm);
            total_faults = hard_faults OR (if watchdog_active then FAULT_BIT_TASK_WATCHDOG else 0);
            fm1 = fm\<lparr>active_faults := total_faults,
                     fm_severity := fault_manager_get_severity total_faults\<rparr>
        in if total_faults \<noteq> 0 then
             let fm2 = (if fm_state fm1 \<noteq> BMS_STATE_FAULT
                        then (record_fault_entry fm1 now_ms)\<lparr>fm_state := BMS_STATE_FAULT\<rparr>
                        else fm1);
                 fm3 = (if fm_severity fm2 \<ge> BMS_ASIL_D \<or> latch_should_trip fm2 now_ms
                        then fm2\<lparr>fm_state := BMS_STATE_SHUTDOWN\<rparr> else fm2)
             in fm3\<lparr>last_ok_tick_ms := 0\<rparr>
           else if fm_state fm1 = BMS_STATE_FAULT then
             (if last_ok_tick_ms fm1 = 0 then fm1\<lparr>last_ok_tick_ms := now_ms\<rparr>
              else if now_ms - last_ok_tick_ms fm1 \<ge> FAULT_DEBOUNCE_MS
              then fm1\<lparr>fm_state := (if warning then BMS_STATE_WARNING else BMS_STATE_NORMAL),
                       last_ok_tick_ms := 0\<rparr>
              else fm1)
           else fm1\<lparr>fm_state := (if warning then BMS_STATE_WARNING else BMS_STATE_NORMAL)\<rparr>)"

definition fault_manager_report_watchdog_fault :: "fault_manager_t \<Rightarrow> u32 \<Rightarrow> fault_manager_t" where
  "fault_manager_report_watchdog_fault fm now_ms =
     (if fm_state fm = BMS_STATE_SHUTDOWN then fm
      else
        let faults = active_faults fm OR FAULT_BIT_TASK_WATCHDOG;
            fm1 = fm\<lparr>watchdog_fault_until_ms := now_ms + FAULT_DEBOUNCE_MS,
                     active_faults := faults,
                     fm_severity := fault_manager_get_severity faults\<rparr>;
            fm2 = (if fm_state fm1 \<noteq> BMS_STATE_FAULT
                   then (record_fault_entry fm1 now_ms)\<lparr>fm_state := BMS_STATE_FAULT\<rparr> else fm1)
        in if fm_severity fm2 \<ge> BMS_ASIL_D \<or> latch_should_trip fm2 now_ms
           then fm2\<lparr>fm_state := BMS_STATE_SHUTDOWN\<rparr> else fm2)"

section \<open>What the scan over the cells computes\<close>

definition overvoltage_cell :: "cell_reading_t \<Rightarrow> nat \<Rightarrow> bool" where
  "overvoltage_cell r i \<longleftrightarrow> uint (cell_mv r ! i) \<ge> BMS_CELL_OVERVOLTAGE_MV"

definition undervoltage_cell :: "cell_reading_t \<Rightarrow> nat \<Rightarrow> bool" where
  "undervoltage_cell r i \<longleftrightarrow> uint (cell_mv r ! i) \<le> BMS_CELL_UNDERVOLTAGE_MV"

definition near_limit_cell :: "cell_reading_t \<Rightarrow> nat \<Rightarrow> bool" where
  "near_limit_cell r i \<longleftrightarrow>
     \<not> overvoltage_cell r i \<and> uint (cell_mv r ! i) \<ge> BMS_CELL_OVERVOLTAGE_MV - BMS_WARNING_MARGIN_MV \<or>
     \<not> undervoltage_cell r i \<and> uint (cell_mv r ! i) \<le> BMS_CELL_UNDERVOLTAGE_MV + BMS_WARNING_MARGIN_MV"

definition cell_at_temp :: "cell_reading_t \<Rightarrow> int \<Rightarrow> bool" where
  "cell_at_temp r t \<longleftrightarrow> (\<exists>i<BMS_CELL_COUNT. sint (cell_temp_c r ! i) \<ge> t)"

definition cells_apart :: "cell_reading_t \<Rightarrow> int \<Rightarrow> bool" where
  "cells_apart r d \<longleftrightarrow>
     (\<exists>i<BMS_CELL_COUNT. \<exists>j<BMS_CELL_COUNT. uint (cell_mv r ! i) - uint (cell_mv r ! j) \<ge> d)"

definition hard_fault_mask :: "cell_reading_t \<Rightarrow> u16" where
  "hard_fault_mask r =
     (if \<exists>i<BMS_CELL_COUNT. overvoltage_cell r i then FAULT_BIT_OVERVOLTAGE else 0) OR
     (if \<exists>i<BMS_CELL_COUNT. undervoltage_cell r i then FAULT_BIT_UNDERVOLTAGE else 0) OR
     (if cell_at_temp r BMS_OVERTEMP_C then FAULT_BIT_OVERTEMP else 0) OR
     (if cells_apart r BMS_CELL_IMBALANCE_MV then FAULT_BIT_CELL_IMBALANCE else 0)"

definition warning_zone :: "cell_reading_t \<Rightarrow> bool" where
  "warning_zone r \<longleftrightarrow>
     (\<exists>i<BMS_CELL_COUNT. near_limit_cell r i) \<or>
     cell_at_temp r (BMS_OVERTEMP_C - 5) \<and> \<not> cell_at_temp r BMS_OVERTEMP_C \<or>
     cells_apart r (BMS_CELL_IMBALANCE_MV * 3 div 4) \<and> \<not> cells_apart r BMS_CELL_IMBALANCE_MV"

abbreviation scan :: "cell_reading_t \<Rightarrow> nat \<Rightarrow> scan_t" where
  "scan r n \<equiv> foldl (scan_cell r) (scan_start r) [0..<n]"

lemma scan_cell_fields:
  "sc_faults (scan_cell r s i) = sc_faults s OR
     (if overvoltage_cell r i then FAULT_BIT_OVERVOLTAGE else 0) OR
     (if undervoltage_cell r i then FAULT_BIT_UNDERVOLTAGE else 0)"
  "sc_warning (scan_cell r s i) \<longleftrightarrow> sc_warning s \<or> near_limit_cell r i"
  "sc_min_mv (scan_cell r s i) = min (sc_min_mv s) (cell_mv r ! i)"
  "sc_max_mv (scan_cell r s i) = max (sc_max_mv s) (cell_mv r ! i)"
  "sint (sc_max_temp (scan_cell r s i)) = max (sint (sc_max_temp s)) (sint (cell_temp_c r ! i))"
  by (auto simp: scan_cell_def Let_def overvoltage_cell_def undervoltage_cell_def near_limit_cell_def
      or.assoc)

lemma ex_less_Suc_iff: "(\<exists>i<Suc n. P i) \<longleftrightarrow> (\<exists>i<n. P i) \<or> P n"
  by (auto simp: less_Suc_eq)

lemma scan_faults:
  "sc_faults (scan r n) =
     (if \<exists>i<n. overvoltage_cell r i then FAULT_BIT_OVERVOLTAGE else 0) OR
     (if \<exists>i<n. undervoltage_cell r i then FAULT_BIT_UNDERVOLTAGE else 0)"
proof (induction n)
  case 0
  show ?case by (simp add: scan_start_def)
next
  case (Suc n)
  then show ?case
    by (simp add: scan_cell_fields ex_less_Suc_iff config_defs)
qed

lemma scan_warning: "sc_warning (scan r n) \<longleftrightarrow> (\<exists>i<n. near_limit_cell r i)"
  by (induction n) (auto simp: scan_start_def scan_cell_fields ex_less_Suc_iff)

lemma scan_extremes:
  assumes "0 < n"
  shows "(\<forall>i<n. sc_min_mv (scan r n) \<le> cell_mv r ! i) \<and> (\<exists>i<n. sc_min_mv (scan r n) = cell_mv r ! i)"
    and "(\<forall>i<n. cell_mv r ! i \<le> sc_max_mv (scan r n)) \<and> (\<exists>i<n. sc_max_mv (scan r n) = cell_mv r ! i)"
    and "(\<forall>i<n. sint (cell_temp_c r ! i) \<le> sint (sc_max_temp (scan r n))) \<and>
         (\<exists>i<n. sint (sc_max_temp (scan r n)) = sint (cell_temp_c r ! i))"
  using assms
  by (induction n rule: nat_induct_non_zero)
    (auto simp: scan_start_def scan_cell_fields less_Suc_eq min_def max_def)

lemma scan_max_temp_ge: "sint (sc_max_temp (scan r BMS_CELL_COUNT)) \<ge> t \<longleftrightarrow> cell_at_temp r t"
proof -
  have "0 < BMS_CELL_COUNT" by (simp add: config_defs)
  from scan_extremes(3) [OF this, of r] show ?thesis
    by (auto simp: cell_at_temp_def)
qed

lemma scan_spread_ge:
  "uint (sc_max_mv (scan r BMS_CELL_COUNT) - sc_min_mv (scan r BMS_CELL_COUNT)) \<ge> d \<longleftrightarrow>
    cells_apart r d"
  (is "d \<le> uint (?hi - ?lo) \<longleftrightarrow> _")
proof -
  have pos: "0 < BMS_CELL_COUNT" by (simp add: config_defs)
  note lo = scan_extremes(1) [OF pos, of r] and hi = scan_extremes(2) [OF pos, of r]
  have "?lo \<le> ?hi" using lo hi by (metis order_trans pos)
  then have diff: "uint (?hi - ?lo) = uint ?hi - uint ?lo"
    by (simp add: uint_minus_simple_alt)
  have bounds: "uint ?lo \<le> uint (cell_mv r ! i)" "uint (cell_mv r ! i) \<le> uint ?hi"
    if "i < BMS_CELL_COUNT" for i
    using lo hi that by (auto simp: word_le_def)
  show ?thesis
  proof
    assume "d \<le> uint (?hi - ?lo)"
    with diff have "d \<le> uint ?hi - uint ?lo" by simp
    with lo hi show "cells_apart r d" unfolding cells_apart_def by metis
  next
    assume "cells_apart r d"
    with bounds diff show "d \<le> uint (?hi - ?lo)" unfolding cells_apart_def by fastforce
  qed
qed

lemma evaluate_hard_faults_eq: "evaluate_hard_faults r = (hard_fault_mask r, warning_zone r)"
  unfolding evaluate_hard_faults_def Let_def
  by (auto simp: scan_max_temp_ge scan_spread_ge scan_faults scan_warning hard_fault_mask_def
      warning_zone_def or.assoc)

lemma hard_fault_mask_bits:
  "bit (hard_fault_mask r) 0 \<longleftrightarrow> (\<exists>i<BMS_CELL_COUNT. overvoltage_cell r i)"
  "bit (hard_fault_mask r) 1 \<longleftrightarrow> (\<exists>i<BMS_CELL_COUNT. undervoltage_cell r i)"
  "bit (hard_fault_mask r) 2 \<longleftrightarrow> cell_at_temp r BMS_OVERTEMP_C"
  "bit (hard_fault_mask r) 3 \<longleftrightarrow> cells_apart r BMS_CELL_IMBALANCE_MV"
  by (simp_all add: hard_fault_mask_def bit_or_iff FAULT_BIT_OVERVOLTAGE_def
      FAULT_BIT_UNDERVOLTAGE_def FAULT_BIT_OVERTEMP_def FAULT_BIT_CELL_IMBALANCE_def bit_1_iff)

lemma hard_fault_mask_less: "hard_fault_mask r < 16"
  by (simp add: hard_fault_mask_def config_defs)

lemma hard_fault_mask_no_watchdog [simp]: "hard_fault_mask r AND FAULT_BIT_TASK_WATCHDOG = 0"
  by (simp add: hard_fault_mask_def config_defs)

section \<open>Severity\<close>

lemma asil_not_less_QM [simp]: "\<not> a < BMS_ASIL_QM" "BMS_ASIL_QM \<le> a"
  by (cases a; simp add: asil_order)+

lemma asil_ge_D [simp]:
  "BMS_ASIL_D \<le> a \<longleftrightarrow> a = BMS_ASIL_D" "a \<le> BMS_ASIL_D" "a < BMS_ASIL_D \<longleftrightarrow> a \<noteq> BMS_ASIL_D"
  by (cases a; simp add: asil_order)+

text \<open>The running maximum of the selected keys: what the loop over the table keeps.\<close>

abbreviation worst_fold :: "('e \<Rightarrow> bool) \<Rightarrow> ('e \<Rightarrow> 'k::linorder) \<Rightarrow> 'k \<Rightarrow> 'e list \<Rightarrow> 'k" where
  "worst_fold P key \<equiv> foldl (\<lambda>w e. if P e \<and> key e > w then key e else w)"

lemma worst_fold_ge_start: "w \<le> worst_fold P key w es"
proof (induction es arbitrary: w)
  case (Cons x xs)
  show ?case using Cons.IH [of w] Cons.IH [of "key x"] by auto
qed simp

lemma worst_fold_ge: "e \<in> set es \<Longrightarrow> P e \<Longrightarrow> key e \<le> worst_fold P key w es"
proof (induction es arbitrary: w)
  case (Cons x xs)
  then show ?case
    using worst_fold_ge_start [of "key x" P key xs] worst_fold_ge_start [of w P key xs]
    by (auto intro: order_trans)
qed simp

lemma worst_fold_attained:
  "worst_fold P key w es = w \<or> (\<exists>e\<in>set es. P e \<and> worst_fold P key w es = key e)"
proof (induction es arbitrary: w)
  case (Cons x xs)
  show ?case using Cons.IH [of w] Cons.IH [of "key x"] by auto
qed simp

lemma severity_is_worst:
  "(\<forall>e\<in>set FAULT_SEVERITIES. faults AND sev_bit e \<noteq> 0 \<longrightarrow>
      sev_severity e \<le> fault_manager_get_severity faults) \<and>
   (fault_manager_get_severity faults = BMS_ASIL_QM \<or>
    (\<exists>e\<in>set FAULT_SEVERITIES. faults AND sev_bit e \<noteq> 0 \<and>
      fault_manager_get_severity faults = sev_severity e))"
  using worst_fold_ge [where key = sev_severity and P = "\<lambda>e. faults AND sev_bit e \<noteq> 0"]
    worst_fold_attained [where key = sev_severity and P = "\<lambda>e. faults AND sev_bit e \<noteq> 0"
      and es = FAULT_SEVERITIES and w = BMS_ASIL_QM]
  unfolding fault_manager_get_severity_def by blast

lemma severity_cases:
  "fault_manager_get_severity f =
     (if f AND FAULT_BIT_OVERVOLTAGE \<noteq> 0 \<or> f AND FAULT_BIT_OVERTEMP \<noteq> 0 \<or>
         f AND FAULT_BIT_TASK_WATCHDOG \<noteq> 0 then BMS_ASIL_D
      else if f AND FAULT_BIT_UNDERVOLTAGE \<noteq> 0 then BMS_ASIL_C
      else if f AND FAULT_BIT_CELL_IMBALANCE \<noteq> 0 then BMS_ASIL_B
      else BMS_ASIL_QM)"
  by (simp add: fault_manager_get_severity_def FAULT_SEVERITIES_def asil_order)

lemma severity_zero [simp]: "fault_manager_get_severity 0 = BMS_ASIL_QM"
  by (simp add: severity_cases)

lemma severity_watchdog [simp]:
  "fault_manager_get_severity (f OR FAULT_BIT_TASK_WATCHDOG) = BMS_ASIL_D"
proof -
  have "(f OR FAULT_BIT_TASK_WATCHDOG) AND FAULT_BIT_TASK_WATCHDOG = FAULT_BIT_TASK_WATCHDOG"
    by (rule bit_word_eqI) (auto simp: bit_simps)
  moreover have "FAULT_BIT_TASK_WATCHDOG \<noteq> 0" by (simp add: config_defs)
  ultimately show ?thesis by (simp add: severity_cases)
qed

lemma severity_hard_faults:
  "fault_manager_get_severity (hard_fault_mask r) =
     (if (\<exists>i<BMS_CELL_COUNT. overvoltage_cell r i) \<or> cell_at_temp r BMS_OVERTEMP_C then BMS_ASIL_D
      else if \<exists>i<BMS_CELL_COUNT. undervoltage_cell r i then BMS_ASIL_C
      else if cells_apart r BMS_CELL_IMBALANCE_MV then BMS_ASIL_B
      else BMS_ASIL_QM)"
  by (auto simp: severity_cases hard_fault_mask_def config_defs)

lemma severity_hard_faults_QM:
  "fault_manager_get_severity (hard_fault_mask r) = BMS_ASIL_QM \<longleftrightarrow> hard_fault_mask r = 0"
  by (simp add: severity_hard_faults) (simp add: hard_fault_mask_def config_defs)

section \<open>The invariant of the fault manager\<close>

text \<open>
  Besides the shape of the entry buffer and the agreement of severity and mask, the invariant says
  what each state implies. Outside SHUTDOWN no watchdog window is open and no fault of the highest
  level is active, because both would have latched the machine.
\<close>

definition fm_ok :: "fault_manager_t \<Rightarrow> bool" where
  "fm_ok fm \<longleftrightarrow>
     length (fault_entry_ticks_ms fm) = FAULT_LATCH_COUNT \<and>
     fault_entry_count fm \<le> FAULT_LATCH_COUNT \<and>
     active_faults fm < 32 \<and>
     fm_severity fm = fault_manager_get_severity (active_faults fm) \<and>
     (fm_state fm \<noteq> BMS_STATE_SHUTDOWN \<longrightarrow>
        watchdog_fault_until_ms fm = 0 \<and> fm_severity fm < BMS_ASIL_D) \<and>
     (fm_state fm = BMS_STATE_NORMAL \<or> fm_state fm = BMS_STATE_WARNING \<longrightarrow>
        active_faults fm = 0 \<and> last_ok_tick_ms fm = 0) \<and>
     (fm_state fm = BMS_STATE_FAULT \<longrightarrow>
        0 < fault_entry_count fm \<and> (last_ok_tick_ms fm \<noteq> 0 \<longrightarrow> active_faults fm = 0)) \<and>
     (fm_state fm = BMS_STATE_SHUTDOWN \<longrightarrow> 0 < fault_entry_count fm \<and> active_faults fm \<noteq> 0)"

lemma length_memmove_down: "n < length a \<Longrightarrow> length (memmove_down n a) = length a"
  by (simp add: memmove_down_def)

lemma record_fault_entry_fields [simp]:
  "fm_state (record_fault_entry fm t) = fm_state fm"
  "active_faults (record_fault_entry fm t) = active_faults fm"
  "fm_severity (record_fault_entry fm t) = fm_severity fm"
  "last_ok_tick_ms (record_fault_entry fm t) = last_ok_tick_ms fm"
  "watchdog_fault_until_ms (record_fault_entry fm t) = watchdog_fault_until_ms fm"
  "0 < fault_entry_count (record_fault_entry fm t)"
  by (simp_all add: record_fault_entry_def config_defs)

lemma record_fault_entry_shape:
  assumes "length (fault_entry_ticks_ms fm) = FAULT_LATCH_COUNT"
    and "fault_entry_count fm \<le> FAULT_LATCH_COUNT"
  shows "length (fault_entry_ticks_ms (record_fault_entry fm t)) = FAULT_LATCH_COUNT"
    and "fault_entry_count (record_fault_entry fm t) \<le> FAULT_LATCH_COUNT"
  using assms by (auto simp: record_fault_entry_def length_memmove_down config_defs)

lemma fm_init_ok [simp]: "fm_ok fault_manager_init"
  by (simp add: fm_ok_def fault_manager_init_def config_defs asil_order)

text \<open>One evaluation, branch by branch, from a well-formed state that has not latched.\<close>

lemma evaluate_shutdown [simp]:
  "fm_state fm = BMS_STATE_SHUTDOWN \<Longrightarrow> fault_manager_evaluate fm r t = fm"
  by (simp add: fault_manager_evaluate_def)

lemma evaluate_clear:
  assumes "fm_ok fm" and "fm_state fm \<noteq> BMS_STATE_SHUTDOWN" and "hard_fault_mask r = 0"
  shows "fault_manager_evaluate fm r t =
    (let fm1 = fm\<lparr>active_faults := 0, fm_severity := BMS_ASIL_QM\<rparr>;
         calm = (if warning_zone r then BMS_STATE_WARNING else BMS_STATE_NORMAL)
     in if fm_state fm = BMS_STATE_FAULT then
          (if last_ok_tick_ms fm = 0 then fm1\<lparr>last_ok_tick_ms := t\<rparr>
           else if t - last_ok_tick_ms fm \<ge> FAULT_DEBOUNCE_MS
           then fm1\<lparr>fm_state := calm, last_ok_tick_ms := 0\<rparr> else fm1)
        else fm1\<lparr>fm_state := calm\<rparr>)"
  using assms by (simp add: fault_manager_evaluate_def evaluate_hard_faults_eq fm_ok_def Let_def)

definition enter_fault :: "fault_manager_t \<Rightarrow> u16 \<Rightarrow> u32 \<Rightarrow> fault_manager_t" where
  "enter_fault fm faults t =
     (let fm1 = fm\<lparr>active_faults := faults, fm_severity := fault_manager_get_severity faults\<rparr>
      in if fm_state fm = BMS_STATE_FAULT then fm1
         else (record_fault_entry fm1 t)\<lparr>fm_state := BMS_STATE_FAULT\<rparr>)"

lemma evaluate_faulty:
  assumes "fm_ok fm" and "fm_state fm \<noteq> BMS_STATE_SHUTDOWN" and "hard_fault_mask r \<noteq> 0"
  shows "fault_manager_evaluate fm r t =
    (let fm2 = enter_fault fm (hard_fault_mask r) t
     in (if fm_severity fm2 = BMS_ASIL_D \<or> latch_should_trip fm2 t
         then fm2\<lparr>fm_state := BMS_STATE_SHUTDOWN, last_ok_tick_ms := 0\<rparr>
         else fm2\<lparr>last_ok_tick_ms := 0\<rparr>))"
  using assms
  by (simp add: fault_manager_evaluate_def evaluate_hard_faults_eq enter_fault_def fm_ok_def Let_def)

lemma enter_fault_fields [simp]:
  "fm_state (enter_fault fm m t) = BMS_STATE_FAULT"
  "active_faults (enter_fault fm m t) = m"
  "fm_severity (enter_fault fm m t) = fault_manager_get_severity m"
  "watchdog_fault_until_ms (enter_fault fm m t) = watchdog_fault_until_ms fm"
  by (simp_all add: enter_fault_def Let_def)

lemma evaluate_faulty_state:
  assumes "fm_ok fm" and "fm_state fm \<noteq> BMS_STATE_SHUTDOWN" and "hard_fault_mask r \<noteq> 0"
  shows "fm_state (fault_manager_evaluate fm r t) \<in> {BMS_STATE_FAULT, BMS_STATE_SHUTDOWN}"
    and "last_ok_tick_ms (fault_manager_evaluate fm r t) = 0"
  using assms by (simp_all add: evaluate_faulty Let_def)

lemma enter_fault_entries:
  assumes "fm_ok fm" and "fm_state fm \<noteq> BMS_STATE_SHUTDOWN"
  shows "length (fault_entry_ticks_ms (enter_fault fm m t)) = FAULT_LATCH_COUNT"
    and "fault_entry_count (enter_fault fm m t) \<le> FAULT_LATCH_COUNT"
    and "0 < fault_entry_count (enter_fault fm m t)"
  using assms record_fault_entry_shape
    [of "fm\<lparr>active_faults := m, fm_severity := fault_manager_get_severity m\<rparr>" t]
  by (auto simp: enter_fault_def Let_def fm_ok_def)

lemma evaluate_ok [simp]:
  assumes ok: "fm_ok fm"
  shows "fm_ok (fault_manager_evaluate fm r t)"
proof (cases "fm_state fm = BMS_STATE_SHUTDOWN")
  case True
  with ok show ?thesis by simp
next
  case False
  show ?thesis
  proof (cases "hard_fault_mask r = 0")
    case True
    show ?thesis
      using ok False unfolding evaluate_clear [OF ok False True]
      by (cases "fm_state fm") (auto simp: fm_ok_def Let_def)
  next
    case faulty: False
    have small: "hard_fault_mask r < 32"
      using hard_fault_mask_less [of r] by (rule less_trans) simp
    have wd: "watchdog_fault_until_ms fm = 0" using ok False by (simp add: fm_ok_def)
    show ?thesis
      using enter_fault_entries [OF ok False] faulty small wd
      unfolding evaluate_faulty [OF ok False faulty]
      by (auto simp: fm_ok_def Let_def)
  qed
qed

lemma report_watchdog_eq:
  assumes "fm_state fm \<noteq> BMS_STATE_SHUTDOWN"
  shows "fault_manager_report_watchdog_fault fm t =
    (enter_fault fm (active_faults fm OR FAULT_BIT_TASK_WATCHDOG) t)
      \<lparr>watchdog_fault_until_ms := t + FAULT_DEBOUNCE_MS, fm_state := BMS_STATE_SHUTDOWN\<rparr>"
  using assms
  by (simp add: fault_manager_report_watchdog_fault_def enter_fault_def record_fault_entry_def Let_def)

lemma report_watchdog_state [simp]:
  "fm_state (fault_manager_report_watchdog_fault fm t) = BMS_STATE_SHUTDOWN"
  by (cases "fm_state fm = BMS_STATE_SHUTDOWN")
    (simp_all add: report_watchdog_eq, simp add: fault_manager_report_watchdog_fault_def)

lemma report_watchdog_shutdown [simp]:
  "fm_state fm = BMS_STATE_SHUTDOWN \<Longrightarrow> fault_manager_report_watchdog_fault fm t = fm"
  by (simp add: fault_manager_report_watchdog_fault_def)

lemma or_watchdog_bounds:
  assumes "m < 32"
  shows "m OR FAULT_BIT_TASK_WATCHDOG < 32" and "m OR FAULT_BIT_TASK_WATCHDOG \<noteq> 0"
proof -
  have "uint m OR 16 < 2 ^ 5"
    using assms by (intro OR_upper) (simp_all add: word_less_def)
  then show "m OR FAULT_BIT_TASK_WATCHDOG < 32"
    by (simp add: word_less_def unsigned_or_eq config_defs)
  have "fault_manager_get_severity (m OR FAULT_BIT_TASK_WATCHDOG) \<noteq> fault_manager_get_severity 0"
    by simp
  then show "m OR FAULT_BIT_TASK_WATCHDOG \<noteq> 0" by metis
qed

lemma report_watchdog_ok [simp]:
  assumes "fm_ok fm"
  shows "fm_ok (fault_manager_report_watchdog_fault fm t)"
proof (cases "fm_state fm = BMS_STATE_SHUTDOWN")
  case True
  with assms show ?thesis by simp
next
  case False
  then show ?thesis
    using assms enter_fault_entries [OF assms False] or_watchdog_bounds [of "active_faults fm"]
    unfolding report_watchdog_eq [OF False] by (simp add: fm_ok_def)
qed

lemma evaluate_asil_d:
  assumes "fm_ok fm"
    and "(\<exists>i<BMS_CELL_COUNT. BMS_CELL_OVERVOLTAGE_MV \<le> uint (cell_mv r ! i)) \<or>
         (\<exists>i<BMS_CELL_COUNT. BMS_OVERTEMP_C \<le> sint (cell_temp_c r ! i))"
  shows "fm_state (fault_manager_evaluate fm r t) = BMS_STATE_SHUTDOWN"
proof (cases "fm_state fm = BMS_STATE_SHUTDOWN")
  case False
  have sev: "fault_manager_get_severity (hard_fault_mask r) = BMS_ASIL_D"
    using assms(2) by (auto simp: severity_hard_faults overvoltage_cell_def cell_at_temp_def)
  then have "hard_fault_mask r \<noteq> 0" by auto
  with sev show ?thesis by (simp add: evaluate_faulty [OF assms(1) False] Let_def)
qed simp

section \<open>Properties\<close>

definition nominal_reading :: cell_reading_t where
  "nominal_reading = \<lparr>cell_mv = replicate BMS_CELL_COUNT (word_of_int BMS_CELL_NOMINAL_MV),
     cell_temp_c = replicate BMS_CELL_COUNT 25, pack_current_ca = word_of_int (- 200)\<rparr>"

definition reading_with_cell :: "u16 \<Rightarrow> cell_reading_t" where
  "reading_with_cell mv = nominal_reading\<lparr>cell_mv := (cell_mv nominal_reading)[0 := mv]\<rparr>"

lemma mask_reading_with_cell:
  "evaluate_hard_faults nominal_reading = (0, False)"
  "evaluate_hard_faults (reading_with_cell 2950) = (10, False)"
  "evaluate_hard_faults (reading_with_cell 3600) = (0, False)"
  by code_simp+

lemmas sample_masks [simp] = mask_reading_with_cell [unfolded evaluate_hard_faults_eq prod.inject,
    THEN conjunct1]

lemmas sample_warnings [simp] = mask_reading_with_cell [unfolded evaluate_hard_faults_eq prod.inject,
    THEN conjunct2]

text \<open>
  C4. The scan over the cells sets exactly the bits the limits call for: overvoltage, undervoltage
  and overtemperature when some cell is at or past the limit, imbalance when two cells are at least
  150 mV apart, no other bit; and the warning flag is set exactly in the warning zone.
\<close>

theorem hard_faults_meaning:
  "(bit (fst (evaluate_hard_faults r)) 0 \<longleftrightarrow>
      (\<exists>i<BMS_CELL_COUNT. BMS_CELL_OVERVOLTAGE_MV \<le> uint (cell_mv r ! i))) \<and>
   (bit (fst (evaluate_hard_faults r)) 1 \<longleftrightarrow>
      (\<exists>i<BMS_CELL_COUNT. uint (cell_mv r ! i) \<le> BMS_CELL_UNDERVOLTAGE_MV)) \<and>
   (bit (fst (evaluate_hard_faults r)) 2 \<longleftrightarrow>
      (\<exists>i<BMS_CELL_COUNT. BMS_OVERTEMP_C \<le> sint (cell_temp_c r ! i))) \<and>
   (bit (fst (evaluate_hard_faults r)) 3 \<longleftrightarrow>
      (\<exists>i<BMS_CELL_COUNT. \<exists>j<BMS_CELL_COUNT.
         BMS_CELL_IMBALANCE_MV \<le> uint (cell_mv r ! i) - uint (cell_mv r ! j))) \<and>
   fst (evaluate_hard_faults r) < 16 \<and>
   (snd (evaluate_hard_faults r) \<longleftrightarrow> warning_zone r)"
  using hard_fault_mask_bits [of r] hard_fault_mask_less [of r]
  unfolding evaluate_hard_faults_eq fst_conv snd_conv overvoltage_cell_def undervoltage_cell_def
    cell_at_temp_def cells_apart_def by (intro conjI) (assumption | rule refl)+

text \<open>
  The severity of a fault mask is the worst level among the table entries whose bit is set: no
  set entry exceeds it, and it is either QM or the level of a set entry.
\<close>

lemma severity_worst_of_active:
  "(\<forall>e\<in>set FAULT_SEVERITIES. faults AND sev_bit e \<noteq> 0 \<longrightarrow>
      sev_severity e \<le> fault_manager_get_severity faults) \<and>
   (fault_manager_get_severity faults = BMS_ASIL_QM \<or>
    (\<exists>e\<in>set FAULT_SEVERITIES. faults AND sev_bit e \<noteq> 0 \<and>
      fault_manager_get_severity faults = sev_severity e))"
  by (rule severity_is_worst)

text \<open>
  A single fault of the highest level latches the machine at once: from any well-formed state,
  one evaluation of a reading with a cell at or above 4200 mV or at or above 60 degrees ends in
  SHUTDOWN, without waiting for three entries.
\<close>

lemma asil_d_reading_shuts_down:
  assumes "fm_ok fm"
    and "(\<exists>i<BMS_CELL_COUNT. BMS_CELL_OVERVOLTAGE_MV \<le> uint (cell_mv r ! i)) \<or>
         (\<exists>i<BMS_CELL_COUNT. BMS_OVERTEMP_C \<le> sint (cell_temp_c r ! i))"
  shows "fm_state (fault_manager_evaluate fm r t) = BMS_STATE_SHUTDOWN"
  using assms by (rule evaluate_asil_d)

text \<open>
  Any hard fault takes effect on the evaluation that sees it, with no debounce on the way in:
  the machine is in FAULT or SHUTDOWN afterwards, reports exactly the mask of the reading and its
  severity, and the debounce timer is reset.
\<close>

lemma hard_fault_is_immediate:
  assumes "fm_ok fm" and "fm_state fm \<noteq> BMS_STATE_SHUTDOWN" and "fst (evaluate_hard_faults r) \<noteq> 0"
  shows "fm_state (fault_manager_evaluate fm r t) \<in> {BMS_STATE_FAULT, BMS_STATE_SHUTDOWN} \<and>
    active_faults (fault_manager_evaluate fm r t) = fst (evaluate_hard_faults r) \<and>
    fm_severity (fault_manager_evaluate fm r t) =
      fault_manager_get_severity (fst (evaluate_hard_faults r)) \<and>
    last_ok_tick_ms (fault_manager_evaluate fm r t) = 0"
  using assms by (simp add: evaluate_hard_faults_eq evaluate_faulty Let_def)

text \<open>
  A stale heartbeat report latches SHUTDOWN from every state, and unless the machine had
  latched before, the watchdog bit is set and the severity is the highest one.
\<close>

lemma watchdog_report_shuts_down:
  "fm_state (fault_manager_report_watchdog_fault fm t) = BMS_STATE_SHUTDOWN \<and>
   (if fm_state fm = BMS_STATE_SHUTDOWN then fault_manager_report_watchdog_fault fm t = fm
    else bit (active_faults (fault_manager_report_watchdog_fault fm t)) 4 \<and>
         fm_severity (fault_manager_report_watchdog_fault fm t) = BMS_ASIL_D)"
  by (simp add: report_watchdog_eq bit_or_iff FAULT_BIT_TASK_WATCHDOG_def)
    (simp add: severity_watchdog [unfolded FAULT_BIT_TASK_WATCHDOG_def])

text \<open>
  C20. What one evaluation decides, by the limits on the cells alone: in a machine that is in NORMAL or WARNING
  and has recorded at most one fault entry, a cell at or above the overvoltage limit or the temperature limit
  gives SHUTDOWN with ASIL D; otherwise a cell at or below the undervoltage limit gives FAULT with ASIL C;
  otherwise two cells too far apart give FAULT with ASIL B; otherwise a cell within 50 mV of a voltage limit or
  5 degrees of the temperature limit, or a spread of three quarters of the limit, gives WARNING; and otherwise
  the machine is in NORMAL. A fault records exactly one entry.
\<close>

theorem limits_decide_state:
  fixes r :: cell_reading_t
  defines "mv \<equiv> \<lambda>i. uint (cell_mv r ! i)" and "celsius \<equiv> \<lambda>i. sint (cell_temp_c r ! i)"
  assumes "fm_ok fm" and "fm_state fm = BMS_STATE_NORMAL \<or> fm_state fm = BMS_STATE_WARNING" and "fault_entry_count fm \<le> 1"
  shows "let fm' = fault_manager_evaluate fm r t in
    (fm_state fm', fm_severity fm', fault_entry_count fm') =
      (if \<exists>i<5. 4200 \<le> mv i \<or> 60 \<le> celsius i then (BMS_STATE_SHUTDOWN, BMS_ASIL_D, fault_entry_count fm + 1)
       else if \<exists>i<5. mv i \<le> 3000 then (BMS_STATE_FAULT, BMS_ASIL_C, fault_entry_count fm + 1)
       else if \<exists>i<5. \<exists>j<5. 150 \<le> mv i - mv j then (BMS_STATE_FAULT, BMS_ASIL_B, fault_entry_count fm + 1)
       else if (\<exists>i<5. 4150 \<le> mv i \<or> mv i \<le> 3050 \<or> 55 \<le> celsius i) \<or> (\<exists>i<5. \<exists>j<5. 112 \<le> mv i - mv j)
       then (BMS_STATE_WARNING, BMS_ASIL_QM, fault_entry_count fm)
       else (BMS_STATE_NORMAL, BMS_ASIL_QM, fault_entry_count fm))"
proof -
  have state: "fm_state fm \<noteq> BMS_STATE_SHUTDOWN" "fm_state fm \<noteq> BMS_STATE_FAULT" using assms(4) by auto
  have count: "fault_entry_count (enter_fault fm m t) = fault_entry_count fm + 1" for m
    using assms(5) state(2) by (simp add: enter_fault_def Let_def record_fault_entry_def FAULT_LATCH_COUNT_def)
  then have calm: "\<not> latch_should_trip (enter_fault fm m t) t" for m
    using assms(5) by (simp add: latch_should_trip_def FAULT_LATCH_COUNT_def)
  have limits: "overvoltage_cell r i \<longleftrightarrow> 4200 \<le> mv i" "undervoltage_cell r i \<longleftrightarrow> mv i \<le> 3000"
    "cell_at_temp r c \<longleftrightarrow> (\<exists>i<5. c \<le> celsius i)" "cells_apart r d \<longleftrightarrow> (\<exists>i<5. \<exists>j<5. d \<le> mv i - mv j)" for i c d
    by (simp_all add: overvoltage_cell_def undervoltage_cell_def cell_at_temp_def cells_apart_def config_defs mv_def celsius_def)
  have sev: "fault_manager_get_severity (hard_fault_mask r) =
      (if \<exists>i<5. 4200 \<le> mv i \<or> 60 \<le> celsius i then BMS_ASIL_D else if \<exists>i<5. mv i \<le> 3000 then BMS_ASIL_C
       else if \<exists>i<5. \<exists>j<5. 150 \<le> mv i - mv j then BMS_ASIL_B else BMS_ASIL_QM)"
    unfolding severity_hard_faults by (auto simp: limits BMS_CELL_COUNT_def BMS_OVERTEMP_C_def BMS_CELL_IMBALANCE_MV_def)
  show ?thesis
  proof (cases "hard_fault_mask r = 0")
    case True
    then have safe: "\<not> (\<exists>i<5. 4200 \<le> mv i \<or> 60 \<le> celsius i)" "\<not> (\<exists>i<5. mv i \<le> 3000)"
        "\<not> (\<exists>i<5. \<exists>j<5. 150 \<le> mv i - mv j)"
      using sev severity_hard_faults_QM [of r] by (auto split: if_splits)
    then have "warning_zone r \<longleftrightarrow>
        (\<exists>i<5. 4150 \<le> mv i \<or> mv i \<le> 3050 \<or> 55 \<le> celsius i) \<or> (\<exists>i<5. \<exists>j<5. 112 \<le> mv i - mv j)"
      by (auto simp: warning_zone_def near_limit_cell_def limits config_defs mv_def)
    then show ?thesis using True safe state by (simp add: evaluate_clear [OF assms(3)] Let_def)
  next
    case False
    then have QM: "fault_manager_get_severity (hard_fault_mask r) \<noteq> BMS_ASIL_QM" by (simp add: severity_hard_faults_QM)
    have out: "let fm' = fault_manager_evaluate fm r t in (fm_state fm', fm_severity fm', fault_entry_count fm') =
        (if fault_manager_get_severity (hard_fault_mask r) = BMS_ASIL_D then BMS_STATE_SHUTDOWN else BMS_STATE_FAULT,
         fault_manager_get_severity (hard_fault_mask r), fault_entry_count fm + 1)"
      using False state calm count by (simp add: evaluate_faulty [OF assms(3)] Let_def)
    consider (d) "\<exists>i<5. 4200 \<le> mv i \<or> 60 \<le> celsius i"
      | (c) "\<not> (\<exists>i<5. 4200 \<le> mv i \<or> 60 \<le> celsius i)" "\<exists>i<5. mv i \<le> 3000"
      | (b) "\<not> (\<exists>i<5. 4200 \<le> mv i \<or> 60 \<le> celsius i)" "\<not> (\<exists>i<5. mv i \<le> 3000)" "\<exists>i<5. \<exists>j<5. 150 \<le> mv i - mv j"
      using QM sev by metis
    then show ?thesis
    proof cases
      case d
      with out sev show ?thesis by (simp only: if_P if_True if_False refl)
    next
      case c
      with out sev show ?thesis by (simp only: if_P if_not_P if_True if_False bms_asil_t.simps)
    next
      case b
      with out sev show ?thesis by (simp only: if_P if_not_P if_True if_False bms_asil_t.simps)
    qed
  qed
qed

theorem limits_decide_state_witness:
  "fm_state (fault_manager_evaluate fault_manager_init (reading_with_cell 2950) 10) = BMS_STATE_FAULT \<and>
   fm_severity (fault_manager_evaluate fault_manager_init (reading_with_cell 2950) 10) = BMS_ASIL_C"
proof -
  have init: "fm_state fault_manager_init = BMS_STATE_NORMAL \<or> fm_state fault_manager_init = BMS_STATE_WARNING"
    "fault_entry_count fault_manager_init \<le> 1" by (simp_all add: fault_manager_init_def)
  have cells: "\<not> (\<exists>i<5. 4200 \<le> uint (cell_mv (reading_with_cell 2950) ! i) \<or> 60 \<le> sint (cell_temp_c (reading_with_cell 2950) ! i))"
    "\<exists>i<5. uint (cell_mv (reading_with_cell 2950) ! i) \<le> 3000"
    by code_simp+
  from limits_decide_state [OF fm_init_ok init, of "reading_with_cell 2950" 10]
  show ?thesis unfolding if_not_P [OF cells(1)] if_P [OF cells(2)] by (simp add: Let_def)
qed

end
