(* ===== verification/Fault_History.thy ===== *)
theory Fault_History
  imports Fault_Manager
begin

text \<open>
  Runs of the fault manager. An event is one call of \<open>fault_manager_evaluate\<close> or
  \<open>fault_manager_report_watchdog_fault\<close>. The abstract specification keeps the whole list of
  fault entries and an optional start of the fault-free period; the C state, with its three-slot
  buffer and its zero sentinel, refines it for every run whose
  fault-free evaluations avoid tick 0.
\<close>

section \<open>Events and runs\<close>

datatype fm_event = Evaluate cell_reading_t u32 | Report_Watchdog u32

fun fm_step :: "fault_manager_t \<Rightarrow> fm_event \<Rightarrow> fault_manager_t" where
  "fm_step fm (Evaluate r t) = fault_manager_evaluate fm r t"
| "fm_step fm (Report_Watchdog t) = fault_manager_report_watchdog_fault fm t"

definition fm_run :: "fault_manager_t \<Rightarrow> fm_event list \<Rightarrow> fault_manager_t" where
  "fm_run = foldl fm_step"

lemma fm_run_simps [simp]:
  "fm_run fm [] = fm"
  "fm_run fm (e # es) = fm_run (fm_step fm e) es"
  "fm_run fm (es @ es') = fm_run (fm_run fm es) es'"
  by (simp_all add: fm_run_def)

interpretation fm_machine: step_machine fm_step fm_ok
proof
  fix fm e assume "fm_ok fm"
  then show "fm_ok (fm_step fm e)" by (cases e) simp_all
qed

lemma fm_run_ok [simp]: "fm_ok fm \<Longrightarrow> fm_ok (fm_run fm es)"
  unfolding fm_run_def by (rule fm_machine.run_inv)

lemma fm_step_shutdown [simp]: "fm_state fm = BMS_STATE_SHUTDOWN \<Longrightarrow> fm_step fm e = fm"
  by (cases e) simp_all

lemma fm_run_shutdown: "fm_state fm = BMS_STATE_SHUTDOWN \<Longrightarrow> fm_run fm es = fm"
  unfolding fm_run_def
  by (rule fm_machine.run_absorbing [where absorbed = "\<lambda>fm. fm_state fm = BMS_STATE_SHUTDOWN"])
    simp_all

section \<open>Abstract specification\<close>

record fault_spec_t =
  a_state :: bms_state_t
  a_faults :: u16
  a_ok_since :: "u32 option"
  a_entries :: "u32 list"

definition spec_init :: fault_spec_t where
  "spec_init = \<lparr>a_state = BMS_STATE_NORMAL, a_faults = 0, a_ok_since = None, a_entries = []\<rparr>"

definition spec_entries :: "fault_spec_t \<Rightarrow> u32 \<Rightarrow> u32 list" where
  "spec_entries a t = (if a_state a = BMS_STATE_FAULT then a_entries a else a_entries a @ [t])"

text \<open>The latch: the third most recent entry lies within the window that ends now.\<close>

definition spec_trips :: "u32 list \<Rightarrow> u32 \<Rightarrow> bool" where
  "spec_trips entries t \<longleftrightarrow>
     FAULT_LATCH_COUNT \<le> length entries \<and>
     t - entries ! (length entries - FAULT_LATCH_COUNT) \<le> FAULT_LATCH_WINDOW_MS"

definition calm_state :: "cell_reading_t \<Rightarrow> bms_state_t" where
  "calm_state r = (if warning_zone r then BMS_STATE_WARNING else BMS_STATE_NORMAL)"

fun spec_step :: "fault_spec_t \<Rightarrow> fm_event \<Rightarrow> fault_spec_t" where
  "spec_step a (Evaluate r t) =
     (if a_state a = BMS_STATE_SHUTDOWN then a
      else if hard_fault_mask r \<noteq> 0 then
        a\<lparr>a_state := (if fault_manager_get_severity (hard_fault_mask r) = BMS_ASIL_D \<or>
                        spec_trips (spec_entries a t) t
                     then BMS_STATE_SHUTDOWN else BMS_STATE_FAULT),
          a_faults := hard_fault_mask r, a_ok_since := None, a_entries := spec_entries a t\<rparr>
      else if a_state a = BMS_STATE_FAULT then
        (case a_ok_since a of
           None \<Rightarrow> a\<lparr>a_faults := 0, a_ok_since := Some t\<rparr>
         | Some t0 \<Rightarrow>
             if t - t0 \<ge> FAULT_DEBOUNCE_MS
             then a\<lparr>a_state := calm_state r, a_faults := 0, a_ok_since := None\<rparr>
             else a\<lparr>a_faults := 0\<rparr>)
      else a\<lparr>a_state := calm_state r, a_faults := 0\<rparr>)"
| "spec_step a (Report_Watchdog t) =
     (if a_state a = BMS_STATE_SHUTDOWN then a
      else a\<lparr>a_state := BMS_STATE_SHUTDOWN, a_faults := a_faults a OR FAULT_BIT_TASK_WATCHDOG,
             a_entries := spec_entries a t\<rparr>)"

definition entry_window :: "u32 list \<Rightarrow> u32 list" where
  "entry_window entries = drop (length entries - FAULT_LATCH_COUNT) entries"

definition fm_refines :: "fault_manager_t \<Rightarrow> fault_spec_t \<Rightarrow> bool" where
  "fm_refines fm a \<longleftrightarrow>
     fm_ok fm \<and> fm_state fm = a_state a \<and> active_faults fm = a_faults a \<and>
     last_ok_tick_ms fm = (case a_ok_since a of None \<Rightarrow> 0 | Some t \<Rightarrow> t) \<and> a_ok_since a \<noteq> Some 0 \<and>
     fault_entry_count fm = min FAULT_LATCH_COUNT (length (a_entries a)) \<and>
     take (fault_entry_count fm) (fault_entry_ticks_ms fm) = entry_window (a_entries a)"

text \<open>The C code cannot tell a fault-free period that starts at tick 0 from none at all.\<close>

fun nonzero_tick :: "fm_event \<Rightarrow> bool" where
  "nonzero_tick (Evaluate r t) \<longleftrightarrow> t \<noteq> 0 \<or> hard_fault_mask r \<noteq> 0"
| "nonzero_tick (Report_Watchdog t) \<longleftrightarrow> True"

section \<open>The buffer is the window of the history\<close>

lemma record_fault_entry_window:
  fixes fm :: fault_manager_t and es :: "u32 list" and t :: u32
  assumes len: "length (fault_entry_ticks_ms fm) = FAULT_LATCH_COUNT"
    and cnt: "fault_entry_count fm = min FAULT_LATCH_COUNT (length es)"
    and win: "take (fault_entry_count fm) (fault_entry_ticks_ms fm) = entry_window es"
  defines "fm' \<equiv> record_fault_entry fm t"
  shows "fault_entry_count fm' = min FAULT_LATCH_COUNT (length (es @ [t]))"
    and "take (fault_entry_count fm') (fault_entry_ticks_ms fm') = entry_window (es @ [t])"
proof -
  show "fault_entry_count fm' = min FAULT_LATCH_COUNT (length (es @ [t]))"
    using cnt by (auto simp: fm'_def record_fault_entry_def)
  show "take (fault_entry_count fm') (fault_entry_ticks_ms fm') = entry_window (es @ [t])"
  proof (cases "length es < FAULT_LATCH_COUNT")
    case True
    then have "take (length es) (fault_entry_ticks_ms fm) = es"
      using cnt win by (simp add: entry_window_def)
    with True cnt len show ?thesis
      by (simp add: fm'_def record_fault_entry_def entry_window_def take_Suc_conv_app_nth)
  next
    case False
    then have full: "fault_entry_ticks_ms fm = entry_window es" using cnt win len by simp
    define xs where "xs = take (length es - 3) es"
    have "length (drop (length es - 3) es) = 3" using False by (simp add: config_defs)
    then obtain x y z where "drop (length es - 3) es = [x, y, z]"
      by (simp only: length_3_conv) blast
    then have "es = xs @ [x, y, z]" unfolding xs_def by (metis append_take_drop_id)
    with full cnt show ?thesis
      by (simp add: fm'_def record_fault_entry_def entry_window_def memmove_down_def config_defs)
  qed
qed

lemma latch_is_spec_trips:
  assumes "fault_entry_count fm = min FAULT_LATCH_COUNT (length es)"
    and "take (fault_entry_count fm) (fault_entry_ticks_ms fm) = entry_window es"
  shows "latch_should_trip fm t \<longleftrightarrow> spec_trips es t"
proof (cases "length es < FAULT_LATCH_COUNT")
  case True
  with assms(1) show ?thesis by (simp add: latch_should_trip_def spec_trips_def)
next
  case False
  have pos: "0 < FAULT_LATCH_COUNT" by (simp add: config_defs)
  have "fault_entry_ticks_ms fm ! 0 = take (fault_entry_count fm) (fault_entry_ticks_ms fm) ! 0"
    using False assms(1) pos by simp
  also have "\<dots> = es ! (length es - FAULT_LATCH_COUNT)"
    using False pos unfolding assms(2) entry_window_def by simp
  finally show ?thesis using False assms(1) by (simp add: latch_should_trip_def spec_trips_def)
qed

lemma enter_fault_window:
  assumes "fm_refines fm a" and "fm_state fm \<noteq> BMS_STATE_SHUTDOWN"
  shows "fault_entry_count (enter_fault fm m t) = min FAULT_LATCH_COUNT (length (spec_entries a t))"
    and "take (fault_entry_count (enter_fault fm m t)) (fault_entry_ticks_ms (enter_fault fm m t))
      = entry_window (spec_entries a t)"
  using assms record_fault_entry_window
    [of "fm\<lparr>active_faults := m, fm_severity := fault_manager_get_severity m\<rparr>" "a_entries a" t]
  by (auto simp: fm_refines_def fm_ok_def enter_fault_def spec_entries_def Let_def)

section \<open>Refinement\<close>

lemma fm_init_refines: "fm_refines fault_manager_init spec_init"
  by (simp add: fm_refines_def spec_init_def entry_window_def)
    (simp add: fault_manager_init_def config_defs)

lemma evaluate_refines:
  assumes rel: "fm_refines fm a" and t: "t \<noteq> 0 \<or> hard_fault_mask r \<noteq> 0"
  shows "fm_refines (fault_manager_evaluate fm r t) (spec_step a (Evaluate r t))"
proof (cases "fm_state fm = BMS_STATE_SHUTDOWN")
  case True
  with rel show ?thesis by (auto simp: fm_refines_def)
next
  case live: False
  from rel have ok: "fm_ok fm" and st: "a_state a = fm_state fm" by (simp_all add: fm_refines_def)
  have ok': "fm_ok (fault_manager_evaluate fm r t)" using ok by simp
  show ?thesis
  proof (cases "hard_fault_mask r = 0")
    case True
    show ?thesis
      using rel t ok' live unfolding evaluate_clear [OF ok live True]
      by (auto simp: fm_refines_def Let_def True st calm_state_def split: option.splits)
  next
    case False
    note win = enter_fault_window [OF rel live, of "hard_fault_mask r" t]
    show ?thesis
      using ok' live False win latch_is_spec_trips [OF win, of t]
      unfolding evaluate_faulty [OF ok live False]
      by (auto simp: fm_refines_def Let_def st)
  qed
qed

lemma report_watchdog_refines:
  assumes rel: "fm_refines fm a"
  shows "fm_refines (fault_manager_report_watchdog_fault fm t) (spec_step a (Report_Watchdog t))"
proof (cases "fm_state fm = BMS_STATE_SHUTDOWN")
  case True
  with rel show ?thesis by (auto simp: fm_refines_def)
next
  case live: False
  have "fm_ok (fault_manager_report_watchdog_fault fm t)" using rel by (simp add: fm_refines_def)
  moreover have "last_ok_tick_ms (enter_fault fm m t) = last_ok_tick_ms fm" for m
    by (simp add: enter_fault_def Let_def)
  ultimately show ?thesis
    using rel live enter_fault_window [OF rel live]
    unfolding report_watchdog_eq [OF live] by (simp add: fm_refines_def)
qed

interpretation fm_refinement: simulation fm_step spec_step fm_refines nonzero_tick
proof
  fix fm a e assume "fm_refines fm a" "nonzero_tick e"
  then show "fm_refines (fm_step fm e) (spec_step a e)"
    by (cases e) (simp_all add: evaluate_refines report_watchdog_refines del: spec_step.simps)
qed

lemma fm_run_refines:
  "list_all nonzero_tick es \<Longrightarrow>
    fm_refines (fm_run fault_manager_init es) (foldl spec_step spec_init es)"
  unfolding fm_run_def by (rule fm_refinement.sim_run [OF fm_init_refines])

section \<open>Recovery takes a fault-free debounce period\<close>

fun clear_event :: "fm_event \<Rightarrow> bool" where
  "clear_event (Evaluate r t) \<longleftrightarrow> hard_fault_mask r = 0"
| "clear_event (Report_Watchdog t) \<longleftrightarrow> False"

text \<open>
  While the machine is in FAULT with a running debounce timer, the events since the timer was
  started are all fault-free evaluations, and the first of them carries the timer's tick.
\<close>

lemma debounce_history:
  assumes "fm_state (fm_run fault_manager_init es) = BMS_STATE_FAULT"
    and "last_ok_tick_ms (fm_run fault_manager_init es) \<noteq> 0"
  shows "\<exists>pre r0 mid. es = pre @ Evaluate r0 (last_ok_tick_ms (fm_run fault_manager_init es)) # mid \<and>
    hard_fault_mask r0 = 0 \<and> list_all clear_event mid"
  using assms
proof (induction es rule: rev_induct)
  case Nil
  then show ?case by (simp add: fault_manager_init_def)
next
  case (snoc e es)
  let ?fm = "fm_run fault_manager_init es"
  have ok: "fm_ok ?fm" by simp
  have live: "fm_state ?fm \<noteq> BMS_STATE_SHUTDOWN" using snoc.prems by auto
  obtain r t where e: "e = Evaluate r t" using snoc.prems by (cases e) simp_all
  have clear: "hard_fault_mask r = 0"
    using snoc.prems(2) e evaluate_faulty_state(2) [OF ok live] by auto
  note ev = evaluate_clear [OF ok live clear, of t]
  have st: "fm_state ?fm = BMS_STATE_FAULT"
    using snoc.prems(1) e by (auto simp: ev Let_def split: if_splits)
  show ?case
  proof (cases "last_ok_tick_ms ?fm = 0")
    case True
    then have "es @ [e] = es @ Evaluate r (last_ok_tick_ms (fm_run fault_manager_init (es @ [e]))) # []"
      using e st by (simp add: ev Let_def)
    with clear show ?thesis by (metis list.pred_inject(1))
  next
    case False
    then have same: "last_ok_tick_ms (fm_run fault_manager_init (es @ [e])) = last_ok_tick_ms ?fm"
      using snoc.prems e st by (auto simp: ev Let_def split: if_splits)
    from snoc.IH [OF st False] obtain pre r0 mid where
      "es = pre @ Evaluate r0 (last_ok_tick_ms ?fm) # mid" "hard_fault_mask r0 = 0"
      "list_all clear_event mid" by blast
    with e clear same show ?thesis
      by (intro exI [of _ pre] exI [of _ r0] exI [of _ "mid @ [e]"]) simp
  qed
qed

section \<open>Properties\<close>

text \<open>
  Every sequence of evaluations and watchdog reports from the initial state ends in a
  well-formed state: a three-slot entry buffer used within bounds, a mask of known fault bits, a
  severity that agrees with the mask, and a state that agrees with both.
\<close>

lemma fault_manager_invariant: "fm_ok (fm_run fault_manager_init es)"
  by simp

text \<open>
  SHUTDOWN is latched: once there, no sequence of evaluations and watchdog reports changes any
  field of the fault manager.
\<close>

lemma shutdown_is_latched:
  assumes "fm_state fm = BMS_STATE_SHUTDOWN"
  shows "fm_run fm es = fm"
  using assms by (rule fm_run_shutdown)

text \<open>
  C2. The fault manager refines the specification with an unbounded history: after any run whose
  fault-free evaluations avoid tick 0, its state, mask and timer are those of the specification, and its
  three-slot buffer holds the last three entries of the full history.
\<close>

theorem fault_manager_refines_history:
  assumes "list_all nonzero_tick es"
  shows "fm_refines (fm_run fault_manager_init es) (foldl spec_step spec_init es)"
  using assms by (rule fm_run_refines)

theorem fault_manager_refines_history_witness:
  "fm_refines
     (fm_run fault_manager_init [Evaluate (reading_with_cell 2950) 10, Evaluate nominal_reading 310])
     (foldl spec_step spec_init [Evaluate (reading_with_cell 2950) 10, Evaluate nominal_reading 310])"
  by (rule fault_manager_refines_history) simp

text \<open>
  C17. Recovery is debounced: when an event takes the machine from FAULT to NORMAL or WARNING, the
  run ends with a stretch of fault-free evaluations only, the first and the last of which are at
  least 300 ms apart on the tick counter.
\<close>

theorem recovery_needs_debounce:
  assumes "fm_state (fm_run fault_manager_init es) = BMS_STATE_FAULT"
    and "fm_state (fm_run fault_manager_init (es @ [e])) \<in> {BMS_STATE_NORMAL, BMS_STATE_WARNING}"
  shows "\<exists>pre r0 t0 mid r t. es = pre @ Evaluate r0 t0 # mid \<and> e = Evaluate r t \<and>
    hard_fault_mask r0 = 0 \<and> list_all clear_event mid \<and> hard_fault_mask r = 0 \<and>
    FAULT_DEBOUNCE_MS \<le> t - t0"
proof -
  let ?fm = "fm_run fault_manager_init es"
  have ok: "fm_ok ?fm" by simp
  have live: "fm_state ?fm \<noteq> BMS_STATE_SHUTDOWN" using assms(1) by simp
  obtain r t where e: "e = Evaluate r t" using assms(2) by (cases e) simp_all
  have clear: "hard_fault_mask r = 0"
  proof (rule ccontr)
    assume "hard_fault_mask r \<noteq> 0"
    with assms(2) e evaluate_faulty_state(1) [OF ok live, of r t] show False by auto
  qed
  then have "last_ok_tick_ms ?fm \<noteq> 0" and "FAULT_DEBOUNCE_MS \<le> t - last_ok_tick_ms ?fm"
    using assms e by (auto simp: evaluate_clear [OF ok live] Let_def split: if_splits)
  with debounce_history [OF assms(1)] e clear show ?thesis by blast
qed

theorem recovery_needs_debounce_witness:
  "\<exists>pre r0 t0 mid r t.
     [Evaluate (reading_with_cell 2950) 10, Evaluate nominal_reading 310] = pre @ Evaluate r0 t0 # mid \<and>
     Evaluate nominal_reading 620 = Evaluate r t \<and> hard_fault_mask r0 = 0 \<and>
     list_all clear_event mid \<and> hard_fault_mask r = 0 \<and> FAULT_DEBOUNCE_MS \<le> t - t0"
proof (rule recovery_needs_debounce)
  show "fm_state (fm_run fault_manager_init [Evaluate (reading_with_cell 2950) 10,
      Evaluate nominal_reading 310]) = BMS_STATE_FAULT" by code_simp
  have "fm_state (fm_run fault_manager_init ([Evaluate (reading_with_cell 2950) 10,
      Evaluate nominal_reading 310] @ [Evaluate nominal_reading 620])) = BMS_STATE_NORMAL" by code_simp
  then show "fm_state (fm_run fault_manager_init ([Evaluate (reading_with_cell 2950) 10,
      Evaluate nominal_reading 310] @ [Evaluate nominal_reading 620]))
      \<in> {BMS_STATE_NORMAL, BMS_STATE_WARNING}" by simp
qed

text \<open>
  C9. Three strikes: three fault episodes below the highest level, each followed by a full recovery,
  end in SHUTDOWN exactly when the third entry comes within the 5000 ms window of the first, and in
  FAULT otherwise. The ticks are arbitrary 32-bit values, so the counter may wrap in between, except that the
  fault-free evaluations are not at tick 0, which the code takes for no debounce in progress.
\<close>

theorem three_strikes:
  assumes bad: "hard_fault_mask b \<noteq> 0" "fault_manager_get_severity (hard_fault_mask b) \<noteq> BMS_ASIL_D"
    and clear: "hard_fault_mask c = 0"
    and times: "s1 \<noteq> 0" "u1 \<noteq> 0" "s2 \<noteq> 0" "u2 \<noteq> 0"
      "FAULT_DEBOUNCE_MS \<le> u1 - s1" "FAULT_DEBOUNCE_MS \<le> u2 - s2"
  shows "fm_state (fm_run fault_manager_init
      [Evaluate b t1, Evaluate c s1, Evaluate c u1, Evaluate b t2, Evaluate c s2, Evaluate c u2,
       Evaluate b t3]) =
    (if t3 - t1 \<le> FAULT_LATCH_WINDOW_MS then BMS_STATE_SHUTDOWN else BMS_STATE_FAULT)"
    (is "fm_state (fm_run _ ?es) = _")
proof -
  have "list_all nonzero_tick ?es" using bad times by simp
  then have "fm_state (fm_run fault_manager_init ?es) = a_state (foldl spec_step spec_init ?es)"
    using fm_run_refines unfolding fm_refines_def by blast
  also have "\<dots> = (if t3 - t1 \<le> FAULT_LATCH_WINDOW_MS then BMS_STATE_SHUTDOWN else BMS_STATE_FAULT)"
    using bad clear times
    by (simp add: spec_init_def spec_entries_def spec_trips_def calm_state_def FAULT_LATCH_COUNT_def)
  finally show ?thesis .
qed

theorem three_strikes_witness:
  "fm_state (fm_run fault_manager_init
     [Evaluate (reading_with_cell 2950) 10, Evaluate nominal_reading 310, Evaluate nominal_reading 620,
      Evaluate (reading_with_cell 2950) 650, Evaluate nominal_reading 660,
      Evaluate nominal_reading 970, Evaluate (reading_with_cell 2950) 1000]) = BMS_STATE_SHUTDOWN"
  using three_strikes [of "reading_with_cell 2950" nominal_reading 310 620 660 970 10 650 1000]
  by (simp add: severity_cases config_defs)

text \<open>
  C18. Recovery happens: from FAULT, a fault-free evaluation at a non-zero tick starts the debounce
  period, and a fault-free evaluation at least 300 ms later leaves FAULT for WARNING or NORMAL, as
  the reading calls for.
\<close>

theorem fault_clears_after_debounce:
  assumes "fm_ok fm" and "fm_state fm = BMS_STATE_FAULT" and "last_ok_tick_ms fm = 0"
    and "hard_fault_mask r0 = 0" and "hard_fault_mask r = 0" and "t0 \<noteq> 0"
    and "FAULT_DEBOUNCE_MS \<le> t - t0"
  shows "fm_state (fm_run fm [Evaluate r0 t0, Evaluate r t]) = calm_state r"
proof -
  let ?fm = "fault_manager_evaluate fm r0 t0"
  have fm: "?fm = fm\<lparr>active_faults := 0, fm_severity := BMS_ASIL_QM, last_ok_tick_ms := t0\<rparr>"
    using assms by (simp add: evaluate_clear Let_def)
  have "fm_ok ?fm" using assms(1) by simp
  moreover have "fm_state ?fm = BMS_STATE_FAULT" "last_ok_tick_ms ?fm = t0"
    using assms(2) by (simp_all add: fm)
  ultimately show ?thesis
    using assms(5-7) by (simp add: evaluate_clear Let_def calm_state_def)
qed

theorem fault_clears_after_debounce_witness:
  "fm_state (fm_run (fm_run fault_manager_init [Evaluate (reading_with_cell 2950) 10])
     [Evaluate nominal_reading 310, Evaluate nominal_reading 610]) = calm_state nominal_reading"
proof (rule fault_clears_after_debounce)
  show "fm_state (fm_run fault_manager_init [Evaluate (reading_with_cell 2950) 10]) = BMS_STATE_FAULT"
    by code_simp
  show "last_ok_tick_ms (fm_run fault_manager_init [Evaluate (reading_with_cell 2950) 10]) = 0"
    by code_simp
qed (simp_all add: config_defs)

text \<open>
  The zero tick is a blind spot of the debounce timer: a fault-free evaluation at tick 0 leaves
  the timer unset, so a second one 300 ms later does not end FAULT although all readings of that
  period were fault-free.
\<close>

lemma tick_zero_does_not_start_debounce:
  assumes "fm_ok fm" and "fm_state fm = BMS_STATE_FAULT" and "last_ok_tick_ms fm = 0"
    and "hard_fault_mask r0 = 0" and "hard_fault_mask r = 0"
  shows "fm_state (fm_run fm [Evaluate r0 0, Evaluate r t]) = BMS_STATE_FAULT"
proof -
  let ?fm = "fault_manager_evaluate fm r0 0"
  have "?fm = fm\<lparr>active_faults := 0, fm_severity := BMS_ASIL_QM, last_ok_tick_ms := 0\<rparr>"
    using assms by (simp add: evaluate_clear Let_def)
  then have "fm_state ?fm = BMS_STATE_FAULT" "last_ok_tick_ms ?fm = 0"
    using assms(2) by simp_all
  moreover have "fm_ok ?fm" using assms(1) by simp
  ultimately show ?thesis
    using assms(5) by (simp add: evaluate_clear Let_def)
qed

end
