(* ===== verification/Scenario_Faults.thy ===== *)
theory Scenario_Faults
  imports Fault_Manager
begin

text \<open>
  The simulated cells against the fault thresholds: which fault bits each scenario of
  \<open>cell_model.c\<close> raises in the fault manager's scan, and how the simulated discharge behaves
  over time, up to the wrap of its 16-bit drift counter.
\<close>

section \<open>Voltages of a step\<close>

definition step_reading :: "u32 \<Rightarrow> cell_model_t \<Rightarrow> cell_reading_t" where
  "step_reading dt m = snd (cell_model_step dt m)"

definition scenario_mask :: "cell_scenario_t \<Rightarrow> u16" where
  "scenario_mask sc = (case sc of
     SCENARIO_NOMINAL \<Rightarrow> 0
   | SCENARIO_OVERVOLTAGE \<Rightarrow> FAULT_BIT_OVERVOLTAGE OR FAULT_BIT_CELL_IMBALANCE
   | SCENARIO_UNDERVOLTAGE \<Rightarrow> FAULT_BIT_UNDERVOLTAGE OR FAULT_BIT_CELL_IMBALANCE
   | SCENARIO_OVERTEMP \<Rightarrow> FAULT_BIT_OVERTEMP
   | SCENARIO_CELL_IMBALANCE \<Rightarrow> FAULT_BIT_CELL_IMBALANCE)"

lemma all_less_5: "(\<forall>i<5. P i) \<longleftrightarrow> P 0 \<and> P 1 \<and> P 2 \<and> P 3 \<and> P (4 :: nat)"
  by (auto simp: less_Suc_eq numeral_eq_Suc)

lemma ex_less_5: "(\<exists>i<5. P i) \<longleftrightarrow> P 0 \<or> P 1 \<or> P 2 \<or> P 3 \<or> P (4 :: nat)"
  using all_less_5 [of "\<lambda>i. \<not> P i"] by blast

lemma step_cells:
  assumes "cell_model_ok m" and "drift_of (g_elapsed_ms m + dt) = d" and "d \<le> 600"
  shows "i < 5 \<Longrightarrow> uint (cell_mv (step_reading dt m) ! i) = scenario_mv (g_scenario m) i (3700 - d)"
    and "i < 5 \<Longrightarrow> cell_temp_c (step_reading dt m) ! i = scenario_temp (g_scenario m) i"
proof -
  have d: "0 \<le> d" using assms(2) drift_of_nonneg by blast
  show "uint (cell_mv (step_reading dt m) ! i) = scenario_mv (g_scenario m) i (3700 - d)" if "i < 5"
    using cell_mv_step [OF assms(1), of i dt] that assms(2,3) d
    by (auto simp: step_reading_def config_defs clamp_mv_def scenario_mv_def split: cell_scenario_t.splits)
  show "cell_temp_c (step_reading dt m) ! i = scenario_temp (g_scenario m) i" if "i < 5"
    using cell_temp_step [of i dt m] that by (simp add: step_reading_def config_defs)
qed

lemmas scenario_preds = overvoltage_cell_def undervoltage_cell_def near_limit_cell_def cell_at_temp_def
  cells_apart_def ex_less_5 scenario_mv_def scenario_temp_def config_defs

lemma scenario_hard_faults:
  assumes "cell_model_ok m" and "drift_of (g_elapsed_ms m + dt) \<le> 600"
  shows "hard_fault_mask (step_reading dt m) = scenario_mask (g_scenario m)"
proof -
  obtain d where d: "drift_of (g_elapsed_ms m + dt) = d" "0 \<le> d" "d \<le> 600"
    using assms(2) drift_of_nonneg by blast
  note cells = step_cells [OF assms(1) d(1,3)]
  show ?thesis
    using d(2,3)
    by (cases "g_scenario m")
      (simp_all add: hard_fault_mask_def cells scenario_preds scenario_mask_def)
qed

lemma drift_of_mono:
  "e \<le> e' \<Longrightarrow> uint e' < 65536000 \<Longrightarrow> drift_of e \<le> drift_of e'"
proof -
  assume e: "e \<le> e'" "uint e' < 65536000"
  then have "0 \<le> uint e" "uint e \<le> uint e'" by (simp_all add: word_le_def)
  then have "uint e div 1000 \<le> uint e' div 1000" "uint e' div 1000 < 65536" "0 \<le> uint e div 1000"
    using e(2) by (simp_all add: zdiv_mono1 pos_imp_zdiv_nonneg_iff)
  then show ?thesis by (simp add: drift_of_def)
qed

lemma clamp_mv_mono: "a \<le> b \<Longrightarrow> clamp_mv a \<le> clamp_mv b"
  by (simp add: clamp_mv_def Let_def)

lemma scenario_mv_mono: "a \<le> b \<Longrightarrow> scenario_mv sc i a \<le> scenario_mv sc i b"
  by (simp add: scenario_mv_def split: cell_scenario_t.splits)

section \<open>Properties\<close>

text \<open>
  During the first ten minutes of simulated time each scenario raises exactly its own faults in
  the fault manager's scan: none for the nominal one, overvoltage or undervoltage together with the
  imbalance they cause, overtemperature alone, imbalance alone.
\<close>

lemma scenario_injects_its_faults:
  assumes "cell_model_ok m" and "uint (g_elapsed_ms m + dt) < 600000"
  shows "fst (evaluate_hard_faults (snd (cell_model_step dt m))) = scenario_mask (g_scenario m)"
proof -
  define e where "e = uint (g_elapsed_ms m + dt)"
  have "0 \<le> e" "e < 600000" using assms(2) by (simp_all add: e_def)
  then have "0 \<le> e div 1000" "e div 1000 < 600" by (simp_all add: pos_imp_zdiv_nonneg_iff)
  then have "e div 1000 mod 65536 \<le> 600" by simp
  then have "drift_of (g_elapsed_ms m + dt) \<le> 600" by (simp add: drift_of_def e_def)
  from scenario_hard_faults [OF assms(1) this] show ?thesis
    by (simp add: evaluate_hard_faults_eq step_reading_def)
qed

text \<open>
  The simulated pack discharges: as long as less than 65536 seconds have passed, a later reading
  of the same scenario shows no cell with a higher voltage than an earlier one.
\<close>

lemma simulated_cells_discharge:
  assumes "cell_model_ok m" and "i < BMS_CELL_COUNT"
    and "g_elapsed_ms m + dt \<le> g_elapsed_ms m + dt'" and "uint (g_elapsed_ms m + dt') < 65536000"
  shows "uint (cell_mv (snd (cell_model_step dt' m)) ! i) \<le> uint (cell_mv (snd (cell_model_step dt m)) ! i)"
  using drift_of_mono [OF assms(3,4)]
  by (simp add: cell_mv_step [OF assms(1,2)] clamp_mv_mono scenario_mv_mono)

text \<open>
  The drift counter wraps: after 65536 seconds the narrowing to 16 bits turns an empty pack, all
  cells at 0 mV, into a fully nominal one within one sampling period.
\<close>

lemma drift_wraps_after_65536_seconds:
  "(let m = cell_model_init\<lparr>g_elapsed_ms := 65535800\<rparr>;
        (m1, r1) = cell_model_step TASK_PERIOD_SENSOR_MS m;
        (m2, r2) = cell_model_step TASK_PERIOD_SENSOR_MS m1
    in cell_mv r1 = [0, 0, 0, 0, 0] \<and> cell_mv r2 = [3700, 3700, 3700, 3700, 3700])"
  by code_simp

end
