(* ===== verification/Float64.thy ===== *)
theory Float64
  imports Complex_Main "HOL-Library.Log_Nat"
begin

text \<open>
  The \<open>double\<close> arithmetic of the C code. A finite double is a real number; each arithmetic
  operation of the source is the exact operation followed by a rounding function, which the model
  takes as an argument. The locale \<open>fp_rounding\<close> states what the proofs use of the rounding.
  It is interpreted here on \<open>round_53\<close>, rounding to 53 significant bits with ties to even and
  exponents without bounds, and on the identity, which gives the same algorithm in exact arithmetic;
  \<open>Binary64\<close> adds the exponent range of IEEE 754 binary64.
\<close>

section \<open>What rounding promises\<close>

locale fp_rounding =
  fixes rnd :: "real \<Rightarrow> real"
  assumes rnd_mono: "x \<le> y \<Longrightarrow> rnd x \<le> rnd y"
    and rnd_idem: "rnd (rnd x) = rnd x"
    and rnd_dyadic: "\<bar>m\<bar> \<le> 2 ^ 53 \<Longrightarrow> - 1074 \<le> k \<Longrightarrow> rnd (of_int m * 2 powi k) = of_int m * 2 powi k"
    and rnd_minus: "rnd (- x) = - rnd x"
begin

lemma rnd_of_int: "\<bar>m\<bar> \<le> 2 ^ 53 \<Longrightarrow> rnd (of_int m) = of_int m"
  using rnd_dyadic [of m 0] by simp

lemma rnd_0: "rnd 0 = 0"
  using rnd_of_int [of 0] by simp

lemma rnd_1: "rnd 1 = 1"
  using rnd_of_int [of 1] by simp

lemma rnd_numeral: "numeral n \<le> (2 ^ 53 :: int) \<Longrightarrow> rnd (numeral n) = numeral n"
  using rnd_of_int [of "numeral n"] by simp

lemma rnd_half_int: "\<bar>m\<bar> \<le> 2 ^ 53 \<Longrightarrow> rnd (of_int m / 2) = of_int m / 2"
  using rnd_dyadic [of m "- 1"] by (simp add: power_int_minus field_simps)

lemma rnd_nonneg: "0 \<le> x \<Longrightarrow> 0 \<le> rnd x"
  using rnd_mono [of 0 x] by (simp add: rnd_0)

lemma rnd_nonpos: "x \<le> 0 \<Longrightarrow> rnd x \<le> 0"
  using rnd_mono [of x 0] by (simp add: rnd_0)

lemma rnd_le_rounded: "x \<le> rnd y \<Longrightarrow> rnd x \<le> rnd y"
  using rnd_mono [of x "rnd y"] by (simp add: rnd_idem)

lemma rnd_ge_rounded: "rnd y \<le> x \<Longrightarrow> rnd y \<le> rnd x"
  using rnd_mono [of "rnd y" x] by (simp add: rnd_idem)

end

section \<open>Exact arithmetic\<close>

definition exact :: "real \<Rightarrow> real" where
  [simp]: "exact x = x"

interpretation exact_fp: fp_rounding exact
  by unfold_locales simp_all

section \<open>Rounding to 53 bits, ties to even\<close>

definition round_half_even :: "real \<Rightarrow> int" where
  "round_half_even x =
     (let f = \<lfloor>x\<rfloor>; d = x - of_int f
      in if d < 1 / 2 then f else if d > 1 / 2 then f + 1 else if even f then f else f + 1)"

text \<open>The exponent of the binade of \<open>x\<close>: \<open>2 ^ binade x \<le> \<bar>x\<bar> < 2 ^ (binade x + 1)\<close>.\<close>

definition binade :: "real \<Rightarrow> int" where
  "binade x =
     (if \<bar>x\<bar> \<ge> 1 then int (floorlog 2 (nat \<lfloor>\<bar>x\<bar>\<rfloor>)) - 1
      else - int (floorlog 2 (nat (\<lceil>1 / \<bar>x\<bar>\<rceil> - 1))))"

definition round_53 :: "real \<Rightarrow> real" where
  "round_53 x =
     (if x = 0 then 0
      else let q = 2 powi (binade x - 52) in of_int (round_half_even (x / q)) * q)"

lemma binade_bounds:
  assumes "x \<noteq> 0"
  shows "2 powi binade x \<le> \<bar>x\<bar>" and "\<bar>x\<bar> < 2 powi (binade x + 1)"
proof -
  have "2 powi binade x \<le> \<bar>x\<bar> \<and> \<bar>x\<bar> < 2 powi (binade x + 1)"
  proof (cases "\<bar>x\<bar> \<ge> 1")
    case True
    define n where "n = nat \<lfloor>\<bar>x\<bar>\<rfloor>"
    have "1 \<le> \<lfloor>\<bar>x\<bar>\<rfloor>" using True by (simp only: one_le_floor)
    then have n: "0 < n" "real n = of_int \<lfloor>\<bar>x\<bar>\<rfloor>" by (simp_all add: n_def)
    then have n: "0 < n" "real n \<le> \<bar>x\<bar>" "\<bar>x\<bar> < real n + 1"
      using of_int_floor_le [of "\<bar>x\<bar>"] real_of_int_floor_add_one_gt [of "\<bar>x\<bar>"] by simp_all
    define j where "j = floorlog 2 n - 1"
    have j: "2 ^ j \<le> n" "n < 2 ^ Suc j" "floorlog 2 n = Suc j"
      using n(1) floorlog_bounds [of n 2] floorlog_eq_zero_iff [of 2 n] by (auto simp: j_def)
    have "real (2 ^ j) \<le> real n" "real n + 1 \<le> real (2 ^ Suc j)"
      using j(1,2) by (simp_all only: of_nat_le_iff Suc_leI flip: of_nat_Suc)
    then have "real (2 ^ j) \<le> \<bar>x\<bar>" "\<bar>x\<bar> < real (2 ^ Suc j)" using n by linarith+
    moreover have "binade x = int j" using True j(3) by (simp add: binade_def n_def)
    ultimately show ?thesis by (simp add: power_int_add)
  next
    case False
    define y where "y = 1 / \<bar>x\<bar>"
    define n where "n = nat (\<lceil>y\<rceil> - 1)"
    have y: "1 < y" "\<bar>x\<bar> = 1 / y" using False assms by (auto simp: y_def field_simps)
    have "1 < \<lceil>y\<rceil>" using y(1) by (simp only: one_less_ceiling)
    then have "0 < n" "real n = of_int \<lceil>y\<rceil> - 1" by (simp_all add: n_def)
    then have n: "0 < n" "real n < y" "y \<le> real n + 1"
      using le_of_int_ceiling [of y] of_int_ceiling_le_add_one [of y] ceiling_correct [of y] by simp_all
    define j where "j = floorlog 2 n - 1"
    have j: "2 ^ j \<le> n" "n < 2 ^ Suc j" "floorlog 2 n = Suc j"
      using n(1) floorlog_bounds [of n 2] floorlog_eq_zero_iff [of 2 n] by (auto simp: j_def)
    have "real (2 ^ j) \<le> real n" "real n + 1 \<le> real (2 ^ Suc j)"
      using j(1,2) by (simp_all only: of_nat_le_iff Suc_leI flip: of_nat_Suc)
    then have "real (2 ^ j) < y" "y \<le> real (2 ^ Suc j)" using n by linarith+
    then have b: "2 ^ j < y" "y \<le> 2 * 2 ^ j" by simp_all
    have e: "binade x = - int (Suc j)" using False j(3) by (simp add: binade_def n_def y_def)
    have "2 powi binade x = 1 / (2 * 2 ^ j :: real)" "2 powi (binade x + 1) = 1 / (2 ^ j :: real)"
      by (simp_all add: e power_int_minus_divide power_int_diff field_simps)
    then show ?thesis using b y by (simp add: frac_le frac_less2)
  qed
  then show "2 powi binade x \<le> \<bar>x\<bar>" and "\<bar>x\<bar> < 2 powi (binade x + 1)" by simp_all
qed

lemma powi2_less_iff: "(2 powi a :: real) < 2 powi b \<longleftrightarrow> a < b"
proof
  assume less: "(2 powi a :: real) < 2 powi b"
  show "a < b"
  proof (rule ccontr)
    assume "\<not> a < b"
    then have "(2 powi b :: real) \<le> 2 powi a" by (intro power_int_increasing) simp_all
    with less show False by simp
  qed
qed (simp add: power_int_strict_increasing)

lemma powi2_le_iff: "(2 powi a :: real) \<le> 2 powi b \<longleftrightarrow> a \<le> b"
  using powi2_less_iff [of b a] by (simp add: linorder_not_less [symmetric])

lemma binade_unique:
  assumes "2 powi e \<le> \<bar>x\<bar>" and "\<bar>x\<bar> < 2 powi (e + 1)"
  shows "binade x = e"
proof -
  have "x \<noteq> 0" using assms(1) by (metis abs_zero not_less zero_less_numeral zero_less_power_int)
  note b = binade_bounds [OF this]
  have "2 powi e < (2 powi (binade x + 1) :: real)" "2 powi binade x < (2 powi (e + 1) :: real)"
    using assms b by linarith+
  then show ?thesis by (simp add: powi2_less_iff)
qed

lemma binade_minus [simp]: "binade (- x) = binade x"
  by (simp add: binade_def)

section \<open>The rounding laws hold for 53 bits\<close>

lemma round_half_even_of_int [simp]: "round_half_even (of_int m) = m"
  by (simp add: round_half_even_def)

lemma round_half_even_bounds:
  "\<lfloor>x\<rfloor> \<le> round_half_even x" "round_half_even x \<le> \<lfloor>x\<rfloor> + 1"
  by (simp_all add: round_half_even_def Let_def)

lemma round_half_even_error: "\<bar>of_int (round_half_even x) - x\<bar> \<le> 1 / 2"
proof -
  have "of_int \<lfloor>x\<rfloor> \<le> x" "x < of_int \<lfloor>x\<rfloor> + 1" by simp_all
  then show ?thesis unfolding round_half_even_def Let_def abs_le_iff by (simp split: if_split) linarith
qed

lemma round_half_even_mono:
  assumes "x \<le> y"
  shows "round_half_even x \<le> round_half_even y"
proof (cases "\<lfloor>x\<rfloor> = \<lfloor>y\<rfloor>")
  case True
  with assms show ?thesis by (auto simp: round_half_even_def Let_def)
next
  case False
  with floor_mono [OF assms] have "\<lfloor>x\<rfloor> + 1 \<le> \<lfloor>y\<rfloor>" by simp
  with round_half_even_bounds(2) [of x] round_half_even_bounds(1) [of y] show ?thesis by linarith
qed

lemma round_half_even_minus: "round_half_even (- x) = - round_half_even x"
proof (cases "x = of_int \<lfloor>x\<rfloor>")
  case True
  then have "- x = of_int (- \<lfloor>x\<rfloor>)" by simp
  with True show ?thesis by (metis round_half_even_of_int)
next
  case False
  with of_int_floor_le [of x] have "of_int \<lfloor>x\<rfloor> < x" by linarith
  then have "\<lfloor>- x\<rfloor> = - \<lfloor>x\<rfloor> - 1"
    using real_of_int_floor_add_one_gt [of x] by (intro floor_unique) (simp_all, linarith)
  then show ?thesis by (auto simp: round_half_even_def Let_def)
qed

text \<open>Numbers with at most 53 significant bits are fixed points.\<close>

lemma round_53_dyadic:
  assumes "\<bar>m\<bar> \<le> 2 ^ 53"
  shows "round_53 (of_int m * 2 powi k) = of_int m * 2 powi k"
proof (cases "m = 0")
  case False
  let ?x = "of_int m * 2 powi k :: real"
  have nz: "?x \<noteq> 0" using False by simp
  define d where "d = k - (binade ?x - 52)"
  have "2 powi binade ?x \<le> of_int \<bar>m\<bar> * (2 powi k :: real)"
    using binade_bounds(1) [OF nz] by (simp add: abs_mult power_int_abs)
  also have "\<dots> \<le> 2 powi (53 + k)"
    using assms by (simp add: power_int_add of_int_le_numeral_power_cancel_iff)
  finally have "binade ?x \<le> 53 + k" by (simp add: powi2_le_iff)
  then have dge: "- 1 \<le> d" by (simp add: d_def)
  have quot: "?x / 2 powi (binade ?x - 52) = of_int m * 2 powi d"
    by (simp add: d_def power_int_diff)
  have "\<exists>n :: int. of_int m * 2 powi d = (of_int n :: real)"
  proof (cases "d = - 1")
    case True
    then have "binade ?x = 53 + k" by (simp add: d_def)
    then have "2 powi (53 + k) \<le> of_int \<bar>m\<bar> * (2 powi k :: real)"
      using binade_bounds(1) [OF nz] by (simp add: abs_mult power_int_abs)
    then have "(of_int (2 ^ 53) :: real) \<le> of_int \<bar>m\<bar>"
      by (simp add: power_int_add)
    then have "\<bar>m\<bar> = 2 ^ 53" using assms unfolding of_int_le_iff by simp
    then have "even \<bar>m\<bar>" by simp
    then have "m = 2 * (m div 2)" by simp
    then have "of_int m * 2 powi d = (of_int (m div 2) :: real)"
      using True by (simp add: power_int_minus)
    then show ?thesis by blast
  next
    case False
    with dge have "2 powi d = (of_int (2 ^ nat d) :: real)" by (simp add: power_int_nonneg_exp)
    then show ?thesis by (metis of_int_mult)
  qed
  then obtain n :: int where n: "of_int m * 2 powi d = (of_int n :: real)" by blast
  then have "round_53 ?x = of_int n * 2 powi (binade ?x - 52)"
    using nz by (simp add: round_53_def Let_def quot)
  also have "\<dots> = ?x" using quot n by (simp add: field_simps)
  finally show ?thesis .
qed (simp add: round_53_def)

lemma round_53_minus: "round_53 (- x) = - round_53 x"
  by (simp add: round_53_def round_half_even_minus Let_def)

text \<open>A rounded positive number stays in the closed binade of the number.\<close>

lemma round_53_in_binade:
  assumes "0 < x"
  shows "2 powi binade x \<le> round_53 x" and "round_53 x \<le> 2 powi (binade x + 1)"
proof -
  let ?q = "2 powi (binade x - 52) :: real"
  have b: "2 powi binade x \<le> x" "x < 2 powi (binade x + 1)"
    using binade_bounds [of x] assms by simp_all
  have "of_int (2 ^ 52) \<le> x / ?q" "x / ?q \<le> of_int (2 ^ 53)"
    using b by (simp_all add: power_int_diff power_int_add field_simps)
  then have "2 ^ 52 \<le> round_half_even (x / ?q)" "round_half_even (x / ?q) \<le> 2 ^ 53"
    using round_half_even_mono [of "of_int (2 ^ 52)" "x / ?q"]
      round_half_even_mono [of "x / ?q" "of_int (2 ^ 53)"]
    by (simp_all only: round_half_even_of_int)
  then have "(2 ^ 52 :: real) \<le> of_int (round_half_even (x / ?q))"
    "of_int (round_half_even (x / ?q)) \<le> (2 ^ 53 :: real)"
    by (simp_all add: numeral_power_le_of_int_cancel_iff of_int_le_numeral_power_cancel_iff)
  then have "2 ^ 52 * ?q \<le> round_53 x" "round_53 x \<le> 2 ^ 53 * ?q"
    using assms by (simp_all add: round_53_def Let_def mult_right_mono)
  then show "2 powi binade x \<le> round_53 x" and "round_53 x \<le> 2 powi (binade x + 1)"
    by (simp_all add: power_int_diff power_int_add)
qed

lemma round_53_pos: "0 < x \<Longrightarrow> 0 < round_53 x"
  using round_53_in_binade(1) [of x] by (metis less_le_trans zero_less_numeral zero_less_power_int)

lemma round_53_mono_pos:
  assumes "0 < x" and "x \<le> y"
  shows "round_53 x \<le> round_53 y"
proof -
  have b: "2 powi binade x \<le> x" "x < 2 powi (binade x + 1)"
    "2 powi binade y \<le> y" "y < 2 powi (binade y + 1)"
    using binade_bounds [of x] binade_bounds [of y] assms by simp_all
  then have "2 powi binade x < (2 powi (binade y + 1) :: real)" using assms(2) by linarith
  then have le: "binade x \<le> binade y" by (simp add: powi2_less_iff)
  show ?thesis
  proof (cases "binade x = binade y")
    case True
    then show ?thesis
      using assms by (simp add: round_53_def Let_def mult_right_mono round_half_even_mono divide_right_mono)
  next
    case False
    with le have "(2 powi (binade x + 1) :: real) \<le> 2 powi binade y" by (simp add: powi2_le_iff)
    with round_53_in_binade(2) [OF assms(1)] round_53_in_binade(1) [of y] assms show ?thesis
      by linarith
  qed
qed

lemma round_53_mono:
  assumes "x \<le> y"
  shows "round_53 x \<le> round_53 y"
proof (cases "0 < x")
  case True
  then show ?thesis using assms by (rule round_53_mono_pos)
next
  case x: False
  show ?thesis
  proof (cases "y < 0")
    case True
    then have "round_53 (- y) \<le> round_53 (- x)" using assms by (intro round_53_mono_pos) simp_all
    then show ?thesis by (simp add: round_53_minus)
  next
    case False
    have "round_53 x \<le> 0"
      using x round_53_pos [of "- x"] by (cases "x = 0") (auto simp: round_53_minus round_53_def [of 0])
    moreover have "0 \<le> round_53 y"
      using False round_53_pos [of y] by (cases "y = 0") (auto simp: round_53_def [of 0])
    ultimately show ?thesis by simp
  qed
qed

lemma round_53_idem: "round_53 (round_53 x) = round_53 x"
proof -
  have pos: "round_53 (round_53 x) = round_53 x" if "0 < x" for x
  proof -
    let ?q = "2 powi (binade x - 52) :: real"
    let ?m = "round_half_even (x / ?q)"
    have rx: "round_53 x = of_int ?m * ?q" using that by (simp add: round_53_def Let_def)
    have "of_int ?m * ?q \<le> 2 ^ 53 * ?q" "0 \<le> of_int ?m * ?q"
      using round_53_in_binade [OF that] round_53_pos [OF that] rx
      by (simp_all add: power_int_diff power_int_add)
    moreover have "0 < ?q" by simp
    ultimately have "(of_int ?m :: real) \<le> of_int (2 ^ 53)" "(0 :: real) \<le> of_int ?m"
      by (auto simp: zero_le_mult_iff simp del: zero_less_power_int)
    then have "\<bar>?m\<bar> \<le> 2 ^ 53" unfolding of_int_le_iff by simp
    then show ?thesis unfolding rx by (rule round_53_dyadic)
  qed
  consider "0 < x" | "x = 0" | "0 < - x" by linarith
  then show ?thesis
  proof cases
    case 3
    with pos [of "- x"] show ?thesis by (simp add: round_53_minus)
  qed (simp_all add: pos, simp add: round_53_def)
qed

interpretation f53: fp_rounding round_53
  by unfold_locales (simp_all add: round_53_mono round_53_idem round_53_dyadic round_53_minus)

text \<open>The relative error of one rounding is at most half a unit in the last place.\<close>

lemma round_53_rel_error: "\<bar>round_53 x - x\<bar> \<le> \<bar>x\<bar> * 2 powi (- 53)"
proof (cases "x = 0")
  case False
  let ?q = "2 powi (binade x - 52) :: real"
  have "round_53 x - x = (of_int (round_half_even (x / ?q)) - x / ?q) * ?q"
    using False by (simp add: round_53_def Let_def left_diff_distrib)
  then have "\<bar>round_53 x - x\<bar> = \<bar>of_int (round_half_even (x / ?q)) - x / ?q\<bar> * ?q"
    by (simp add: abs_mult)
  also have "\<dots> \<le> 1 / 2 * ?q"
    by (intro mult_right_mono round_half_even_error) simp
  also have "\<dots> = 2 powi binade x * 2 powi (- 53)" by (simp add: power_int_diff power_int_minus)
  also have "\<dots> \<le> \<bar>x\<bar> * 2 powi (- 53)"
    using binade_bounds(1) [OF False] by (intro mult_right_mono) simp_all
  finally show ?thesis .
qed (simp add: round_53_def)

end
