(* ===== verification/Binary64.thy ===== *)
theory Binary64
  imports Float64
begin

text \<open>
  The exponent range of IEEE 754 binary64 around the rounding to 53 bits of \<open>Float64\<close>. Below, no
  bit of a result is worth less than \<open>2 ^ -1074\<close>: \<open>round_f64\<close> rounds small results to a
  multiple of it (gradual underflow). Above, a result whose rounding reaches \<open>2 ^ 1024\<close> is not a
  finite number; \<open>binary64\<close> takes what it becomes as an argument, so that a statement for every
  such argument says that it does not happen.
\<close>

section \<open>Gradual underflow\<close>

text \<open>The smallest normal number, and the value of the last bit of the numbers below it.\<close>

definition f64_min :: real where
  "f64_min = 2 powi (- 1022)"

definition f64_ulp :: real where
  "f64_ulp = 2 powi (- 1074)"

definition round_f64 :: "real \<Rightarrow> real" where
  "round_f64 x =
     (if x = 0 then 0
      else let q = 2 powi max (binade x - 52) (- 1074) in of_int (round_half_even (x / q)) * q)"

lemma f64_pos [simp]: "0 < f64_min" "0 < f64_ulp" "f64_ulp \<noteq> 0"
  unfolding f64_min_def f64_ulp_def by (simp_all only: zero_less_power_int zero_less_numeral power_int_eq_0_iff) simp

lemma f64_min_eq: "f64_min = of_int (2 ^ 52) * f64_ulp"
  using power_int_add [of "2 :: real" 52 "- 1074"] unfolding f64_min_def f64_ulp_def by simp

lemma binade_normal: "f64_min \<le> \<bar>x\<bar> \<longleftrightarrow> x \<noteq> 0 \<and> - 1022 \<le> binade x"
proof (cases "x = 0")
  case False
  show ?thesis
  proof
    assume "f64_min \<le> \<bar>x\<bar>"
    with binade_bounds(2) [OF False] have "2 powi (- 1022) < (2 powi (binade x + 1) :: real)"
      unfolding f64_min_def by linarith
    then have "- 1022 < binade x + 1" by (simp only: powi2_less_iff)
    with False show "x \<noteq> 0 \<and> - 1022 \<le> binade x" by simp
  next
    assume "x \<noteq> 0 \<and> - 1022 \<le> binade x"
    then have "2 powi (- 1022) \<le> (2 powi binade x :: real)" by (simp only: powi2_le_iff)
    with binade_bounds(1) [OF False] show "f64_min \<le> \<bar>x\<bar>" unfolding f64_min_def by linarith
  qed
qed (simp add: not_le)

lemma round_f64_normal: "f64_min \<le> \<bar>x\<bar> \<Longrightarrow> round_f64 x = round_53 x"
  unfolding binade_normal by (simp add: round_f64_def round_53_def max_absorb1)

lemma round_f64_subnormal: "\<bar>x\<bar> < f64_min \<Longrightarrow> round_f64 x = of_int (round_half_even (x / f64_ulp)) * f64_ulp"
proof (cases "x = 0")
  case False
  assume "\<bar>x\<bar> < f64_min"
  then have "binade x < - 1022" using False binade_normal [of x] by auto
  then have "max (binade x - 52) (- 1074) = - 1074" by simp
  then show ?thesis using False by (simp only: round_f64_def Let_def f64_ulp_def if_False)
qed (simp add: round_f64_def round_half_even_def)

section \<open>The rounding laws\<close>

lemma subnormal_quotient:
  assumes "\<bar>x\<bar> < f64_min"
  shows "\<bar>round_half_even (x / f64_ulp)\<bar> \<le> 2 ^ 52"
proof -
  have "- of_int (2 ^ 52) * f64_ulp \<le> x" "x \<le> of_int (2 ^ 52) * f64_ulp"
    using assms unfolding f64_min_eq by linarith+
  then have "of_int (- (2 ^ 52)) \<le> x / f64_ulp" "x / f64_ulp \<le> of_int (2 ^ 52)"
    by (simp_all only: pos_le_divide_eq pos_divide_le_eq f64_pos of_int_minus)
  then have "- (2 ^ 52) \<le> round_half_even (x / f64_ulp)" "round_half_even (x / f64_ulp) \<le> 2 ^ 52"
    using round_half_even_mono [of "of_int (- (2 ^ 52))"] round_half_even_mono [of _ "of_int (2 ^ 52)"]
    by (simp_all only: round_half_even_of_int)
  then show ?thesis by linarith
qed

lemma round_f64_subnormal_le:
  assumes "\<bar>x\<bar> < f64_min"
  shows "\<bar>round_f64 x\<bar> \<le> f64_min"
proof -
  have "(of_int \<bar>round_half_even (x / f64_ulp)\<bar> :: real) \<le> of_int (2 ^ 52)"
    using subnormal_quotient [OF assms] by (simp only: of_int_le_iff)
  then have "of_int \<bar>round_half_even (x / f64_ulp)\<bar> * f64_ulp \<le> f64_min"
    unfolding f64_min_eq by (rule mult_right_mono) (simp add: less_imp_le)
  then show ?thesis unfolding round_f64_subnormal [OF assms] abs_mult by (simp add: abs_of_pos)
qed

lemma round_53_min: "f64_min \<le> x \<Longrightarrow> f64_min \<le> round_53 x"
  using round_53_mono [of f64_min x] round_53_dyadic [of 1 "- 1022"] by (simp add: f64_min_def)

lemma round_f64_minus: "round_f64 (- x) = - round_f64 x"
  by (simp add: round_f64_def round_half_even_minus Let_def)

lemma round_f64_mono:
  assumes "x \<le> y"
  shows "round_f64 x \<le> round_f64 y"
proof -
  have low: "round_f64 z \<le> - f64_min" if "z \<le> - f64_min" for z
  proof -
    have "f64_min \<le> \<bar>- z\<bar>" "f64_min \<le> - z" using that by linarith+
    then show ?thesis using round_53_min [of "- z"] round_f64_normal [of "- z"] by (simp add: round_f64_minus)
  qed
  have high: "f64_min \<le> round_f64 z" if "f64_min \<le> z" for z
    using round_53_min [OF that] round_f64_normal [of z] that by simp
  have mid: "- f64_min \<le> round_f64 z" "round_f64 z \<le> f64_min" if "\<bar>z\<bar> < f64_min" for z
    using round_f64_subnormal_le [OF that] by linarith+
  consider "\<bar>x\<bar> < f64_min" "\<bar>y\<bar> < f64_min" | "f64_min \<le> \<bar>x\<bar>" "f64_min \<le> \<bar>y\<bar>"
    | "\<bar>x\<bar> < f64_min" "f64_min \<le> y" | "x \<le> - f64_min" "\<bar>y\<bar> < f64_min"
    using assms by linarith
  then show ?thesis
  proof cases
    case 1
    have "x / f64_ulp \<le> y / f64_ulp" using assms by (rule divide_right_mono) (simp add: less_imp_le)
    then have "(of_int (round_half_even (x / f64_ulp)) :: real) \<le> of_int (round_half_even (y / f64_ulp))"
      by (simp only: of_int_le_iff round_half_even_mono)
    then show ?thesis unfolding round_f64_subnormal [OF 1(1)] round_f64_subnormal [OF 1(2)]
      by (rule mult_right_mono) (simp add: less_imp_le)
  next
    case 2
    then show ?thesis using round_53_mono [OF assms] by (simp only: round_f64_normal)
  next
    case 3
    then show ?thesis using mid(2) [OF 3(1)] high [OF 3(2)] by linarith
  next
    case 4
    then show ?thesis using low [OF 4(1)] mid(1) [OF 4(2)] by linarith
  qed
qed

lemma round_f64_dyadic:
  assumes "\<bar>m\<bar> \<le> 2 ^ 53" and "- 1074 \<le> k"
  shows "round_f64 (of_int m * 2 powi k) = of_int m * 2 powi k"
proof (cases "f64_min \<le> \<bar>of_int m * 2 powi k\<bar>")
  case True
  then show ?thesis using round_53_dyadic [OF assms(1)] by (simp only: round_f64_normal)
next
  case False
  have "(2 powi k :: real) = 2 powi (k + 1074) * f64_ulp"
    using power_int_add [of "2 :: real" "k + 1074" "- 1074"] unfolding f64_ulp_def by simp
  moreover have "(2 powi (k + 1074) :: real) = of_int (2 ^ nat (k + 1074))"
    using assms(2) by (simp add: power_int_def)
  ultimately have x: "of_int m * 2 powi k = of_int (m * 2 ^ nat (k + 1074)) * f64_ulp"
    by (simp only: of_int_mult mult.assoc)
  have "of_int (m * 2 ^ nat (k + 1074)) * f64_ulp / f64_ulp = of_int (m * 2 ^ nat (k + 1074))"
    by (rule nonzero_mult_div_cancel_right) simp
  then show ?thesis using False round_f64_subnormal [of "of_int m * 2 powi k"]
    unfolding x by (simp only: not_le round_half_even_of_int)
qed

lemma round_f64_idem: "round_f64 (round_f64 x) = round_f64 x"
proof (cases "f64_min \<le> \<bar>x\<bar>")
  case True
  have "f64_min \<le> \<bar>round_53 x\<bar>"
    using True round_53_min [of x] round_53_min [of "- x"] by (cases "0 \<le> x") (auto simp: round_53_minus abs_le_iff)
  then show ?thesis using True by (simp only: round_f64_normal round_53_idem)
next
  case False
  then have "\<bar>x\<bar> < f64_min" by simp
  note r = round_f64_subnormal [OF this] subnormal_quotient [OF this]
  show ?thesis unfolding r(1) f64_ulp_def
    by (rule round_f64_dyadic) (use r(2) in \<open>simp_all add: f64_ulp_def\<close>)
qed

interpretation f64: fp_rounding round_f64
  by unfold_locales (simp_all only: round_f64_mono round_f64_idem round_f64_dyadic round_f64_minus)

text \<open>The error of one rounding: half a unit in the last place, relative or, below, absolute.\<close>

lemma round_f64_error: "\<bar>round_f64 x - x\<bar> \<le> max \<bar>x\<bar> f64_min * 2 powi (- 53)"
proof (cases "f64_min \<le> \<bar>x\<bar>")
  case True
  then show ?thesis using round_53_rel_error [of x] by (simp only: round_f64_normal max_absorb1)
next
  case False
  have "round_f64 x - x = (of_int (round_half_even (x / f64_ulp)) - x / f64_ulp) * f64_ulp"
    using False by (simp add: round_f64_subnormal left_diff_distrib)
  then have "\<bar>round_f64 x - x\<bar> = \<bar>of_int (round_half_even (x / f64_ulp)) - x / f64_ulp\<bar> * f64_ulp"
    by (simp add: abs_mult abs_of_pos)
  also have "\<dots> \<le> 1 / 2 * f64_ulp" by (intro mult_right_mono round_half_even_error) (simp add: less_imp_le)
  also have "\<dots> = f64_min * 2 powi (- 53)" unfolding f64_min_eq by (simp add: power_int_minus)
  finally show ?thesis using False by (simp add: max_absorb2)
qed

lemma f64_min_le: "n \<le> 1022 \<Longrightarrow> f64_min \<le> 1 / 2 ^ n"
proof -
  assume "n \<le> 1022"
  then have "(2 powi (- 1022) :: real) \<le> 2 powi (- int n)" by (simp only: powi2_le_iff)
  moreover have "(2 powi (- int n) :: real) = 1 / 2 ^ n" by (simp add: power_int_minus field_simps)
  ultimately show ?thesis unfolding f64_min_def by simp
qed

lemma round_f64_near:
  assumes "\<bar>x\<bar> \<le> M" and "1 / 2 ^ 30 \<le> M"
  shows "\<bar>round_f64 x - x\<bar> \<le> M / 2 ^ 53"
proof -
  have "max \<bar>x\<bar> f64_min \<le> M" using assms f64_min_le [of 30] by simp
  then have "max \<bar>x\<bar> f64_min * 2 powi (- 53) \<le> M * 2 powi (- 53)" by (rule mult_right_mono) simp
  with round_f64_error [of x] have "\<bar>round_f64 x - x\<bar> \<le> M * 2 powi (- 53)" by (rule order_trans)
  then show ?thesis by (simp add: power_int_minus)
qed

text \<open>Zero and results well above the smallest normal number are only rounded to 53 bits.\<close>

definition no_underflow :: "real \<Rightarrow> bool" where
  "no_underflow x \<longleftrightarrow> x = 0 \<or> 1 / 2 ^ 300 \<le> \<bar>x\<bar>"

lemma no_underflowD: "no_underflow x \<Longrightarrow> round_f64 x = round_53 x"
  using f64_min_le [of 300] round_f64_normal [of x]
  by (auto simp: no_underflow_def f64.rnd_0 f53.rnd_0 simp del: divide_le_eq_numeral1 le_divide_eq_numeral1)

lemma no_underflow_ge: "1 / 2 ^ n \<le> x \<Longrightarrow> n \<le> 300 \<Longrightarrow> no_underflow x"
proof -
  assume x: "1 / 2 ^ n \<le> x" "n \<le> 300"
  have "(1 / 2 ^ 300 :: real) \<le> 1 / 2 ^ n"
    using power_increasing [OF x(2), of "2 :: real"] by (intro divide_left_mono) simp_all
  with x(1) show ?thesis unfolding no_underflow_def by linarith
qed

section \<open>Overflow\<close>

definition binary64 :: "(real \<Rightarrow> real) \<Rightarrow> real \<Rightarrow> real" where
  "binary64 overflow x = (if \<bar>round_f64 x\<bar> < 2 ^ 1024 then round_f64 x else overflow x)"

lemma round_f64_below: "\<bar>x\<bar> \<le> 2 ^ n \<Longrightarrow> \<bar>round_f64 x\<bar> \<le> 2 ^ n"
proof -
  assume x: "\<bar>x\<bar> \<le> 2 ^ n"
  have p: "round_f64 (2 ^ n) = 2 ^ n" using round_f64_dyadic [of 1 "int n"] by simp
  have "x \<le> 2 ^ n" "- x \<le> 2 ^ n" using x by linarith+
  then have "round_f64 x \<le> 2 ^ n" "round_f64 (- x) \<le> 2 ^ n"
    using round_f64_mono [of x "2 ^ n"] round_f64_mono [of "- x" "2 ^ n"] by (simp_all only: p)
  then show ?thesis by (simp add: round_f64_minus abs_le_iff)
qed

lemma binary64_below: "\<bar>x\<bar> \<le> 2 ^ n \<Longrightarrow> n < 1024 \<Longrightarrow> binary64 overflow x = round_f64 x"
proof -
  assume "\<bar>x\<bar> \<le> 2 ^ n" "n < 1024"
  then have "\<bar>round_f64 x\<bar> < 2 ^ 1024"
    using round_f64_below [of x n] power_strict_increasing [of n 1024 "2 :: real"] by linarith
  then show ?thesis by (simp add: binary64_def)
qed

end
