(* ===== verification/Soc_Estimator.thy ===== *)
theory Soc_Estimator
  imports Binary64 Bms_Config
begin

text \<open>
  The State of Charge estimator of \<open>src/bms/soc_estimator.h\<close> and \<open>soc_estimator.c\<close>: the
  open-circuit-voltage table with its integer interpolation, and the two-state Kalman filter. Each
  floating-point operation of the C code is one application of the rounding function \<open>rnd\<close>, in
  the order the C expression is parsed; \<open>rnd = round_f64\<close> is the filter as compiled and
  \<open>rnd = exact\<close> the same filter in exact arithmetic. Where the C code would divide by zero
  and leave the finite doubles, or convert a double that does not fit its integer type (which C
  leaves undefined), the model returns \<^const>\<open>None\<close>.
\<close>

section \<open>The open-circuit-voltage table\<close>

record ocv_point_t =
  ocv_mv :: u16
  ocv_percent_x2 :: u8

definition OCV_TABLE :: "ocv_point_t list" where
  "OCV_TABLE =
     [\<lparr>ocv_mv = 3000, ocv_percent_x2 = 0\<rparr>, \<lparr>ocv_mv = 3300, ocv_percent_x2 = 15\<rparr>,
      \<lparr>ocv_mv = 3400, ocv_percent_x2 = 30\<rparr>, \<lparr>ocv_mv = 3500, ocv_percent_x2 = 50\<rparr>,
      \<lparr>ocv_mv = 3600, ocv_percent_x2 = 70\<rparr>, \<lparr>ocv_mv = 3700, ocv_percent_x2 = 100\<rparr>,
      \<lparr>ocv_mv = 3800, ocv_percent_x2 = 120\<rparr>, \<lparr>ocv_mv = 3900, ocv_percent_x2 = 140\<rparr>,
      \<lparr>ocv_mv = 4000, ocv_percent_x2 = 160\<rparr>, \<lparr>ocv_mv = 4100, ocv_percent_x2 = 180\<rparr>,
      \<lparr>ocv_mv = 4200, ocv_percent_x2 = 200\<rparr>]"

definition ocv_interpolate :: "ocv_point_t \<Rightarrow> ocv_point_t \<Rightarrow> u16 \<Rightarrow> int" where
  "ocv_interpolate lo hi avg_cell_mv =
     (let lo_p = uint (ocv_percent_x2 lo);
          hi_p = uint (ocv_percent_x2 hi);
          span_mv = uint (ocv_mv hi) - uint (ocv_mv lo);
          offset_mv = uint avg_cell_mv - uint (ocv_mv lo)
      in lo_p + c_div ((hi_p - lo_p) * offset_mv) span_mv)"

text \<open>
  The search loop, over the remaining table: it ends when fewer than two points are left, which is
  the statement after the loop.
\<close>

fun ocv_scan :: "u16 \<Rightarrow> ocv_point_t list \<Rightarrow> u8" where
  "ocv_scan avg_cell_mv (lo # hi # rest) =
     (if avg_cell_mv \<ge> ocv_mv lo \<and> avg_cell_mv \<le> ocv_mv hi
      then word_of_int (ocv_interpolate lo hi avg_cell_mv)
      else ocv_scan avg_cell_mv (hi # rest))"
| "ocv_scan avg_cell_mv _ = 0"

definition soc_estimator_ocv_lookup_percent_x2 :: "u16 \<Rightarrow> u8" where
  "soc_estimator_ocv_lookup_percent_x2 avg_cell_mv =
     (if avg_cell_mv \<le> ocv_mv (OCV_TABLE ! 0) then ocv_percent_x2 (OCV_TABLE ! 0)
      else if avg_cell_mv \<ge> ocv_mv (OCV_TABLE ! (length OCV_TABLE - 1))
      then ocv_percent_x2 (OCV_TABLE ! (length OCV_TABLE - 1))
      else ocv_scan avg_cell_mv OCV_TABLE)"

section \<open>The Kalman filter\<close>

record soc_estimator_t =
  soc_percent :: real
  bias_ca :: real
  p00 :: real
  p01 :: real
  p11 :: real
  capacity_mah :: u16

definition soc_estimator_init :: "(real \<Rightarrow> real) \<Rightarrow> u16 \<Rightarrow> soc_estimator_t" where
  "soc_estimator_init rnd cap =
     \<lparr>soc_percent = 100, bias_ca = 0, p00 = rnd BMS_SOC_INITIAL_VARIANCE_PCT2, p01 = 0,
      p11 = rnd BMS_SOC_BIAS_INITIAL_VARIANCE_CA2, capacity_mah = cap\<rparr>"

text \<open>
  The local variables of \<open>soc_estimator_update\<close> up to the Kalman gain, as one record: the
  prediction of state and covariance, the measurement and its noise, and the innovation variance.
\<close>

record soc_predict_t =
  pr_soc :: real
  pr_p00 :: real
  pr_p01 :: real
  pr_p11 :: real
  pr_z :: real
  pr_noise :: real
  pr_s :: real

text \<open>Percent per centiamp held for the interval: the Coulomb-counting factor \<open>k\<close>.\<close>

definition soc_gain_k :: "(real \<Rightarrow> real) \<Rightarrow> u16 \<Rightarrow> u32 \<Rightarrow> real" where
  "soc_gain_k rnd cap dt_ms = rnd (real_of_int (uint dt_ms) / rnd (3600 * real_of_int (uint cap)))"

text \<open>What the process noise adds to the variance of the charge and of the bias.\<close>

definition soc_process_noise :: "(real \<Rightarrow> real) \<Rightarrow> real \<Rightarrow> real" where
  "soc_process_noise rnd delta_percent =
     (let sense_error = rnd (rnd BMS_SOC_CURRENT_SENSE_ERROR_FRAC * delta_percent)
      in rnd (rnd BMS_SOC_PROCESS_NOISE_FLOOR_PCT2 + rnd (sense_error * sense_error)))"

definition soc_bias_walk :: "(real \<Rightarrow> real) \<Rightarrow> u32 \<Rightarrow> real" where
  "soc_bias_walk rnd dt_ms =
     rnd (rnd BMS_SOC_BIAS_RANDOM_WALK_CA2_PER_S * rnd (real_of_int (uint dt_ms) / 1000))"

definition soc_measurement_noise :: "(real \<Rightarrow> real) \<Rightarrow> i16 \<Rightarrow> real" where
  "soc_measurement_noise rnd current_ca =
     (let current_a = rnd (real_of_int (sint current_ca) / 100)
      in rnd (rnd BMS_SOC_OCV_BASE_VARIANCE_PCT2
           + rnd (rnd (rnd BMS_SOC_OCV_LOAD_COEFF_PCT2_PER_A2 * current_a) * current_a)))"

definition soc_predict ::
  "(real \<Rightarrow> real) \<Rightarrow> soc_estimator_t \<Rightarrow> i16 \<Rightarrow> u32 \<Rightarrow> u16 \<Rightarrow> soc_predict_t" where
  "soc_predict rnd e current_ca dt_ms avg_cell_mv =
     (let k = soc_gain_k rnd (capacity_mah e) dt_ms;
          corrected_current_ca = rnd (real_of_int (sint current_ca) - bias_ca e);
          delta_percent = rnd (k * corrected_current_ca);
          soc_pred = rnd (soc_percent e + delta_percent);
          q00 = rnd (rnd (p00 e - rnd (rnd (2 * k) * p01 e)) + rnd (rnd (k * k) * p11 e));
          q01 = rnd (p01 e - rnd (k * p11 e));
          q00' = rnd (q00 + soc_process_noise rnd delta_percent);
          q11' = rnd (p11 e + soc_bias_walk rnd dt_ms);
          z_percent = rnd (real_of_int (uint (soc_estimator_ocv_lookup_percent_x2 avg_cell_mv)) / 2);
          measurement_noise = soc_measurement_noise rnd current_ca
      in \<lparr>pr_soc = soc_pred, pr_p00 = q00', pr_p01 = q01, pr_p11 = q11', pr_z = z_percent,
          pr_noise = measurement_noise, pr_s = rnd (q00' + measurement_noise)\<rparr>)"

definition clamp_percent :: "real \<Rightarrow> real" where
  "clamp_percent x = (let y = (if x < 0 then 0 else x) in if y > 100 then 100 else y)"

definition soc_correct :: "(real \<Rightarrow> real) \<Rightarrow> soc_estimator_t \<Rightarrow> soc_predict_t \<Rightarrow> soc_estimator_t" where
  "soc_correct rnd e pr =
     (let k_soc = rnd (pr_p00 pr / pr_s pr);
          k_bias = rnd (pr_p01 pr / pr_s pr);
          residual = rnd (pr_z pr - pr_soc pr);
          soc_new = rnd (pr_soc pr + rnd (k_soc * residual));
          bias_new = rnd (bias_ca e + rnd (k_bias * residual))
      in e\<lparr>soc_percent := clamp_percent soc_new, bias_ca := bias_new,
           p00 := rnd (pr_p00 pr - rnd (k_soc * pr_p00 pr)),
           p01 := rnd (pr_p01 pr - rnd (k_soc * pr_p01 pr)),
           p11 := rnd (pr_p11 pr - rnd (k_bias * pr_p01 pr))\<rparr>)"

definition soc_estimator_update ::
  "(real \<Rightarrow> real) \<Rightarrow> soc_estimator_t \<Rightarrow> i16 \<Rightarrow> u32 \<Rightarrow> u16 \<Rightarrow> soc_estimator_t option" where
  "soc_estimator_update rnd e current_ca dt_ms avg_cell_mv =
     (if capacity_mah e = 0 then None
      else let pr = soc_predict rnd e current_ca dt_ms avg_cell_mv
           in if pr_s pr = 0 then None else Some (soc_correct rnd e pr))"

section \<open>Reading the estimate\<close>

definition c_truncate :: "real \<Rightarrow> int" where
  "c_truncate x = (if x \<ge> 0 then \<lfloor>x\<rfloor> else \<lceil>x\<rceil>)"

definition f64_to_u8 :: "real \<Rightarrow> u8 option" where
  "f64_to_u8 x = (if 0 \<le> c_truncate x \<and> c_truncate x < 2 ^ 8 then Some (word_of_int (c_truncate x)) else None)"

definition f64_to_i32 :: "real \<Rightarrow> i32 option" where
  "f64_to_i32 x =
     (if - (2 ^ 31) \<le> c_truncate x \<and> c_truncate x < 2 ^ 31
      then Some (word_of_int (c_truncate x)) else None)"

definition soc_estimator_get_percent_x2 :: "(real \<Rightarrow> real) \<Rightarrow> soc_estimator_t \<Rightarrow> u8 option" where
  "soc_estimator_get_percent_x2 rnd e =
     (let percent_x2 = rnd (soc_percent e * 2);
          v1 = (if percent_x2 < 0 then 0 else percent_x2);
          v2 = (if v1 > 200 then 200 else v1)
      in f64_to_u8 (rnd (v2 + 1 / 2)))"

definition soc_estimator_get_variance_x1000 :: "(real \<Rightarrow> real) \<Rightarrow> soc_estimator_t \<Rightarrow> i32 option" where
  "soc_estimator_get_variance_x1000 rnd e =
     (let v = rnd (p00 e * 1000); v1 = (if v < 0 then 0 else v) in f64_to_i32 (rnd (v1 + 1 / 2)))"

definition soc_estimator_get_bias_ca_x10 :: "(real \<Rightarrow> real) \<Rightarrow> soc_estimator_t \<Rightarrow> i32 option" where
  "soc_estimator_get_bias_ca_x10 rnd e =
     (let v = rnd (bias_ca e * 10)
      in if v \<ge> 0 then f64_to_i32 (rnd (v + 1 / 2))
         else map_option uminus (f64_to_i32 (rnd (- v + 1 / 2))))"

section \<open>The interpolation is monotone and stays in the table's range\<close>

definition ocv_before :: "ocv_point_t \<Rightarrow> ocv_point_t \<Rightarrow> bool" where
  "ocv_before a b \<longleftrightarrow> ocv_mv a < ocv_mv b \<and> ocv_percent_x2 a \<le> ocv_percent_x2 b"

lemma OCV_TABLE_sorted: "sorted_wrt ocv_before OCV_TABLE"
  by (simp add: OCV_TABLE_def ocv_before_def)

lemma ocv_interpolate_eq:
  assumes "ocv_before lo hi" and "ocv_mv lo \<le> v"
  shows "ocv_interpolate lo hi v = uint (ocv_percent_x2 lo) +
    (uint (ocv_percent_x2 hi) - uint (ocv_percent_x2 lo)) * (uint v - uint (ocv_mv lo)) div
      (uint (ocv_mv hi) - uint (ocv_mv lo))"
  using assms
  by (simp add: ocv_interpolate_def Let_def ocv_before_def word_le_def word_less_def c_div_nonneg)

lemma ocv_interpolate_bounds:
  assumes "ocv_before lo hi" and "ocv_mv lo \<le> v" and "v \<le> ocv_mv hi"
  shows "uint (ocv_percent_x2 lo) \<le> ocv_interpolate lo hi v"
    and "ocv_interpolate lo hi v \<le> uint (ocv_percent_x2 hi)"
proof -
  let ?p = "uint (ocv_percent_x2 hi) - uint (ocv_percent_x2 lo)"
  let ?s = "uint (ocv_mv hi) - uint (ocv_mv lo)"
  have p: "0 \<le> ?p" "0 < ?s" "0 \<le> uint v - uint (ocv_mv lo)" "uint v - uint (ocv_mv lo) \<le> ?s"
    using assms by (simp_all add: ocv_before_def word_le_def word_less_def)
  then have "?p * (uint v - uint (ocv_mv lo)) div ?s \<le> ?p * ?s div ?s"
    by (intro zdiv_mono1 mult_left_mono)
  also have "\<dots> = ?p" using p by simp
  finally show "ocv_interpolate lo hi v \<le> uint (ocv_percent_x2 hi)"
    unfolding ocv_interpolate_eq [OF assms(1,2)] by simp
  show "uint (ocv_percent_x2 lo) \<le> ocv_interpolate lo hi v"
    unfolding ocv_interpolate_eq [OF assms(1,2)] using p by (simp add: pos_imp_zdiv_nonneg_iff)
qed

lemma ocv_interpolate_mono:
  assumes "ocv_before lo hi" and "ocv_mv lo \<le> v" and "v \<le> w"
  shows "ocv_interpolate lo hi v \<le> ocv_interpolate lo hi w"
proof -
  have "ocv_mv lo \<le> w" using assms by simp
  then show ?thesis
    unfolding ocv_interpolate_eq [OF assms(1,2)] ocv_interpolate_eq [OF assms(1) \<open>ocv_mv lo \<le> w\<close>]
    using assms by (intro add_left_mono zdiv_mono1 mult_left_mono)
      (simp_all add: ocv_before_def word_le_def word_less_def)
qed

lemma uint_ocv_interpolate:
  assumes "ocv_before lo hi" and "ocv_mv lo \<le> v" and "v \<le> ocv_mv hi"
  shows "uint (word_of_int (ocv_interpolate lo hi v) :: u8) = ocv_interpolate lo hi v"
proof -
  have "0 \<le> ocv_interpolate lo hi v" "ocv_interpolate lo hi v < 2 ^ 8"
    using ocv_interpolate_bounds [OF assms] uint_bounded [of "ocv_percent_x2 hi"]
      order_trans [OF uint_ge_0 [of "ocv_percent_x2 lo"]] by simp_all
  then show ?thesis by (simp add: uint_word_of_int)
qed

lemma ocv_scan_here:
  "ocv_before lo hi \<Longrightarrow> ocv_mv lo \<le> v \<Longrightarrow> v \<le> ocv_mv hi \<Longrightarrow>
    uint (ocv_scan v (lo # hi # rest)) = ocv_interpolate lo hi v"
  by (simp add: uint_ocv_interpolate)

lemma ocv_scan_later: "ocv_mv hi < v \<Longrightarrow> ocv_scan v (lo # hi # rest) = ocv_scan v (hi # rest)"
  by (simp add: linorder_not_le [symmetric])

declare ocv_scan.simps(1) [simp del]

text \<open>Points of a sorted table: the scan returns a value between the first and the last percentage.\<close>

lemma ocv_scan_bounds:
  assumes "sorted_wrt ocv_before (lo # hi # rest)" and "ocv_mv lo \<le> v"
    and "v \<le> ocv_mv (last (hi # rest))"
  shows "uint (ocv_percent_x2 lo) \<le> uint (ocv_scan v (lo # hi # rest)) \<and>
    uint (ocv_scan v (lo # hi # rest)) \<le> uint (ocv_percent_x2 (last (hi # rest)))"
  using assms
proof (induction rest arbitrary: lo hi)
  case Nil
  then show ?case
    using ocv_interpolate_bounds [of lo hi v] by (simp add: ocv_scan_here)
next
  case (Cons x rest)
  have ab: "ocv_before lo hi" using Cons.prems(1) by simp
  show ?case
  proof (cases "v \<le> ocv_mv hi")
    case True
    have "ocv_before hi (last (hi # x # rest))" using Cons.prems(1) by simp
    then have "uint (ocv_percent_x2 hi) \<le> uint (ocv_percent_x2 (last (hi # x # rest)))"
      by (simp add: ocv_before_def word_le_def)
    with True Cons.prems(2) ab ocv_interpolate_bounds [of lo hi v] show ?thesis
      by (simp add: ocv_scan_here)
  next
    case False
    then have v: "ocv_mv hi < v" "ocv_mv hi \<le> v" by simp_all
    have "uint (ocv_percent_x2 lo) \<le> uint (ocv_percent_x2 hi)"
      using ab by (simp add: ocv_before_def word_le_def)
    with Cons.IH [of hi x] Cons.prems v show ?thesis by (simp add: ocv_scan_later)
  qed
qed

lemma ocv_scan_mono:
  assumes "sorted_wrt ocv_before (lo # hi # rest)" and "ocv_mv lo \<le> v" and "v \<le> w"
    and "w \<le> ocv_mv (last (hi # rest))"
  shows "uint (ocv_scan v (lo # hi # rest)) \<le> uint (ocv_scan w (lo # hi # rest))"
  using assms
proof (induction rest arbitrary: lo hi)
  case Nil
  then have "ocv_mv lo \<le> w" "v \<le> ocv_mv hi" by auto
  with Nil show ?case using ocv_interpolate_mono [of lo hi v w] by (simp add: ocv_scan_here)
next
  case (Cons x rest)
  have ab: "ocv_before lo hi" and vw: "ocv_mv lo \<le> w" using Cons.prems by auto
  consider "w \<le> ocv_mv hi" "v \<le> ocv_mv hi" | "v \<le> ocv_mv hi" "ocv_mv hi < w" | "ocv_mv hi < v"
    using Cons.prems(3) by fastforce
  then show ?case
  proof cases
    case 1
    with ab vw Cons.prems(2) ocv_interpolate_mono [OF ab Cons.prems(2,3)] show ?thesis
      by (simp add: ocv_scan_here)
  next
    case 2
    have "uint (ocv_percent_x2 hi) \<le> uint (ocv_scan w (hi # x # rest))"
      using ocv_scan_bounds [of hi x rest w] Cons.prems 2(2) by (simp add: order_less_imp_le)
    with ocv_interpolate_bounds(2) [OF ab Cons.prems(2) 2(1)] 2 ab Cons.prems(2) show ?thesis
      by (simp add: ocv_scan_here ocv_scan_later)
  next
    case 3
    moreover from this have "ocv_mv hi < w" using Cons.prems(3) by simp
    ultimately show ?thesis using Cons.IH [of hi x] Cons.prems by (simp add: ocv_scan_later)
  qed
qed

lemma ocv_scan_sorted_table:
  assumes "sorted_wrt ocv_before t" and "2 \<le> length t" and "ocv_mv (hd t) \<le> v"
  shows "v \<le> ocv_mv (last t) \<Longrightarrow> uint (ocv_scan v t) \<le> uint (ocv_percent_x2 (last t))"
    and "v \<le> w \<Longrightarrow> w \<le> ocv_mv (last t) \<Longrightarrow> uint (ocv_scan v t) \<le> uint (ocv_scan w t)"
proof -
  obtain lo hi rest where t: "t = lo # hi # rest"
    using assms(2) by (metis Suc_le_length_iff numeral_2_eq_2)
  have last: "last t = last (hi # rest)" by (simp add: t)
  show "v \<le> ocv_mv (last t) \<Longrightarrow> uint (ocv_scan v t) \<le> uint (ocv_percent_x2 (last t))"
    using ocv_scan_bounds [of lo hi rest v] assms unfolding last by (simp add: t)
  show "v \<le> w \<Longrightarrow> w \<le> ocv_mv (last t) \<Longrightarrow> uint (ocv_scan v t) \<le> uint (ocv_scan w t)"
    using ocv_scan_mono [of lo hi rest v w] assms unfolding last by (simp add: t)
qed

lemma OCV_TABLE_ends:
  "OCV_TABLE ! 0 = \<lparr>ocv_mv = 3000, ocv_percent_x2 = 0\<rparr>"
  "OCV_TABLE ! (length OCV_TABLE - 1) = \<lparr>ocv_mv = 4200, ocv_percent_x2 = 200\<rparr>"
  "hd OCV_TABLE = \<lparr>ocv_mv = 3000, ocv_percent_x2 = 0\<rparr>"
  "last OCV_TABLE = \<lparr>ocv_mv = 4200, ocv_percent_x2 = 200\<rparr>"
  "2 \<le> length OCV_TABLE"
  by (simp_all add: OCV_TABLE_def)

lemmas OCV_TABLE_scan =
  ocv_scan_sorted_table [OF OCV_TABLE_sorted OCV_TABLE_ends(5), unfolded OCV_TABLE_ends, simplified]

lemma ocv_lookup_cases:
  "soc_estimator_ocv_lookup_percent_x2 v =
     (if v \<le> 3000 then 0 else if 4200 \<le> v then 200 else ocv_scan v OCV_TABLE)"
  unfolding soc_estimator_ocv_lookup_percent_x2_def OCV_TABLE_ends by simp

lemma ocv_lookup_range: "uint (soc_estimator_ocv_lookup_percent_x2 v) \<le> 200"
  using OCV_TABLE_scan(1) [of v] by (auto simp: ocv_lookup_cases)

lemma ocv_lookup_mono:
  "v \<le> w \<Longrightarrow>
    uint (soc_estimator_ocv_lookup_percent_x2 v) \<le> uint (soc_estimator_ocv_lookup_percent_x2 w)"
  using OCV_TABLE_scan(1) [of v] OCV_TABLE_scan(2) [of v w] by (auto simp: ocv_lookup_cases)

end
