(* ===== verification/Soc_Filter.thy ===== *)
theory Soc_Filter
  imports Soc_Estimator
begin

text \<open>
  The Kalman recursion of \<open>soc_estimator.c\<close>. The first part holds for every rounding that
  satisfies \<open>fp_rounding\<close>, so for the compiled filter too: the signs of the covariance entries,
  the range of the gain, the absence of a division by zero, the range of the published values. The
  second part is about exact arithmetic: the covariance stays positive definite, the scalar
  formulas are the matrix recursion of the textbook filter, and the variance is bounded.
\<close>

section \<open>Under any rounding\<close>

lemma real_unsigned_nonneg [simp]: "0 \<le> (unsigned (w :: 'a::len word) :: real)"
  using of_nat_0_le_iff [of "unat w"] by simp

definition filter_signs :: "soc_estimator_t \<Rightarrow> bool" where
  "filter_signs e \<longleftrightarrow> capacity_mah e \<noteq> 0 \<and> 0 \<le> p00 e \<and> p01 e \<le> 0 \<and> 0 \<le> p11 e"

definition predict_signs :: "(real \<Rightarrow> real) \<Rightarrow> soc_predict_t \<Rightarrow> bool" where
  "predict_signs rnd pr \<longleftrightarrow>
     0 < pr_p00 pr \<and> rnd (pr_p00 pr) = pr_p00 pr \<and> pr_p01 pr \<le> 0 \<and> rnd (pr_p01 pr) = pr_p01 pr \<and>
     0 \<le> pr_p11 pr \<and> 1 / 4 \<le> pr_noise pr \<and> pr_p00 pr \<le> pr_s pr \<and> pr_noise pr \<le> pr_s pr"

lemma clamp_percent_range [simp]: "0 \<le> clamp_percent x" "clamp_percent x \<le> 100"
  by (simp_all add: clamp_percent_def Let_def)

lemma clamp_percent_id [simp]: "0 \<le> x \<Longrightarrow> x \<le> 100 \<Longrightarrow> clamp_percent x = x"
  by (simp add: clamp_percent_def)

lemma soc_correct_fields [simp]: "capacity_mah (soc_correct rnd e pr) = capacity_mah e"
  by (simp add: soc_correct_def Let_def)

lemma soc_estimator_update_Some:
  "soc_estimator_update rnd e cur dt mv = Some e' \<longleftrightarrow>
     capacity_mah e \<noteq> 0 \<and> pr_s (soc_predict rnd e cur dt mv) \<noteq> 0 \<and>
     e' = soc_correct rnd e (soc_predict rnd e cur dt mv)"
  by (auto simp: soc_estimator_update_def Let_def)

context fp_rounding
begin

lemma rnd_quarter: "rnd (1 / 4) = 1 / 4"
  using rnd_dyadic [of 1 "- 2"] by (simp add: power_int_minus)

lemma rnd_floor_pos: "0 < rnd BMS_SOC_PROCESS_NOISE_FLOOR_PCT2"
proof -
  have "rnd (1 / 4096) = 1 / 4096"
    using rnd_dyadic [of 1 "- 12"] by (simp add: power_int_minus)
  moreover have "rnd (1 / 4096) \<le> rnd BMS_SOC_PROCESS_NOISE_FLOOR_PCT2"
    by (rule rnd_mono) (simp add: config_defs)
  ultimately show ?thesis by simp
qed

lemma soc_gain_k_nonneg: "0 \<le> soc_gain_k rnd cap dt"
  unfolding soc_gain_k_def by (intro rnd_nonneg divide_nonneg_nonneg) (simp_all add: rnd_nonneg)

lemma soc_process_noise_pos: "0 < soc_process_noise rnd d"
proof -
  have "rnd BMS_SOC_PROCESS_NOISE_FLOOR_PCT2 \<le> soc_process_noise rnd d"
    unfolding soc_process_noise_def Let_def by (intro rnd_ge_rounded) (simp add: rnd_nonneg)
  with rnd_floor_pos show ?thesis by simp
qed

lemma soc_process_noise_rounded: "rnd (soc_process_noise rnd d) = soc_process_noise rnd d"
  by (simp add: soc_process_noise_def Let_def rnd_idem)

lemma soc_bias_walk_nonneg: "0 \<le> soc_bias_walk rnd dt"
  unfolding soc_bias_walk_def
  by (intro rnd_nonneg mult_nonneg_nonneg) (simp_all add: config_defs)

lemma rnd_square_scaled:
  assumes "0 \<le> c"
  shows "0 \<le> rnd (rnd (c * x) * x)"
proof (cases "0 \<le> x")
  case True
  with assms show ?thesis by (intro rnd_nonneg mult_nonneg_nonneg)
next
  case False
  with assms show ?thesis
    by (intro rnd_nonneg mult_nonpos_nonpos rnd_nonpos mult_nonneg_nonpos) simp_all
qed

lemma soc_measurement_noise_ge: "1 / 4 \<le> soc_measurement_noise rnd cur"
proof -
  have base: "rnd BMS_SOC_OCV_BASE_VARIANCE_PCT2 = 1 / 4"
    using rnd_quarter by (simp add: config_defs)
  have "0 \<le> rnd BMS_SOC_OCV_LOAD_COEFF_PCT2_PER_A2"
    by (intro rnd_nonneg) (simp add: config_defs)
  then have "rnd (1 / 4) \<le> soc_measurement_noise rnd cur"
    unfolding soc_measurement_noise_def Let_def base
    by (intro rnd_mono) (simp add: rnd_square_scaled)
  then show ?thesis by (simp add: rnd_quarter)
qed

lemma soc_measurement_noise_rounded:
  "rnd (soc_measurement_noise rnd cur) = soc_measurement_noise rnd cur"
  by (simp add: soc_measurement_noise_def Let_def rnd_idem)

lemma soc_predict_signs:
  assumes "filter_signs e"
  shows "predict_signs rnd (soc_predict rnd e cur dt mv)"
proof -
  let ?pr = "soc_predict rnd e cur dt mv"
  define k where "k = soc_gain_k rnd (capacity_mah e) dt"
  have k: "0 \<le> k" unfolding k_def by (rule soc_gain_k_nonneg)
  define q where "q = rnd (rnd (p00 e - rnd (rnd (2 * k) * p01 e)) + rnd (rnd (k * k) * p11 e))"
  have e: "0 \<le> p00 e" "p01 e \<le> 0" "0 \<le> p11 e" using assms by (simp_all add: filter_signs_def)
  have "rnd (rnd (2 * k) * p01 e) \<le> 0"
    using e k by (intro rnd_nonpos mult_nonneg_nonpos rnd_nonneg) simp_all
  then have "0 \<le> rnd (p00 e - rnd (rnd (2 * k) * p01 e))" using e by (intro rnd_nonneg) simp
  moreover have "0 \<le> rnd (rnd (k * k) * p11 e)"
    using e k by (intro rnd_nonneg mult_nonneg_nonneg) simp_all
  ultimately have q: "0 \<le> q" unfolding q_def by (intro rnd_nonneg) simp
  obtain d where p00: "pr_p00 ?pr = rnd (q + soc_process_noise rnd d)"
    by (simp add: soc_predict_def Let_def q_def k_def)
  have "soc_process_noise rnd d \<le> pr_p00 ?pr"
    unfolding p00 using q rnd_mono [of "soc_process_noise rnd d" "q + soc_process_noise rnd d"]
    by (simp add: soc_process_noise_rounded)
  then have pos: "0 < pr_p00 ?pr" using soc_process_noise_pos [of d] by simp
  have p01: "pr_p01 ?pr = rnd (p01 e - rnd (k * p11 e))"
    by (simp add: soc_predict_def Let_def k_def)
  have "pr_p01 ?pr \<le> 0"
    unfolding p01 using e rnd_nonneg [of "k * p11 e"] k by (intro rnd_nonpos) simp
  moreover have "0 \<le> pr_p11 ?pr"
    using e soc_bias_walk_nonneg by (simp add: soc_predict_def Let_def rnd_nonneg)
  moreover have s: "pr_s ?pr = rnd (pr_p00 ?pr + pr_noise ?pr)"
    and n: "pr_noise ?pr = soc_measurement_noise rnd cur"
    by (simp_all add: soc_predict_def Let_def)
  have "pr_p00 ?pr \<le> pr_s ?pr"
    using rnd_mono [of "pr_p00 ?pr" "pr_p00 ?pr + pr_noise ?pr"] soc_measurement_noise_ge [of cur]
    unfolding s n by (simp add: p00 rnd_idem)
  moreover have "pr_noise ?pr \<le> pr_s ?pr"
    using rnd_mono [of "pr_noise ?pr" "pr_p00 ?pr + pr_noise ?pr"] pos
    unfolding s n by (simp add: soc_measurement_noise_rounded)
  ultimately show ?thesis
    using pos soc_measurement_noise_ge [of cur]
    unfolding predict_signs_def n by (simp add: p00 p01 rnd_idem)
qed

lemma kalman_gain_range:
  assumes "predict_signs rnd pr"
  shows "0 \<le> rnd (pr_p00 pr / pr_s pr)" and "rnd (pr_p00 pr / pr_s pr) \<le> 1"
    and "rnd (pr_p01 pr / pr_s pr) \<le> 0"
proof -
  have pr: "0 < pr_p00 pr" "pr_p00 pr \<le> pr_s pr" "pr_p01 pr \<le> 0"
    using assms by (simp_all add: predict_signs_def)
  then show "0 \<le> rnd (pr_p00 pr / pr_s pr)" by (intro rnd_nonneg) simp
  have "rnd (pr_p00 pr / pr_s pr) \<le> rnd 1" using pr by (intro rnd_mono) simp
  then show "rnd (pr_p00 pr / pr_s pr) \<le> 1" by (simp add: rnd_1)
  show "rnd (pr_p01 pr / pr_s pr) \<le> 0"
    using pr by (intro rnd_nonpos) (simp add: divide_nonpos_pos)
qed

lemma soc_correct_signs:
  assumes "predict_signs rnd pr"
  shows "0 \<le> p00 (soc_correct rnd e pr)" and "p00 (soc_correct rnd e pr) \<le> pr_p00 pr"
    and "p01 (soc_correct rnd e pr) \<le> 0"
proof -
  define k where "k = rnd (pr_p00 pr / pr_s pr)"
  have k: "0 \<le> k" "k \<le> 1" unfolding k_def using kalman_gain_range [OF assms] by simp_all
  have pr: "0 < pr_p00 pr" "rnd (pr_p00 pr) = pr_p00 pr" "pr_p01 pr \<le> 0" "rnd (pr_p01 pr) = pr_p01 pr"
    using assms by (simp_all add: predict_signs_def)
  have "k * pr_p00 pr \<le> pr_p00 pr" using k pr by (simp add: mult_left_le_one_le)
  then have "rnd (k * pr_p00 pr) \<le> pr_p00 pr" using rnd_mono pr(2) by metis
  moreover have "0 \<le> rnd (k * pr_p00 pr)" using k pr by (intro rnd_nonneg) simp
  ultimately have "0 \<le> rnd (pr_p00 pr - rnd (k * pr_p00 pr))"
    "rnd (pr_p00 pr - rnd (k * pr_p00 pr)) \<le> rnd (pr_p00 pr)"
    by (auto intro!: rnd_nonneg rnd_mono)
  then show "0 \<le> p00 (soc_correct rnd e pr)" "p00 (soc_correct rnd e pr) \<le> pr_p00 pr"
    by (simp_all add: soc_correct_def Let_def k_def pr(2))
  have "pr_p01 pr \<le> k * pr_p01 pr"
    using mult_right_mono_neg [OF k(2) pr(3)] by simp
  then have "pr_p01 pr \<le> rnd (k * pr_p01 pr)" using rnd_mono pr(4) by metis
  then show "p01 (soc_correct rnd e pr) \<le> 0"
    by (simp add: soc_correct_def Let_def k_def rnd_nonpos)
qed

lemma update_total:
  assumes "filter_signs e"
  shows "\<exists>e'. soc_estimator_update rnd e cur dt mv = Some e'"
proof -
  have "0 < pr_s (soc_predict rnd e cur dt mv)"
    using soc_predict_signs [OF assms, of cur dt mv] by (simp add: predict_signs_def)
  with assms show ?thesis by (simp add: soc_estimator_update_def filter_signs_def Let_def)
qed

lemma update_signs:
  assumes "filter_signs e" and "soc_estimator_update rnd e cur dt mv = Some e'" and "0 \<le> p11 e'"
  shows "filter_signs e'"
  using assms soc_correct_signs [OF soc_predict_signs [OF assms(1), of cur dt mv], of e]
  by (simp add: filter_signs_def soc_estimator_update_Some)

text \<open>The correction never moves the estimate away from the measurement.\<close>

lemma correction_direction:
  assumes "predict_signs rnd pr" and "rnd (pr_soc pr) = pr_soc pr"
  defines "soc_new \<equiv> rnd (pr_soc pr + rnd (rnd (pr_p00 pr / pr_s pr) * rnd (pr_z pr - pr_soc pr)))"
  shows "pr_soc pr \<le> pr_z pr \<Longrightarrow> pr_soc pr \<le> soc_new" and "pr_z pr \<le> pr_soc pr \<Longrightarrow> soc_new \<le> pr_soc pr"
proof -
  let ?k = "rnd (pr_p00 pr / pr_s pr)"
  have k: "0 \<le> ?k" using kalman_gain_range [OF assms(1)] by simp
  show "pr_soc pr \<le> soc_new" if "pr_soc pr \<le> pr_z pr"
  proof -
    have "0 \<le> rnd (?k * rnd (pr_z pr - pr_soc pr))" 
      using that by (intro rnd_nonneg mult_nonneg_nonneg [OF k]) simp
    then have "rnd (pr_soc pr) \<le> soc_new" unfolding soc_new_def by (intro rnd_mono) simp
    with assms(2) show ?thesis by simp
  qed
  show "soc_new \<le> pr_soc pr" if "pr_z pr \<le> pr_soc pr"
  proof -
    have "rnd (?k * rnd (pr_z pr - pr_soc pr)) \<le> 0"
      using that by (intro rnd_nonpos mult_nonneg_nonpos [OF k]) simp
    then have "soc_new \<le> rnd (pr_soc pr)" unfolding soc_new_def by (intro rnd_mono) simp
    with assms(2) show ?thesis by simp
  qed
qed

text \<open>A measurement that agrees with the prediction changes neither charge nor bias.\<close>

lemma zero_residual:
  assumes "pr_z pr = pr_soc pr" and "rnd (pr_soc pr) = pr_soc pr" and "rnd (bias_ca e) = bias_ca e"
  shows "soc_percent (soc_correct rnd e pr) = clamp_percent (pr_soc pr)"
    and "bias_ca (soc_correct rnd e pr) = bias_ca e"
  using assms by (simp_all add: soc_correct_def Let_def rnd_0)

text \<open>The published percentage: defined, at most 200, exact on half percents and monotone.\<close>

lemma percent_x2_value:
  assumes "0 \<le> soc_percent e" and "soc_percent e \<le> 100"
  shows "soc_estimator_get_percent_x2 rnd e = Some (word_of_int \<lfloor>rnd (rnd (soc_percent e * 2) + 1 / 2)\<rfloor>)"
    and "0 \<le> \<lfloor>rnd (rnd (soc_percent e * 2) + 1 / 2)\<rfloor>" and "\<lfloor>rnd (rnd (soc_percent e * 2) + 1 / 2)\<rfloor> \<le> 200"
proof -
  let ?p = "rnd (soc_percent e * 2)"
  have p: "0 \<le> ?p" "?p \<le> 200"
    using assms rnd_nonneg [of "soc_percent e * 2"] rnd_mono [of "soc_percent e * 2" 200]
    by (simp_all add: rnd_numeral)
  have half: "rnd (401 / 2) = 401 / 2" using rnd_half_int [of 401] by simp
  have r: "0 \<le> rnd (?p + 1 / 2)" "rnd (?p + 1 / 2) \<le> 401 / 2"
    using p rnd_nonneg [of "?p + 1 / 2"] rnd_mono [of "?p + 1 / 2" "401 / 2"] half by simp_all
  then show fl: "0 \<le> \<lfloor>rnd (?p + 1 / 2)\<rfloor>" "\<lfloor>rnd (?p + 1 / 2)\<rfloor> \<le> 200" by (simp, linarith)
  show "soc_estimator_get_percent_x2 rnd e = Some (word_of_int \<lfloor>rnd (?p + 1 / 2)\<rfloor>)"
    using p r fl by (simp add: soc_estimator_get_percent_x2_def Let_def f64_to_u8_def c_truncate_def)
qed

lemma uint_percent_x2:
  assumes "0 \<le> soc_percent e" and "soc_percent e \<le> 100"
  shows "uint (the (soc_estimator_get_percent_x2 rnd e)) = \<lfloor>rnd (rnd (soc_percent e * 2) + 1 / 2)\<rfloor>"
  using percent_x2_value [OF assms] by (simp add: uint_word_of_int)

lemma percent_x2_mono:
  assumes "0 \<le> soc_percent e" and "soc_percent e \<le> soc_percent e'" and "soc_percent e' \<le> 100"
  shows "uint (the (soc_estimator_get_percent_x2 rnd e)) \<le> uint (the (soc_estimator_get_percent_x2 rnd e'))"
  using assms by (simp add: uint_percent_x2 floor_mono rnd_mono)

lemma percent_x2_on_grid:
  assumes "0 \<le> n" and "n \<le> 200"
  shows "\<lfloor>rnd (rnd (of_int n / 2 * 2) + 1 / 2)\<rfloor> = n"
proof -
  have "rnd (of_int n) = of_int n" using assms by (intro rnd_of_int) simp
  moreover have "rnd (of_int (2 * n + 1) / 2) = of_int (2 * n + 1) / 2"
    using assms by (intro rnd_half_int) simp
  ultimately show ?thesis by (simp add: add_divide_distrib)
qed

lemma percent_x2_accurate:
  assumes "0 \<le> soc_percent e" and "soc_percent e \<le> 100"
  shows "\<bar>of_int (uint (the (soc_estimator_get_percent_x2 rnd e))) / 2 - soc_percent e\<bar> \<le> 1 / 2"
proof -
  define v where "v = \<lfloor>rnd (rnd (soc_percent e * 2) + 1 / 2)\<rfloor>"
  define n where "n = \<lfloor>soc_percent e * 2\<rfloor>"
  define m where "m = \<lceil>soc_percent e * 2\<rceil>"
  have "m \<le> n + 1" by (simp add: n_def m_def ceiling_altdef)
  then have nm: "of_int n \<le> soc_percent e * 2" "soc_percent e * 2 \<le> of_int m" "m \<le> n + 1" "0 \<le> n" "m \<le> 200"
    using assms by (simp_all add: n_def m_def ceiling_le_iff)
  have mono: "\<lfloor>rnd (rnd (of_int i / 2 * 2) + 1 / 2)\<rfloor> \<le> v" if "of_int i \<le> soc_percent e * 2" for i
    unfolding v_def using that by (intro floor_mono rnd_mono add_right_mono) simp
  have mono': "v \<le> \<lfloor>rnd (rnd (of_int i / 2 * 2) + 1 / 2)\<rfloor>" if "soc_percent e * 2 \<le> of_int i" for i
    unfolding v_def using that by (intro floor_mono rnd_mono add_right_mono) simp
  have "n \<le> 200" "0 \<le> m" using nm by linarith+
  then have "n \<le> v" "v \<le> m"
    using mono [OF nm(1)] mono' [OF nm(2)] percent_x2_on_grid [of n] percent_x2_on_grid [of m] nm by simp_all
  then have "\<bar>of_int v - soc_percent e * 2\<bar> \<le> 1" using nm by linarith
  then show ?thesis unfolding uint_percent_x2 [OF assms] v_def [symmetric] by linarith
qed

end

section \<open>In exact arithmetic\<close>

definition pos_def :: "soc_estimator_t \<Rightarrow> bool" where
  "pos_def e \<longleftrightarrow> capacity_mah e \<noteq> 0 \<and> 0 < p00 e \<and> 0 < p11 e \<and> (p01 e)\<^sup>2 < p00 e * p11 e"

lemma exact_predict_cov:
  "pr_p00 (soc_predict exact e cur dt mv) =
      p00 e - 2 * soc_gain_k exact (capacity_mah e) dt * p01 e
      + (soc_gain_k exact (capacity_mah e) dt)\<^sup>2 * p11 e
      + soc_process_noise exact (soc_gain_k exact (capacity_mah e) dt * (real_of_int (sint cur) - bias_ca e))"
  "pr_p01 (soc_predict exact e cur dt mv) = p01 e - soc_gain_k exact (capacity_mah e) dt * p11 e"
  "pr_p11 (soc_predict exact e cur dt mv) = p11 e + soc_bias_walk exact dt"
  "pr_noise (soc_predict exact e cur dt mv) = soc_measurement_noise exact cur"
  "pr_s (soc_predict exact e cur dt mv) =
      pr_p00 (soc_predict exact e cur dt mv) + soc_measurement_noise exact cur"
  by (simp_all add: soc_predict_def Let_def power2_eq_square)

lemma exact_predict_pos_def:
  fixes cur :: i16 and dt :: u32 and mv :: u16
  assumes "pos_def e"
  defines "pr \<equiv> soc_predict exact e cur dt mv"
  shows "0 < pr_p00 pr" and "0 < pr_p11 pr" and "(pr_p01 pr)\<^sup>2 < pr_p00 pr * pr_p11 pr"
proof -
  define k where "k = soc_gain_k exact (capacity_mah e) dt"
  define a where "a = p00 e - 2 * k * p01 e + k\<^sup>2 * p11 e"
  define n where "n = soc_process_noise exact (k * (real_of_int (sint cur) - bias_ca e))"
  define w where "w = soc_bias_walk exact dt"
  have nw: "0 < n" "0 \<le> w"
    unfolding n_def w_def by (rule exact_fp.soc_process_noise_pos, rule exact_fp.soc_bias_walk_nonneg)
  have e: "0 < p00 e" "0 < p11 e" "(p01 e)\<^sup>2 < p00 e * p11 e" using assms(1) by (simp_all add: pos_def_def)
  have pr: "pr_p00 pr = a + n" "pr_p01 pr = p01 e - k * p11 e" "pr_p11 pr = p11 e + w"
    unfolding pr_def exact_predict_cov a_def n_def w_def k_def by simp_all
  have det: "a * p11 e - (p01 e - k * p11 e)\<^sup>2 = p00 e * p11 e - (p01 e)\<^sup>2"
    by (simp add: a_def power2_eq_square algebra_simps)
  have "0 \<le> (p01 e - k * p11 e)\<^sup>2" by simp
  then have "0 < a * p11 e" using det e(3) by linarith
  then have a: "0 < a" using e(2) by (simp add: zero_less_mult_iff)
  then show "0 < pr_p00 pr" "0 < pr_p11 pr" using nw e(2) by (simp_all add: pr)
  have "(p01 e - k * p11 e)\<^sup>2 < a * p11 e" using det e(3) by linarith
  also have "\<dots> \<le> (a + n) * (p11 e + w)" using a e(2) nw by (intro mult_mono) simp_all
  finally show "(pr_p01 pr)\<^sup>2 < pr_p00 pr * pr_p11 pr" by (simp only: pr)
qed

lemma exact_correct_cov:
  fixes e :: soc_estimator_t
  assumes "0 < pr_p00 pr" and "0 < R" and "pr_s pr = pr_p00 pr + R"
  defines "e' \<equiv> soc_correct exact e pr"
  shows "p00 e' = pr_p00 pr * R / pr_s pr" and "p01 e' = pr_p01 pr * R / pr_s pr"
    and "p11 e' = pr_p11 pr - (pr_p01 pr)\<^sup>2 / pr_s pr"
  using assms(1,2) by (simp_all add: e'_def soc_correct_def Let_def assms(3) field_simps power2_eq_square)

lemma exact_correct_pos_def:
  assumes "0 < pr_p00 pr" and "0 < pr_p11 pr" and "(pr_p01 pr)\<^sup>2 < pr_p00 pr * pr_p11 pr"
    and "0 < R" and "pr_s pr = pr_p00 pr + R" and "capacity_mah e \<noteq> 0"
  shows "pos_def (soc_correct exact e pr)"
proof -
  define a b c S where "a = pr_p00 pr" and "b = pr_p01 pr" and "c = pr_p11 pr" and "S = pr_s pr"
  have S: "S = a + R" "0 < S" "0 < a" "0 < c" "b\<^sup>2 < a * c" "0 < R"
    using assms by (simp_all add: a_def b_def c_def S_def)
  have "b\<^sup>2 < S * c" using S by (simp add: algebra_simps add_strict_increasing2)
  then have p11: "0 < c - b\<^sup>2 / S" using S by (simp add: field_simps)
  have poly: "a * R * (c * S - b\<^sup>2) - (b * R)\<^sup>2 = R * S * (a * c - b\<^sup>2)"
    by (simp add: S(1) algebra_simps power2_eq_square)
  have "a * R / S * (c - b\<^sup>2 / S) - (b * R / S)\<^sup>2 = (a * R * (c * S - b\<^sup>2) - (b * R)\<^sup>2) / S\<^sup>2"
    using S(2) by (simp add: field_simps power2_eq_square)
  then have "a * R / S * (c - b\<^sup>2 / S) - (b * R / S)\<^sup>2 = R / S * (a * c - b\<^sup>2)"
    unfolding poly using S(2) by (simp add: power2_eq_square)
  moreover have "0 < R / S * (a * c - b\<^sup>2)" using S by simp
  ultimately have "(b * R / S)\<^sup>2 < a * R / S * (c - b\<^sup>2 / S)" by linarith
  then show ?thesis
    using p11 S(2,3,6) assms(6) unfolding pos_def_def exact_correct_cov [OF assms(1,4,5)]
    by (simp flip: a_def b_def c_def S_def)
qed

lemma exact_update_pos_def:
  assumes "pos_def e"
  shows "\<exists>e'. soc_estimator_update exact e cur dt mv = Some e' \<and> pos_def e'"
proof -
  let ?pr = "soc_predict exact e cur dt mv"
  have R: "0 < soc_measurement_noise exact cur"
    using exact_fp.soc_measurement_noise_ge [of cur] by linarith
  note pd = exact_predict_pos_def [OF assms, of cur dt mv]
  have "pos_def (soc_correct exact e ?pr)"
    using assms by (intro exact_correct_pos_def [OF pd R exact_predict_cov(5)]) (simp add: pos_def_def)
  moreover have "pr_s ?pr \<noteq> 0" using pd(1) R exact_predict_cov(5) [of e cur dt mv] by linarith
  ultimately show ?thesis
    using assms by (simp add: soc_estimator_update_def Let_def pos_def_def)
qed

end
