(* ===== verification/Soc_Kalman.thy ===== *)
theory Soc_Kalman
  imports Soc_Filter
begin

text \<open>
  The State of Charge filter against its specification. The reference is the textbook Kalman
  filter with 2x2 matrices, in the form the comments of \<open>soc_estimator.c\<close> cite
  (\<open>F P F^T + Q\<close>, \<open>(I - K H) P\<close>); the scalar code computes it in exact arithmetic.
  The properties of the estimator that the tasks rely on follow: range, direction and accuracy of
  the estimate, definedness, positive definiteness along every run.
\<close>

section \<open>The textbook filter\<close>

text \<open>A 2x2 matrix by rows, and a column vector.\<close>

datatype mat2 = Mat2 real real real real

datatype vec2 = Vec2 real real

fun mat_add :: "mat2 \<Rightarrow> mat2 \<Rightarrow> mat2" where
  "mat_add (Mat2 a b c d) (Mat2 a' b' c' d') = Mat2 (a + a') (b + b') (c + c') (d + d')"

fun mat_sub :: "mat2 \<Rightarrow> mat2 \<Rightarrow> mat2" where
  "mat_sub (Mat2 a b c d) (Mat2 a' b' c' d') = Mat2 (a - a') (b - b') (c - c') (d - d')"

fun mat_mul :: "mat2 \<Rightarrow> mat2 \<Rightarrow> mat2" where
  "mat_mul (Mat2 a b c d) (Mat2 a' b' c' d') =
     Mat2 (a * a' + b * c') (a * b' + b * d') (c * a' + d * c') (c * b' + d * d')"

fun mat_transpose :: "mat2 \<Rightarrow> mat2" where
  "mat_transpose (Mat2 a b c d) = Mat2 a c b d"

fun mat_vec :: "mat2 \<Rightarrow> vec2 \<Rightarrow> vec2" where
  "mat_vec (Mat2 a b c d) (Vec2 x y) = Vec2 (a * x + b * y) (c * x + d * y)"

fun vec_add :: "vec2 \<Rightarrow> vec2 \<Rightarrow> vec2" where
  "vec_add (Vec2 x y) (Vec2 x' y') = Vec2 (x + x') (y + y')"

fun vec_scale :: "real \<Rightarrow> vec2 \<Rightarrow> vec2" where
  "vec_scale r (Vec2 x y) = Vec2 (r * x) (r * y)"

fun vec_dot :: "vec2 \<Rightarrow> vec2 \<Rightarrow> real" where
  "vec_dot (Vec2 x y) (Vec2 x' y') = x * x' + y * y'"

fun vec_outer :: "vec2 \<Rightarrow> vec2 \<Rightarrow> mat2" where
  "vec_outer (Vec2 x y) (Vec2 x' y') = Mat2 (x * x') (x * y') (y * x') (y * y')"

definition mat_id :: mat2 where "mat_id = Mat2 1 0 0 1"

text \<open>
  One cycle for a state \<open>x\<close> with covariance \<open>P\<close>: transition \<open>F\<close> with control
  input \<open>u\<close> and process noise \<open>Q\<close>, then fusion of the scalar measurement \<open>z\<close> seen
  through the row vector \<open>H\<close> with noise \<open>R\<close>.
\<close>

definition kalman_predict :: "mat2 \<Rightarrow> vec2 \<Rightarrow> mat2 \<Rightarrow> vec2 \<times> mat2 \<Rightarrow> vec2 \<times> mat2" where
  "kalman_predict F u Q = (\<lambda>(x, P).
     (vec_add (mat_vec F x) u, mat_add (mat_mul (mat_mul F P) (mat_transpose F)) Q))"

definition kalman_fuse :: "vec2 \<Rightarrow> real \<Rightarrow> real \<Rightarrow> vec2 \<times> mat2 \<Rightarrow> vec2 \<times> mat2" where
  "kalman_fuse H R z = (\<lambda>(x, P).
     let S = vec_dot H (mat_vec P H) + R;
         K = vec_scale (1 / S) (mat_vec P H)
     in (vec_add x (vec_scale (z - vec_dot H x) K), mat_mul (mat_sub mat_id (vec_outer K H)) P))"

text \<open>The estimator's state and covariance as vector and matrix, and the model it is tuned for.\<close>

definition soc_state :: "soc_estimator_t \<Rightarrow> vec2" where
  "soc_state e = Vec2 (soc_percent e) (bias_ca e)"

definition soc_cov :: "soc_estimator_t \<Rightarrow> mat2" where
  "soc_cov e = Mat2 (p00 e) (p01 e) (p01 e) (p11 e)"

definition soc_kalman_cycle :: "soc_estimator_t \<Rightarrow> i16 \<Rightarrow> u32 \<Rightarrow> u16 \<Rightarrow> vec2 \<times> mat2" where
  "soc_kalman_cycle e current_ca dt_ms avg_cell_mv =
     (let k = real_of_int (uint dt_ms) / (3600 * real_of_int (uint (capacity_mah e)));
          I = real_of_int (sint current_ca);
          move = k * (I - bias_ca e)
      in kalman_fuse
           (Vec2 1 0)
           (BMS_SOC_OCV_BASE_VARIANCE_PCT2 + BMS_SOC_OCV_LOAD_COEFF_PCT2_PER_A2 * (I / 100)\<^sup>2)
           (real_of_int (uint (soc_estimator_ocv_lookup_percent_x2 avg_cell_mv)) / 2)
           (kalman_predict
             (Mat2 1 (- k) 0 1)
             (Vec2 (k * I) 0)
             (Mat2 (BMS_SOC_PROCESS_NOISE_FLOOR_PCT2 + (BMS_SOC_CURRENT_SENSE_ERROR_FRAC * move)\<^sup>2) 0
                   0 (BMS_SOC_BIAS_RANDOM_WALK_CA2_PER_S * (real_of_int (uint dt_ms) / 1000)))
             (soc_state e, soc_cov e)))"

fun clamp_soc :: "vec2 \<Rightarrow> vec2" where
  "clamp_soc (Vec2 soc bias) = Vec2 (clamp_percent soc) bias"

lemma exact_predict_state:
  "pr_soc (soc_predict exact e cur dt mv) =
     soc_percent e + soc_gain_k exact (capacity_mah e) dt * (real_of_int (sint cur) - bias_ca e)"
  "pr_z (soc_predict exact e cur dt mv) = real_of_int (uint (soc_estimator_ocv_lookup_percent_x2 mv)) / 2"
  by (simp_all add: soc_predict_def Let_def)

lemma exact_correct_state:
  "soc_percent (soc_correct exact e pr) =
     clamp_percent (pr_soc pr + pr_p00 pr / pr_s pr * (pr_z pr - pr_soc pr))"
  "bias_ca (soc_correct exact e pr) = bias_ca e + pr_p01 pr / pr_s pr * (pr_z pr - pr_soc pr)"
  by (simp_all add: soc_correct_def Let_def)

lemma exact_correct_joseph:
  "p00 (soc_correct exact e pr) = (1 - pr_p00 pr / pr_s pr) * pr_p00 pr"
  "p01 (soc_correct exact e pr) = (1 - pr_p00 pr / pr_s pr) * pr_p01 pr"
  "p11 (soc_correct exact e pr) = pr_p11 pr - pr_p01 pr / pr_s pr * pr_p01 pr"
  by (simp_all add: soc_correct_def Let_def left_diff_distrib)

lemma soc_kalman_cycle_eq:
  fixes e :: soc_estimator_t and cur :: i16 and dt :: u32 and mv :: u16
  defines "pr \<equiv> soc_predict exact e cur dt mv"
  shows "soc_kalman_cycle e cur dt mv =
    (Vec2 (pr_soc pr + pr_p00 pr / pr_s pr * (pr_z pr - pr_soc pr))
          (bias_ca e + pr_p01 pr / pr_s pr * (pr_z pr - pr_soc pr)),
     Mat2 ((1 - pr_p00 pr / pr_s pr) * pr_p00 pr) ((1 - pr_p00 pr / pr_s pr) * pr_p01 pr)
          (pr_p01 pr - pr_p01 pr / pr_s pr * pr_p00 pr) (pr_p11 pr - pr_p01 pr / pr_s pr * pr_p01 pr))"
proof -
  define k where "k = real_of_int (uint dt) / (3600 * real_of_int (uint (capacity_mah e)))"
  define I where "I = real_of_int (sint cur)"
  define q where "q = BMS_SOC_PROCESS_NOISE_FLOOR_PCT2 + (BMS_SOC_CURRENT_SENSE_ERROR_FRAC * (k * (I - bias_ca e)))\<^sup>2"
  define w where "w = BMS_SOC_BIAS_RANDOM_WALK_CA2_PER_S * (real_of_int (uint dt) / 1000)"
  define R where "R = BMS_SOC_OCV_BASE_VARIANCE_PCT2 + BMS_SOC_OCV_LOAD_COEFF_PCT2_PER_A2 * (I / 100)\<^sup>2"
  define z where "z = real_of_int (uint (soc_estimator_ocv_lookup_percent_x2 mv)) / 2"
  have k: "soc_gain_k exact (capacity_mah e) dt = k"
    by (simp add: soc_gain_k_def k_def)
  have pr: "pr_soc pr = soc_percent e + k * (I - bias_ca e)" "pr_z pr = z"
    "pr_p00 pr = p00 e - 2 * k * p01 e + k\<^sup>2 * p11 e + q" "pr_p01 pr = p01 e - k * p11 e"
    "pr_p11 pr = p11 e + w" "pr_s pr = pr_p00 pr + R"
    unfolding pr_def exact_predict_cov exact_predict_state k
    by (simp_all add: I_def q_def w_def R_def z_def soc_process_noise_def soc_bias_walk_def
        soc_measurement_noise_def Let_def power2_eq_square)
  have predict: "kalman_predict (Mat2 1 (- k) 0 1) (Vec2 (k * I) 0) (Mat2 q 0 0 w) (soc_state e, soc_cov e) =
      (Vec2 (pr_soc pr) (bias_ca e), Mat2 (pr_p00 pr) (pr_p01 pr) (pr_p01 pr) (pr_p11 pr))"
    by (simp add: kalman_predict_def soc_state_def soc_cov_def pr(1,3,4,5) algebra_simps power2_eq_square)
  have "soc_kalman_cycle e cur dt mv =
      kalman_fuse (Vec2 1 0) R z
        (kalman_predict (Mat2 1 (- k) 0 1) (Vec2 (k * I) 0) (Mat2 q 0 0 w) (soc_state e, soc_cov e))"
    by (simp add: soc_kalman_cycle_def Let_def k_def I_def q_def w_def R_def z_def)
  then show ?thesis
    unfolding predict kalman_fuse_def
    by (simp add: Let_def pr(2,6) mat_id_def algebra_simps)
qed


section \<open>Runs of the estimator\<close>

text \<open>
  A run folds \<^const>\<open>soc_estimator_update\<close> over a sequence of samples (current, interval,
  average cell voltage), which is what the loop of \<open>task_soc.c\<close> does with its estimator.
\<close>

type_synonym soc_sample = "i16 \<times> u32 \<times> u16"

fun soc_run :: "(real \<Rightarrow> real) \<Rightarrow> soc_estimator_t \<Rightarrow> soc_sample list \<Rightarrow> soc_estimator_t option" where
  "soc_run rnd e [] = Some e"
| "soc_run rnd e ((cur, dt, mv) # ms) =
     (case soc_estimator_update rnd e cur dt mv of None \<Rightarrow> None | Some e' \<Rightarrow> soc_run rnd e' ms)"

definition soc_in_range :: "soc_estimator_t \<Rightarrow> bool" where
  "soc_in_range e \<longleftrightarrow> 0 \<le> soc_percent e \<and> soc_percent e \<le> 100"

lemma soc_in_range_update [intro]:
  "soc_estimator_update rnd e cur dt mv = Some e' \<Longrightarrow> soc_in_range e'"
  by (auto simp: soc_estimator_update_Some soc_in_range_def soc_correct_def Let_def)

lemma soc_init_exact [simp]: "cap \<noteq> 0 \<Longrightarrow> pos_def (soc_estimator_init exact cap)"
  "soc_in_range (soc_estimator_init rnd cap)"
  by (simp_all add: pos_def_def soc_estimator_init_def config_defs soc_in_range_def)

lemma soc_run_exact:
  "pos_def e \<Longrightarrow> soc_in_range e \<Longrightarrow> \<exists>e'. soc_run exact e ms = Some e' \<and> pos_def e' \<and> soc_in_range e'"
proof (induction ms arbitrary: e)
  case Nil
  then show ?case by simp
next
  case (Cons m ms)
  obtain cur dt mv where m: "m = (cur, dt, mv)" by (cases m)
  obtain e' where e': "soc_estimator_update exact e cur dt mv = Some e'" "pos_def e'"
    using exact_update_pos_def [OF Cons.prems(1)] by blast
  with Cons.IH [OF e'(2) soc_in_range_update [OF e'(1)]] show ?case
    by (simp add: m del: exact_def)
qed

lemma filter_signs_init [simp]: "cap \<noteq> 0 \<Longrightarrow> filter_signs (soc_estimator_init round_f64 cap)"
  using f64.rnd_1 f64.rnd_numeral [of "num.Bit1 (num.Bit0 (num.Bit0 (num.Bit1 num.One)))"]
  by (simp add: filter_signs_def soc_estimator_init_def config_defs f64.rnd_nonneg)

lemma exact_update_cov_bounds:
  assumes "pos_def e" and "soc_estimator_update exact e cur dt mv = Some e'"
  shows "0 < p00 e'" and "p00 e' < pr_p00 (soc_predict exact e cur dt mv)"
    and "p00 e' < soc_measurement_noise exact cur"
proof -
  let ?pr = "soc_predict exact e cur dt mv"
  let ?R = "soc_measurement_noise exact cur"
  have R: "0 < ?R" using exact_fp.soc_measurement_noise_ge [of cur] by linarith
  note pd = exact_predict_pos_def [OF assms(1), of cur dt mv]
  have e': "p00 e' = pr_p00 ?pr * ?R / pr_s ?pr"
    using assms(2) exact_correct_cov(1) [OF pd(1) R exact_predict_cov(5)]
    by (simp add: soc_estimator_update_Some)
  have s: "pr_s ?pr = pr_p00 ?pr + ?R" by (rule exact_predict_cov(5))
  show "0 < p00 e'" using pd(1) R unfolding e' s by simp
  show "p00 e' < pr_p00 ?pr" "p00 e' < ?R"
    using pd(1) R unfolding e' s by (simp_all add: divide_less_eq algebra_simps)
qed

lemma predict_ignores_mv:
  "pr_p00 (soc_predict rnd e cur dt mv) = pr_p00 (soc_predict rnd e cur dt mv')"
  "pr_p01 (soc_predict rnd e cur dt mv) = pr_p01 (soc_predict rnd e cur dt mv')"
  "pr_p11 (soc_predict rnd e cur dt mv) = pr_p11 (soc_predict rnd e cur dt mv')"
  "pr_s (soc_predict rnd e cur dt mv) = pr_s (soc_predict rnd e cur dt mv')"
  by (simp_all add: soc_predict_def Let_def)

lemma correct_cov_of_predict_cov:
  assumes "pr_p00 pr = pr_p00 pr'" "pr_p01 pr = pr_p01 pr'" "pr_p11 pr = pr_p11 pr'" "pr_s pr = pr_s pr'"
  shows "soc_cov (soc_correct rnd e pr) = soc_cov (soc_correct rnd e pr')"
  using assms by (simp add: soc_cov_def soc_correct_def Let_def)

lemma predict_soc_rounded:
  "round_f64 (pr_soc (soc_predict round_f64 e cur dt mv)) = pr_soc (soc_predict round_f64 e cur dt mv)"
  by (simp add: soc_predict_def Let_def round_f64_idem)

lemma clamp_percent_mono: "x \<le> y \<Longrightarrow> clamp_percent x \<le> clamp_percent y"
  by (simp add: clamp_percent_def Let_def)

lemma update_soc_eq:
  assumes "soc_estimator_update rnd e cur dt mv = Some e'"
  defines "pr \<equiv> soc_predict rnd e cur dt mv"
  shows "soc_percent e' =
    clamp_percent (rnd (pr_soc pr + rnd (rnd (pr_p00 pr / pr_s pr) * rnd (pr_z pr - pr_soc pr))))"
  using assms by (simp add: soc_estimator_update_Some soc_correct_def Let_def)

lemma f64_error_below_256: "\<bar>x\<bar> \<le> 256 \<Longrightarrow> \<bar>round_f64 x - x\<bar> \<le> 2 powi (- 45)"
  using round_f64_near [of x 256] by (simp add: power_int_minus)

lemma percent_x2_f64_error:
  assumes "0 \<le> soc_percent e" and "soc_percent e \<le> 100"
  shows "\<bar>of_int \<lfloor>round_f64 (round_f64 (soc_percent e * 2) + 1 / 2)\<rfloor> - 2 * soc_percent e\<bar>
    \<le> 1 / 2 + 2 powi (- 44)"
proof -
  define p where "p = round_f64 (soc_percent e * 2)"
  define y where "y = round_f64 (p + 1 / 2)"
  have p: "\<bar>p - soc_percent e * 2\<bar> \<le> 2 powi (- 45)"
    unfolding p_def using assms by (intro f64_error_below_256) simp
  have tiny: "(2 powi (- 45) :: real) \<le> 1" by (simp add: power_int_minus)
  have "\<bar>p + 1 / 2\<bar> \<le> 256" using p tiny assms by linarith
  then have y: "\<bar>y - (p + 1 / 2)\<bar> \<le> 2 powi (- 45)" unfolding y_def by (rule f64_error_below_256)
  have two: "(2 powi (- 44) :: real) = 2 * 2 powi (- 45)" by (simp add: power_int_minus)
  have "of_int \<lfloor>y\<rfloor> \<le> y" "y < of_int \<lfloor>y\<rfloor> + 1" by linarith+
  with p y show ?thesis unfolding p_def [symmetric] y_def [symmetric] two by linarith
qed

lemma ocv_scan_segment:
  assumes "sorted_wrt ocv_before t" and "Suc i < length t"
    and "ocv_mv (t ! i) < v" and "v \<le> ocv_mv (t ! Suc i)"
  shows "uint (ocv_scan v t) = ocv_interpolate (t ! i) (t ! Suc i) v"
  using assms
proof (induction t arbitrary: i)
  case Nil
  then show ?case by simp
next
  case (Cons lo t)
  then obtain hi rest where t: "t = hi # rest" by (cases t) auto
  show ?case
  proof (cases i)
    case 0
    with Cons.prems show ?thesis unfolding t by (intro ocv_scan_here [THEN trans]) simp_all
  next
    case (Suc j)
    have "ocv_mv hi \<le> ocv_mv (t ! j)"
    proof (cases j)
      case 0
      then show ?thesis by (simp add: t)
    next
      case (Suc l)
      then have "t ! j \<in> set rest" using Cons.prems(2) \<open>i = Suc j\<close> t by simp
      then show ?thesis using Cons.prems(1) t by (auto simp: ocv_before_def)
    qed
    then have "ocv_mv hi < v" using Cons.prems(3) Suc by simp
    then have "ocv_scan v (lo # t) = ocv_scan v t" unfolding t by (rule ocv_scan_later)
    with Cons.IH [of j] Cons.prems Suc show ?thesis by simp
  qed
qed

section \<open>Properties\<close>

text \<open>
  C3. In exact arithmetic the scalar code of the update is the textbook Kalman filter: from any
  estimator with positive definite covariance it returns, its state is the matrix filter's state
  with the charge clamped to the percent range, and its covariance entries are those of the
  symmetric matrix \<open>(I - K H) (F P F^T + Q)\<close>.
\<close>

theorem soc_update_is_kalman:
  assumes "pos_def e"
  shows "\<exists>e'. soc_estimator_update exact e cur dt mv = Some e' \<and>
    soc_state e' = clamp_soc (fst (soc_kalman_cycle e cur dt mv)) \<and>
    soc_cov e' = snd (soc_kalman_cycle e cur dt mv)"
proof -
  obtain e' where e': "soc_estimator_update exact e cur dt mv = Some e'"
    using exact_update_pos_def [OF assms] by blast
  then have "e' = soc_correct exact e (soc_predict exact e cur dt mv)"
    by (simp add: soc_estimator_update_Some)
  then show ?thesis
    unfolding soc_kalman_cycle_eq
    by (intro exI [of _ e']) (simp add: e' soc_state_def soc_cov_def exact_correct_state
        exact_correct_joseph algebra_simps)
qed

theorem soc_update_is_kalman_witness:
  "\<exists>e'. soc_estimator_update exact (soc_estimator_init exact BMS_PACK_CAPACITY_MAH) (- 200) 500 3700 = Some e' \<and>
    soc_state e' = clamp_soc (fst (soc_kalman_cycle (soc_estimator_init exact BMS_PACK_CAPACITY_MAH) (- 200) 500 3700)) \<and>
    soc_cov e' = snd (soc_kalman_cycle (soc_estimator_init exact BMS_PACK_CAPACITY_MAH) (- 200) 500 3700)"
  by (rule soc_update_is_kalman) (simp add: config_defs)

text \<open>
  In exact arithmetic no run of the estimator divides by zero, whatever the samples: starting
  from an initialised estimator with a non-zero capacity every update returns, the covariance stays
  positive definite and the charge stays between 0 and 100 percent.
\<close>

lemma soc_run_positive_definite:
  assumes "cap \<noteq> 0"
  shows "\<exists>e'. soc_run exact (soc_estimator_init exact cap) ms = Some e' \<and>
    0 < p00 e' \<and> 0 < p11 e' \<and> (p01 e')\<^sup>2 < p00 e' * p11 e' \<and>
    0 \<le> soc_percent e' \<and> soc_percent e' \<le> 100"
  using soc_run_exact [OF soc_init_exact(1) [OF assms] soc_init_exact(2), of ms]
  by (auto simp: pos_def_def soc_in_range_def)

text \<open>
  The compiled update, in double precision, is defined and keeps its ranges: from a filter whose
  variances are non-negative and whose correlation is not positive it returns, with the charge
  between 0 and 100 percent, a charge variance that is non-negative and no larger than the predicted
  one, and a correlation that is not positive.
\<close>

lemma soc_update_f64_in_range:
  assumes "filter_signs e"
  shows "\<exists>e'. soc_estimator_update round_f64 e cur dt mv = Some e' \<and>
    0 \<le> soc_percent e' \<and> soc_percent e' \<le> 100 \<and>
    0 \<le> p00 e' \<and> p00 e' \<le> pr_p00 (soc_predict round_f64 e cur dt mv) \<and> p01 e' \<le> 0"
proof -
  obtain e' where e': "soc_estimator_update round_f64 e cur dt mv = Some e'"
    using f64.update_total [OF assms] by blast
  then have "e' = soc_correct round_f64 e (soc_predict round_f64 e cur dt mv)"
    by (simp add: soc_estimator_update_Some)
  with e' soc_in_range_update [OF e'] f64.soc_correct_signs [OF f64.soc_predict_signs [OF assms], of e cur dt mv]
  show ?thesis by (simp add: soc_in_range_def)
qed

text \<open>
  The compiled correction never moves the charge away from the measurement: if the
  open-circuit-voltage reading is at or above the prediction the new estimate is not below the
  (clamped) prediction, if it is at or below the new estimate is not above it, and if they agree the
  estimate is the prediction and the bias is left alone.
\<close>

lemma soc_correction_direction:
  assumes "filter_signs e" and "soc_estimator_update round_f64 e cur dt mv = Some e'"
  defines "pr \<equiv> soc_predict round_f64 e cur dt mv"
  shows "(pr_soc pr \<le> pr_z pr \<longrightarrow> clamp_percent (pr_soc pr) \<le> soc_percent e') \<and>
    (pr_z pr \<le> pr_soc pr \<longrightarrow> soc_percent e' \<le> clamp_percent (pr_soc pr)) \<and>
    (pr_z pr = pr_soc pr \<longrightarrow> bias_ca e' = round_f64 (bias_ca e))"
proof -
  note signs = f64.soc_predict_signs [OF assms(1), of cur dt mv, folded pr_def]
  note rounded = predict_soc_rounded [of e cur dt mv, folded pr_def]
  note dir = f64.correction_direction [OF signs rounded]
  have bias: "bias_ca e' = round_f64 (bias_ca e)" if "pr_z pr = pr_soc pr"
    using that assms(2) unfolding pr_def
    by (simp add: soc_estimator_update_Some soc_correct_def Let_def f64.rnd_0)
  show ?thesis
    unfolding update_soc_eq [OF assms(2), folded pr_def]
    by (intro conjI impI clamp_percent_mono dir bias) simp_all
qed

text \<open>
  The published percentage is defined for every estimate in range, never exceeds 200 half
  percents, and is the nearest half percent up to the rounding of the two double operations: the
  error is at most a quarter percent plus \<open>2 ^ -45\<close>.
\<close>

lemma percent_x2_nearest:
  assumes "0 \<le> soc_percent e" and "soc_percent e \<le> 100"
  shows "\<exists>v. soc_estimator_get_percent_x2 round_f64 e = Some v \<and> uint v \<le> 200 \<and>
    \<bar>of_int (uint v) / 2 - soc_percent e\<bar> \<le> 1 / 4 + 2 powi (- 45)"
proof -
  let ?n = "\<lfloor>round_f64 (round_f64 (soc_percent e * 2) + 1 / 2)\<rfloor>"
  note v = f64.percent_x2_value [OF assms]
  have two: "(2 powi (- 44) :: real) = 2 * 2 powi (- 45)" by (simp add: power_int_minus)
  have "\<bar>of_int ?n / 2 - soc_percent e\<bar> \<le> 1 / 4 + 2 powi (- 45)"
    using percent_x2_f64_error [OF assms] unfolding two by linarith
  moreover have u: "uint (word_of_int ?n :: u8) = ?n" using v(2,3) by (simp add: uint_word_of_int)
  ultimately show ?thesis
    using v(1,3) by (intro exI [of _ "word_of_int ?n"]) (simp only: u simp_thms)
qed

text \<open>Between two neighbouring points the lookup is the floor of the straight line through them.\<close>

lemma ocv_lookup_segment:
  assumes "Suc i < length OCV_TABLE" and "ocv_mv (OCV_TABLE ! i) < v" and "v \<le> ocv_mv (OCV_TABLE ! Suc i)"
  defines "lo \<equiv> OCV_TABLE ! i" and "hi \<equiv> OCV_TABLE ! Suc i"
  shows "uint (soc_estimator_ocv_lookup_percent_x2 v) =
    \<lfloor>of_int (uint (ocv_percent_x2 lo)) +
      (of_int (uint (ocv_percent_x2 hi)) - of_int (uint (ocv_percent_x2 lo))) *
      (of_int (uint v) - of_int (uint (ocv_mv lo))) /
      (of_int (uint (ocv_mv hi)) - of_int (uint (ocv_mv lo)) :: real)\<rfloor>"
proof -
  have before: "ocv_before lo hi"
    using sorted_wrt_nth_less [OF OCV_TABLE_sorted, of i "Suc i"] assms(1) by (simp add: lo_def hi_def)
  have "\<forall>p\<in>set OCV_TABLE. 3000 \<le> ocv_mv p \<and> ocv_mv p \<le> 4200" by (simp add: OCV_TABLE_def)
  then have v: "3000 < v" "v \<le> 4200"
    using assms(1-3) by (meson Suc_lessD le_less_trans nth_mem, meson nth_mem order_trans)
  have "ocv_scan 4200 OCV_TABLE = 200" by code_simp
  with v have "soc_estimator_ocv_lookup_percent_x2 v = ocv_scan v OCV_TABLE"
    by (auto simp: ocv_lookup_cases linorder_not_le [symmetric])
  then have "uint (soc_estimator_ocv_lookup_percent_x2 v) = ocv_interpolate lo hi v"
    using ocv_scan_segment [OF OCV_TABLE_sorted assms(1-3)] by (simp only: lo_def hi_def)
  also have "\<dots> = uint (ocv_percent_x2 lo) +
    (uint (ocv_percent_x2 hi) - uint (ocv_percent_x2 lo)) * (uint v - uint (ocv_mv lo)) div
      (uint (ocv_mv hi) - uint (ocv_mv lo))"
    using assms(2) by (intro ocv_interpolate_eq [OF before]) (simp add: lo_def)
  finally show ?thesis
    by (simp only: floor_divide_of_int_eq int_add_floor [symmetric] flip: of_int_diff of_int_mult)
qed

lemma segment_exists:
  fixes v :: "'k :: linorder"
  shows "xs \<noteq> [] \<Longrightarrow> f (hd xs) < v \<Longrightarrow> v \<le> f (last xs) \<Longrightarrow>
    \<exists>i. Suc i < length xs \<and> f (xs ! i) < v \<and> v \<le> f (xs ! Suc i)"
proof (induction xs)
  case (Cons x xs)
  show ?case
  proof (cases "xs \<noteq> [] \<and> f (hd xs) < v")
    case True
    then obtain i where "Suc i < length xs" "f (xs ! i) < v" "v \<le> f (xs ! Suc i)" using Cons by auto
    then show ?thesis by (intro exI [of _ "Suc i"]) simp
  next
    case False
    then show ?thesis using Cons.prems by (intro exI [of _ 0]) (cases xs; auto)
  qed
qed simp

lemma ocv_lookup_ends:
  "v \<le> ocv_mv (hd OCV_TABLE) \<Longrightarrow> soc_estimator_ocv_lookup_percent_x2 v = ocv_percent_x2 (hd OCV_TABLE)"
  "ocv_mv (last OCV_TABLE) \<le> v \<Longrightarrow> soc_estimator_ocv_lookup_percent_x2 v = ocv_percent_x2 (last OCV_TABLE)"
proof -
  show "v \<le> ocv_mv (hd OCV_TABLE) \<Longrightarrow> soc_estimator_ocv_lookup_percent_x2 v = ocv_percent_x2 (hd OCV_TABLE)"
    by (simp add: ocv_lookup_cases OCV_TABLE_def)
  assume "ocv_mv (last OCV_TABLE) \<le> v"
  then have v: "4200 \<le> v" by (simp add: OCV_TABLE_def)
  have "\<not> v \<le> 3000"
  proof
    assume "v \<le> 3000"
    with v have "(4200 :: u16) \<le> 3000" by (rule order_trans)
    then show False by simp
  qed
  with v show "soc_estimator_ocv_lookup_percent_x2 v = ocv_percent_x2 (last OCV_TABLE)"
    by (simp add: ocv_lookup_cases OCV_TABLE_def)
qed

text \<open>
  C28. The table lookup is a piecewise linear function of the whole 16-bit range: at or below the first point it
  is the first percentage, at or above the last point the last percentage, and in between it is the
  straight line through the two neighbouring points, rounded down. So the loop never falls through to its
  last statement.
\<close>

theorem ocv_lookup_interpolates:
  "if v \<le> ocv_mv (hd OCV_TABLE) then soc_estimator_ocv_lookup_percent_x2 v = ocv_percent_x2 (hd OCV_TABLE)
   else if ocv_mv (last OCV_TABLE) \<le> v then soc_estimator_ocv_lookup_percent_x2 v = ocv_percent_x2 (last OCV_TABLE)
   else \<exists>i. Suc i < length OCV_TABLE \<and> ocv_mv (OCV_TABLE ! i) < v \<and> v \<le> ocv_mv (OCV_TABLE ! Suc i) \<and>
     uint (soc_estimator_ocv_lookup_percent_x2 v) =
       \<lfloor>of_int (uint (ocv_percent_x2 (OCV_TABLE ! i))) +
         (of_int (uint (ocv_percent_x2 (OCV_TABLE ! Suc i))) - of_int (uint (ocv_percent_x2 (OCV_TABLE ! i)))) *
         (of_int (uint v) - of_int (uint (ocv_mv (OCV_TABLE ! i)))) /
         (of_int (uint (ocv_mv (OCV_TABLE ! Suc i))) - of_int (uint (ocv_mv (OCV_TABLE ! i))) :: real)\<rfloor>"
proof -
  consider (low) "v \<le> ocv_mv (hd OCV_TABLE)" | (high) "\<not> v \<le> ocv_mv (hd OCV_TABLE)" "ocv_mv (last OCV_TABLE) \<le> v"
    | (mid) "\<not> v \<le> ocv_mv (hd OCV_TABLE)" "\<not> ocv_mv (last OCV_TABLE) \<le> v" by blast
  then show ?thesis
  proof cases
    case mid
    then have "\<exists>i. Suc i < length OCV_TABLE \<and> ocv_mv (OCV_TABLE ! i) < v \<and> v \<le> ocv_mv (OCV_TABLE ! Suc i)"
      by (intro segment_exists) (simp_all add: OCV_TABLE_def)
    then show ?thesis using ocv_lookup_segment [of _ v] unfolding if_not_P [OF mid(1)] if_not_P [OF mid(2)] by blast
  qed (simp_all only: if_True if_False simp_thms ocv_lookup_ends)
qed

text \<open>
  The table lookup is monotone in the cell voltage and never exceeds 200 half percents, so a
  higher resting voltage never yields a lower charge reading.
\<close>

lemma ocv_lookup_monotone:
  assumes "v \<le> w"
  shows "uint (soc_estimator_ocv_lookup_percent_x2 v) \<le> uint (soc_estimator_ocv_lookup_percent_x2 w) \<and>
    uint (soc_estimator_ocv_lookup_percent_x2 w) \<le> 200"
  using ocv_lookup_mono [OF assms] ocv_lookup_range by simp

text \<open>
  In exact arithmetic a measurement always reduces the uncertainty of the charge: after an update
  its variance is positive and strictly below both the predicted variance and the variance of the
  measurement.
\<close>

lemma update_reduces_variance:
  assumes "pos_def e" and "soc_estimator_update exact e cur dt mv = Some e'"
  shows "0 < p00 e' \<and> p00 e' < pr_p00 (soc_predict exact e cur dt mv) \<and>
    p00 e' < soc_measurement_noise exact cur"
  using exact_update_cov_bounds [OF assms] by simp

text \<open>
  The covariance depends on what the sensor measures. One update alone ignores the measured
  voltage, but the bias it leaves behind enters the process noise of the next one: two runs with the
  same currents and intervals that differ only in the first voltage end with different variances.
\<close>

lemma covariance_depends_on_measurement:
  "(\<forall>rnd e cur dt mv mv'. map_option soc_cov (soc_estimator_update rnd e cur dt mv) =
      map_option soc_cov (soc_estimator_update rnd e cur dt mv')) \<and>
   map_option p00 (soc_run exact (soc_estimator_init exact 5000) [(- 200, 500, 4200), (- 200, 500, 3700)]) \<noteq>
   map_option p00 (soc_run exact (soc_estimator_init exact 5000) [(- 200, 500, 3000), (- 200, 500, 3700)])"
proof
  show "\<forall>rnd e cur dt mv mv'. map_option soc_cov (soc_estimator_update rnd e cur dt mv) =
      map_option soc_cov (soc_estimator_update rnd e cur dt mv')"
    using correct_cov_of_predict_cov [OF predict_ignores_mv] predict_ignores_mv(4)
    by (simp add: soc_estimator_update_def Let_def) metis
next
  show "map_option p00 (soc_run exact (soc_estimator_init exact 5000) [(- 200, 500, 4200), (- 200, 500, 3700)]) \<noteq>
   map_option p00 (soc_run exact (soc_estimator_init exact 5000) [(- 200, 500, 3000), (- 200, 500, 3700)])"
  proof -
    have "soc_estimator_ocv_lookup_percent_x2 4200 = 200" "soc_estimator_ocv_lookup_percent_x2 3000 = 0"
      "soc_estimator_ocv_lookup_percent_x2 3700 = 100" by code_simp+
    then show ?thesis
      by (simp add: soc_estimator_update_def soc_predict_def soc_correct_def soc_estimator_init_def
          soc_gain_k_def soc_process_noise_def soc_bias_walk_def soc_measurement_noise_def
          clamp_percent_def Let_def config_defs)
  qed
qed

end
