(* ===== verification/Soc_Float.thy ===== *)
theory Soc_Float
  imports Soc_Kalman
begin

text \<open>
  Rounding-error analysis of the compiled filter. The signs of \<open>Soc_Filter\<close> hold for any rounding,
  but that the bias variance stays non-negative needs the size of the rounding error: the locale
  \<open>fp_near\<close> adds an error that is small next to a bound on the argument, which is enough for the charge
  and the bias, \<open>fp_relative\<close> a bound on the relative error, which the covariance needs. The invariant says
  that the computed covariance is positive semidefinite and that all quantities stay bounded over the
  number of updates; each update keeps it, so the compiled filter never divides by zero.
\<close>

section \<open>Rounding errors\<close>

text \<open>An error that is small next to a bound on the argument, also when the result underflows.\<close>

locale fp_near = fp_rounding rnd for rnd :: "real \<Rightarrow> real" +
  assumes rnd_near: "\<bar>x\<bar> \<le> M \<Longrightarrow> 1 / 2 ^ 30 \<le> M \<Longrightarrow> \<bar>rnd x - x\<bar> \<le> M / 2 ^ 53"
begin

lemma rnd_bound: "\<bar>x\<bar> \<le> M \<Longrightarrow> 1 / 2 ^ 30 \<le> M \<Longrightarrow> \<bar>rnd x\<bar> \<le> M * (1 + 1 / 2 ^ 53)"
proof -
  assume x: "\<bar>x\<bar> \<le> M" "1 / 2 ^ 30 \<le> M"
  have "\<bar>rnd x\<bar> \<le> \<bar>x\<bar> + \<bar>rnd x - x\<bar>" by simp
  with x rnd_near [OF x] show ?thesis by (simp add: distrib_left)
qed

end

interpretation f64_near: fp_near round_f64
  by unfold_locales (rule round_f64_near)

text \<open>A relative error, without underflow.\<close>

locale fp_relative = fp_rounding rnd for rnd :: "real \<Rightarrow> real" +
  fixes u :: real
  assumes u_nonneg: "0 \<le> u"
    and u_small: "u \<le> 1 / 2 ^ 53"
    and rnd_rel: "\<bar>rnd x - x\<bar> \<le> u * \<bar>x\<bar>"
begin

lemma rnd_ub: "0 \<le> x \<Longrightarrow> rnd x \<le> x * (1 + u)"
  using rnd_rel [of x] by (simp add: algebra_simps)

lemma rnd_lb: "0 \<le> x \<Longrightarrow> x * (1 - u) \<le> rnd x"
  using rnd_rel [of x] by (simp add: algebra_simps)

lemma u_le: "u \<le> 1 / 1000" "1 - u \<le> 1" "0 \<le> 1 - u" "1 \<le> 1 + u"
  using u_small u_nonneg by simp_all

end

sublocale fp_relative \<subseteq> fp_near rnd
proof
  fix x M :: real
  assume M: "\<bar>x\<bar> \<le> M"
  have "\<bar>rnd x - x\<bar> \<le> u * \<bar>x\<bar>" by (rule rnd_rel)
  also have "\<dots> \<le> 1 / 2 ^ 53 * M" using M u_small u_nonneg by (intro mult_mono) simp_all
  finally show "\<bar>rnd x - x\<bar> \<le> M / 2 ^ 53" by simp
qed

interpretation f53_rel: fp_relative round_53 "1 / 2 ^ 53"
proof
  show "\<bar>round_53 x - x\<bar> \<le> 1 / 2 ^ 53 * \<bar>x\<bar>" for x
    using round_53_rel_error [of x] by (simp add: power_int_minus mult.commute)
qed simp_all

interpretation exact_rel: fp_relative exact 0
  by unfold_locales simp_all

section \<open>Two estimates\<close>

text \<open>
  With relative errors \<open>u\<close> in each operation, the computed prediction keeps a gap of \<open>32 u\<close>
  between the squared correlation and the product of the variances, thanks to the process noise; and
  that gap pays for the errors of the correction.
\<close>

lemma one_minus_power4: "0 \<le> u \<Longrightarrow> u \<le> 1 \<Longrightarrow> 1 - 4 * u \<le> (1 - u) ^ 4" for u :: real
  using Bernoulli_inequality [of "- u" 4] by simp

lemma one_plus_power4: "0 \<le> u \<Longrightarrow> u \<le> 1 / 1000 \<Longrightarrow> (1 + u) ^ 4 \<le> 1 + 5 * u" for u :: real
proof -
  assume u: "0 \<le> u" "u \<le> 1 / 1000"
  have sq: "(1 + u)\<^sup>2 \<le> 1 + 201 / 100 * u"
  proof -
    have "u * u \<le> 1 / 1000 * u" using u by (intro mult_right_mono)
    then show ?thesis using u by (simp add: power2_eq_square algebra_simps)
  qed
  have "(1 + u) ^ 4 = ((1 + u)\<^sup>2)\<^sup>2" by simp
  also have "\<dots> \<le> (1 + 201 / 100 * u)\<^sup>2" using sq u by (intro power_mono) simp_all
  also have "\<dots> \<le> 1 + 5 * u"
  proof -
    have "u * u \<le> 1 / 1000 * u" using u by (intro mult_right_mono)
    then show ?thesis using u by (simp add: power2_eq_square algebra_simps)
  qed
  finally show ?thesis .
qed

lemma gap_factor:
  fixes u :: real
  assumes "0 \<le> u" "u \<le> 1 / 1000"
  shows "(1 + u) ^ 4 * (1 + 32 * u) \<le> (1 - u) ^ 6 + 50 * u"
proof -
  have uu: "u * u \<le> 1 / 1000 * u" using assms by (intro mult_right_mono)
  have "(1 + u) ^ 4 * (1 + 32 * u) \<le> (1 + 5 * u) * (1 + 32 * u)"
    using one_plus_power4 [OF assms] assms by (intro mult_right_mono) simp_all
  also have "\<dots> \<le> 1 + 38 * u" using uu assms by (simp add: algebra_simps)
  also have "\<dots> \<le> (1 - u) ^ 6 + 50 * u"
    using Bernoulli_inequality [of "- u" 6] assms by simp
  finally show ?thesis .
qed

lemma predict_gap:
  fixes u a be c k n A X C :: real
  assumes u: "0 \<le> u" "u \<le> 1 / 1000"
    and nn: "0 \<le> a" "0 \<le> be" "0 \<le> c" "0 \<le> k" "0 \<le> n" "0 \<le> X"
    and psd: "be\<^sup>2 \<le> a * c"
    and A: "((a + 2 * k * be + k\<^sup>2 * c) * (1 - u) ^ 4 + n) * (1 - u) \<le> A"
    and X: "X \<le> (be + k * c) * (1 + u)\<^sup>2"
    and C: "c * (1 - u) \<le> C"
    and n: "64 * u * (a + 2 * k * be + k\<^sup>2 * c) \<le> n"
  shows "X\<^sup>2 * (1 + 32 * u) \<le> A * C"
proof -
  define A0 where "A0 = a + 2 * k * be + k\<^sup>2 * c"
  have A0: "0 \<le> A0" using nn by (simp add: A0_def)
  have det: "(be + k * c)\<^sup>2 \<le> A0 * c"
    using psd by (simp add: A0_def power2_eq_square algebra_simps)
  have "X\<^sup>2 \<le> ((be + k * c) * (1 + u)\<^sup>2)\<^sup>2" using X nn by (intro power_mono) simp_all
  also have "\<dots> = (be + k * c)\<^sup>2 * (1 + u) ^ 4" by (simp add: power_mult_distrib)
  also have "\<dots> \<le> A0 * c * (1 + u) ^ 4" using det u by (intro mult_right_mono) simp_all
  finally have "X\<^sup>2 * (1 + 32 * u) \<le> A0 * c * (1 + u) ^ 4 * (1 + 32 * u)"
    using u by (intro mult_right_mono) simp_all
  also have "\<dots> = A0 * c * ((1 + u) ^ 4 * (1 + 32 * u))" by simp
  also have "\<dots> \<le> A0 * c * ((1 - u) ^ 6 + 50 * u)"
    using gap_factor [OF u] A0 nn by (intro mult_left_mono) simp_all
  also have "\<dots> = (A0 * (1 - u) ^ 6 + 50 * u * A0) * c" by (simp add: algebra_simps)
  also have "\<dots> \<le> (A0 * (1 - u) ^ 6 + n * (1 - u)\<^sup>2) * c"
  proof -
    have "50 * u * A0 \<le> n * (50 / 64)" using n by (simp add: A0_def)
    also have "\<dots> \<le> n * (1 - u)\<^sup>2"
    proof (rule mult_left_mono)
      have "50 / 64 \<le> 1 - 2 * u" using u by simp
      also have "\<dots> \<le> (1 - u)\<^sup>2" by (simp add: power2_eq_square algebra_simps)
      finally show "50 / 64 \<le> (1 - u)\<^sup>2" .
    qed (use nn in simp)
    finally show ?thesis using nn by (intro mult_right_mono) simp_all
  qed
  also have "\<dots> = (A0 * (1 - u) ^ 4 + n) * (1 - u) * (c * (1 - u))"
    by (simp add: power2_eq_square algebra_simps power_numeral_reduce)
  also have "\<dots> \<le> A * C"
    using A C nn A0 u by (intro mult_mono) (simp_all add: A0_def [symmetric] order_trans [OF _ A])
  finally show ?thesis .
qed

lemma correction_factor:
  fixes u y :: real
  assumes u: "0 \<le> u" "u \<le> 1 / 1000" and y: "2 * u \<le> y" "y \<le> 1"
  shows "(y + u)\<^sup>2 * (1 + u)\<^sup>2 \<le> (y - u) * (1 - u)\<^sup>2 * (y + 28 * u)"
proof -
  have y0: "0 \<le> y" using u y by simp
  have uy: "0 \<le> u * y" using u y0 by simp
  have uu: "u * u \<le> 1 / 1000 * u" using u by (intro mult_right_mono)
  have uyy: "u * (y * y) \<le> u * y" using u y y0 by (intro mult_left_mono) (simp_all add: mult_left_le)
  have uuy: "u * (u * y) \<le> 1 / 1000 * (u * y)" using u uy by (intro mult_right_mono)
  have uuu: "2 * (u * u) \<le> u * y" using mult_left_mono [OF y(1) u(1)] by simp
  have plus: "(1 + u)\<^sup>2 \<le> 1 + 3 * u" using u uu by (simp add: power2_eq_square algebra_simps)
  have minus: "1 - 2 * u \<le> (1 - u)\<^sup>2" by (simp add: power2_eq_square algebra_simps)
  have "(y + u)\<^sup>2 * (1 + u)\<^sup>2 \<le> (y + u)\<^sup>2 * (1 + 3 * u)" using plus by (intro mult_left_mono) simp_all
  also have "\<dots> \<le> (y - u) * (1 - 2 * u) * (y + 28 * u)"
  proof -
    have cube: "0 \<le> u * (u * u)" using u by simp
    have "(y - u) * (1 - 2 * u) * (y + 28 * u) - (y + u)\<^sup>2 * (1 + 3 * u) =
        25 * (u * y) - 29 * (u * u) - 5 * (u * (y * y)) - 60 * (u * (u * y)) + 53 * (u * (u * u))"
      by (simp add: power2_eq_square algebra_simps)
    also have "\<dots> \<ge> 0" using uyy uuy uuu uy cube by linarith
    finally show ?thesis by simp
  qed
  also have "\<dots> \<le> (y - u) * (1 - u)\<^sup>2 * (y + 28 * u)"
    using minus u y y0 by (intro mult_right_mono mult_left_mono) simp_all
  finally show ?thesis .
qed

lemma correct_room:
  fixes u A X C S k kb :: real
  assumes u: "0 \<le> u" "u \<le> 1 / 1000"
    and pos: "0 < A" "0 \<le> X" "A \<le> S"
    and gap: "X\<^sup>2 * (1 + 32 * u) \<le> A * C"
    and k: "A / S * (1 - u) \<le> k" "k \<le> 1" "0 \<le> k"
    and kb: "kb \<le> X / S * (1 + u)"
  shows "X\<^sup>2 / A * (1 - k + 28 * u) \<le> C - kb * X * (1 + u)"
proof -
  define Q where "Q = X\<^sup>2 / A"
  have S: "0 < S" using pos by simp
  have Q: "0 \<le> Q" "X\<^sup>2 = A * Q" "Q * (1 + 32 * u) \<le> C"
    using pos gap by (simp_all add: Q_def field_simps)
  have uu: "u * u \<le> 1 / 1000 * u" using u by (intro mult_right_mono)
  have "kb * X * (1 + u) \<le> X / S * (1 + u) * X * (1 + u)"
    using kb pos u by (intro mult_right_mono) simp_all
  also have "\<dots> = X\<^sup>2 / S * (1 + u)\<^sup>2" by (simp add: power2_eq_square)
  also have "\<dots> = Q * (A / S * (1 + u)\<^sup>2)" unfolding Q(2) by simp
  also have "\<dots> \<le> Q * (k * (1 + 4 * u))"
  proof (rule mult_left_mono [OF _ Q(1)])
    have "(1 + u)\<^sup>2 \<le> (1 - u) * (1 + 4 * u)" using uu u by (simp add: power2_eq_square algebra_simps)
    then have "A / S * (1 + u)\<^sup>2 \<le> A / S * ((1 - u) * (1 + 4 * u))"
      using pos S by (intro mult_left_mono) simp_all
    also have "\<dots> \<le> k * (1 + 4 * u)" using mult_right_mono [OF k(1), of "1 + 4 * u"] u by (simp add: mult.assoc)
    finally show "A / S * (1 + u)\<^sup>2 \<le> k * (1 + 4 * u)" .
  qed
  finally have drop: "kb * X * (1 + u) \<le> Q * (k * (1 + 4 * u))" .
  have "Q * (1 - k + 28 * u) \<le> Q * ((1 + 32 * u) - k * (1 + 4 * u))"
  proof (rule mult_left_mono [OF _ Q(1)])
    have "k * u \<le> u" using k u by (simp add: mult_left_le_one_le)
    then show "1 - k + 28 * u \<le> 1 + 32 * u - k * (1 + 4 * u)" by (simp add: algebra_simps)
  qed
  also have "\<dots> = Q * (1 + 32 * u) - Q * (k * (1 + 4 * u))" by (simp add: algebra_simps)
  also have "\<dots> \<le> C - kb * X * (1 + u)" using Q(3) drop by linarith
  finally show ?thesis by (simp add: Q_def)
qed

lemma correct_psd:
  fixes u A X k room a' be' c' :: real
  assumes u: "0 \<le> u" "u \<le> 1 / 1000"
    and pos: "0 < A" "0 \<le> X" "0 \<le> be'" and k: "k \<le> 1 - 2 * u" "0 \<le> k"
    and a': "(A - k * A * (1 + u)) * (1 - u) \<le> a'"
    and be': "be' \<le> (X - k * X * (1 - u)) * (1 + u)"
    and room: "X\<^sup>2 / A * (1 - k + 28 * u) \<le> room" and c': "room * (1 - u) \<le> c'"
  shows "be'\<^sup>2 \<le> a' * c'" and "0 \<le> c'"
proof -
  define y where "y = 1 - k"
  define Q where "Q = X\<^sup>2 / A"
  have y: "2 * u \<le> y" "y \<le> 1" "0 \<le> y" using k u by (simp_all add: y_def)
  have Q: "0 \<le> Q" "X\<^sup>2 = A * Q" using pos by (simp_all add: Q_def)
  have ku: "k * u \<le> u" using k u by (simp add: mult_left_le_one_le)
  have Qy: "0 \<le> Q * (y + 28 * u)" using Q(1) y u by simp
  have "0 \<le> Q * (y + 28 * u) * (1 - u)" using Qy u by simp
  also have c_low: "Q * (y + 28 * u) * (1 - u) \<le> c'"
    by (rule order_trans [OF mult_right_mono [OF room [folded y_def Q_def]] c']) (use u in simp)
  finally show "0 \<le> c'" .
  have "A * (y - u) \<le> A * (1 - k * (1 + u))"
    using ku pos by (intro mult_left_mono) (simp_all add: y_def algebra_simps)
  then have "A * (y - u) * (1 - u) \<le> (A - k * A * (1 + u)) * (1 - u)"
    using u by (intro mult_right_mono) (simp_all add: algebra_simps)
  with a' have a_low: "A * (y - u) * (1 - u) \<le> a'" by simp
  have "X * (1 - k * (1 - u)) \<le> X * (y + u)"
    using ku pos by (intro mult_left_mono) (simp_all add: y_def algebra_simps)
  then have "(X - k * X * (1 - u)) * (1 + u) \<le> X * (y + u) * (1 + u)"
    using u by (intro mult_right_mono) (simp_all add: algebra_simps)
  with be' have "be' \<le> X * (y + u) * (1 + u)" by simp
  then have "be'\<^sup>2 \<le> (X * (y + u) * (1 + u))\<^sup>2" using pos(3) by (intro power_mono)
  also have "\<dots> = A * Q * ((y + u)\<^sup>2 * (1 + u)\<^sup>2)" by (simp add: Q(2) [symmetric] power_mult_distrib)
  also have "\<dots> \<le> A * Q * ((y - u) * (1 - u)\<^sup>2 * (y + 28 * u))"
    using correction_factor [OF u y(1,2)] pos Q by (intro mult_left_mono) simp_all
  also have "\<dots> = A * (y - u) * (1 - u) * (Q * (y + 28 * u) * (1 - u))" by (simp add: power2_eq_square)
  also have "\<dots> \<le> a' * c'"
    using a_low c_low Qy pos u y
    by (intro mult_mono order_trans [OF _ a_low]) (simp_all add: mult_nonneg_nonneg)
  finally show "be'\<^sup>2 \<le> a' * c'" .
qed

section \<open>The size of the computed quantities\<close>

lemma dt_le_real: "dt \<le> 1000 \<Longrightarrow> (unsigned dt :: real) \<le> 1000" for dt :: u32
proof -
  assume "dt \<le> 1000"
  then have "uint dt \<le> 1000" by (simp add: word_le_def)
  then have "real_of_int (uint dt) \<le> 1000" by linarith
  then show ?thesis by simp
qed

context fp_relative
begin

lemma rnd_ge: "y * (1 - u) ^ n \<le> x \<Longrightarrow> 0 \<le> y \<Longrightarrow> y * (1 - u) ^ Suc n \<le> rnd x"
proof -
  assume x: "y * (1 - u) ^ n \<le> x" and y: "0 \<le> y"
  have "0 \<le> x" using x y u_le(3) by (meson mult_nonneg_nonneg order_trans zero_le_power)
  have "y * (1 - u) ^ Suc n = y * (1 - u) ^ n * (1 - u)" by simp
  also have "\<dots> \<le> x * (1 - u)" using x u_le(3) by (rule mult_right_mono)
  also have "\<dots> \<le> rnd x" by (rule rnd_lb) fact
  finally show ?thesis .
qed

lemma rnd_le: "x \<le> y * (1 + u) ^ n \<Longrightarrow> 0 \<le> x \<Longrightarrow> rnd x \<le> y * (1 + u) ^ Suc n"
proof -
  assume x: "x \<le> y * (1 + u) ^ n" and "0 \<le> x"
  have "rnd x \<le> x * (1 + u)" by (rule rnd_ub) fact
  also have "\<dots> \<le> y * (1 + u) ^ n * (1 + u)" using x u_nonneg by (intro mult_right_mono) simp_all
  finally show ?thesis by (simp add: mult_ac)
qed

lemma weaken_minus: "0 \<le> y \<Longrightarrow> m \<le> n \<Longrightarrow> y * (1 - u) ^ n \<le> y * (1 - u) ^ m"
  using u_le by (intro mult_left_mono power_decreasing) simp_all

lemma weaken_plus: "0 \<le> y \<Longrightarrow> m \<le> n \<Longrightarrow> y * (1 + u) ^ m \<le> y * (1 + u) ^ n"
  using u_le by (intro mult_left_mono power_increasing) simp_all

lemma rnd_scaled:
  assumes "0 \<le> x" "0 \<le> y"
  shows "x * y * (1 - u)\<^sup>2 \<le> rnd (rnd x * y)" and "rnd (rnd x * y) \<le> x * y * (1 + u)\<^sup>2"
    and "0 \<le> rnd (rnd x * y)"
proof -
  have "x * y * (1 - u) ^ 1 \<le> rnd x * y"
    using mult_right_mono [OF rnd_lb [OF assms(1)] assms(2)] by (simp add: mult_ac)
  then show "x * y * (1 - u)\<^sup>2 \<le> rnd (rnd x * y)"
    using rnd_ge [of "x * y" 1] assms by (simp add: numeral_2_eq_2)
  have "rnd x * y \<le> x * y * (1 + u) ^ 1"
    using mult_right_mono [OF rnd_ub [OF assms(1)] assms(2)] by (simp add: mult_ac)
  then show "rnd (rnd x * y) \<le> x * y * (1 + u)\<^sup>2"
    using rnd_le [of "rnd x * y" "x * y" 1] assms by (simp add: numeral_2_eq_2 rnd_nonneg)
  show "0 \<le> rnd (rnd x * y)" using assms by (simp add: rnd_nonneg)
qed

text \<open>The predicted variance of the charge, before the process noise, from \<open>a\<close>, \<open>- be\<close> and \<open>c\<close>.\<close>

lemma predicted_variance:
  assumes nn: "0 \<le> a" "0 \<le> be" "0 \<le> c" "0 \<le> k"
  defines "q \<equiv> rnd (rnd (a + rnd (rnd (2 * k) * be)) + rnd (rnd (k * k) * c))"
  shows "(a + 2 * k * be + k\<^sup>2 * c) * (1 - u) ^ 4 \<le> q"
    and "q \<le> (a + 2 * k * be + k\<^sup>2 * c) * (1 + u) ^ 4"
proof -
  let ?x = "a + rnd (rnd (2 * k) * be)" and ?y = "rnd (rnd (k * k) * c)"
  have kb: "0 \<le> 2 * k * be" and kc: "0 \<le> k * k * c" using nn by simp_all
  have "(a + 2 * k * be) * (1 - u)\<^sup>2 \<le> ?x"
    using rnd_scaled(1) [of "2 * k" be] weaken_minus [OF nn(1), of 0 2] nn by (simp add: distrib_right)
  then have "(a + 2 * k * be) * (1 - u) ^ 3 \<le> rnd ?x"
    using rnd_ge [of "a + 2 * k * be" 2 ?x] nn kb by (simp add: numeral_3_eq_3 numeral_2_eq_2)
  moreover have "k * k * c * (1 - u) ^ 3 \<le> ?y"
    using rnd_scaled(1) [of "k * k" c] weaken_minus [OF kc, of 2 3] nn by simp
  ultimately have "(a + 2 * k * be + k\<^sup>2 * c) * (1 - u) ^ 3 \<le> rnd ?x + ?y"
    by (simp add: distrib_right power2_eq_square)
  then show "(a + 2 * k * be + k\<^sup>2 * c) * (1 - u) ^ 4 \<le> q"
    unfolding q_def using rnd_ge [of "a + 2 * k * be + k\<^sup>2 * c" 3] nn kb kc
    by (simp add: power2_eq_square numeral_eq_Suc)
  have "?x \<le> (a + 2 * k * be) * (1 + u)\<^sup>2"
    using rnd_scaled(2) [of "2 * k" be] weaken_plus [OF nn(1), of 0 2] nn by (simp add: distrib_right)
  then have "rnd ?x \<le> (a + 2 * k * be) * (1 + u) ^ 3"
    using rnd_le [of ?x "a + 2 * k * be" 2] nn rnd_scaled(3) [of "2 * k" be]
    by (simp add: numeral_3_eq_3 numeral_2_eq_2)
  moreover have "?y \<le> k * k * c * (1 + u) ^ 3"
    using rnd_scaled(2) [of "k * k" c] weaken_plus [OF kc, of 2 3] nn by simp
  ultimately have "rnd ?x + ?y \<le> (a + 2 * k * be + k\<^sup>2 * c) * (1 + u) ^ 3"
    by (simp add: distrib_right power2_eq_square)
  then show "q \<le> (a + 2 * k * be + k\<^sup>2 * c) * (1 + u) ^ 4"
    unfolding q_def using rnd_le [of _ "a + 2 * k * be + k\<^sup>2 * c" 3] nn rnd_scaled(3) [of "2 * k" be] rnd_scaled(3) [of "k * k" c]
    by (simp add: rnd_nonneg numeral_eq_Suc)
qed

lemma predicted_correlation:
  assumes "0 \<le> be" "0 \<le> c" "0 \<le> k"
  shows "rnd (be + rnd (k * c)) \<le> (be + k * c) * (1 + u)\<^sup>2" and "0 \<le> rnd (be + rnd (k * c))"
proof -
  have "be + rnd (k * c) \<le> (be + k * c) * (1 + u) ^ 1"
    using rnd_ub [of "k * c"] assms mult_nonneg_nonneg [OF assms(1) u_nonneg]
    by (simp add: distrib_right distrib_left)
  then show "rnd (be + rnd (k * c)) \<le> (be + k * c) * (1 + u)\<^sup>2"
    using rnd_le [of "be + rnd (k * c)" "be + k * c" 1] assms by (simp add: rnd_nonneg numeral_2_eq_2)
  show "0 \<le> rnd (be + rnd (k * c))" using assms by (simp add: rnd_nonneg)
qed

end

text \<open>The quantities that depend on the sample only.\<close>

context fp_near
begin

lemma soc_gain_k_le: "dt \<le> 1000 \<Longrightarrow> soc_gain_k rnd 5000 dt \<le> 1 / 10000"
proof -
  assume "dt \<le> 1000"
  then have "\<bar>real_of_int (uint dt) / 18000000\<bar> \<le> 1 / 18000" using dt_le_real by simp
  from rnd_bound [OF this] show ?thesis by (simp add: soc_gain_k_def rnd_numeral)
qed

lemma soc_bias_walk_le: "dt \<le> 1000 \<Longrightarrow> soc_bias_walk rnd dt \<le> 15 / 100000"
proof -
  assume "dt \<le> 1000"
  then have "\<bar>real_of_int (uint dt) / 1000\<bar> \<le> 1" using dt_le_real by simp
  from rnd_bound [OF this] have t: "\<bar>rnd (real_of_int (uint dt) / 1000)\<bar> \<le> 11 / 10" by simp
  have "\<bar>rnd (1 / 10000)\<bar> \<le> 11 / 100000" using rnd_bound [of "1 / 10000" "1 / 10000"] by simp
  with t have "\<bar>rnd (1 / 10000) * rnd (real_of_int (uint dt) / 1000)\<bar> \<le> 11 / 100000 * (11 / 10)"
    unfolding abs_mult by (intro mult_mono) simp_all
  from rnd_bound [OF this] show ?thesis by (simp add: soc_bias_walk_def config_defs)
qed

lemma soc_measurement_noise_le: "soc_measurement_noise rnd cur \<le> 10800000"
proof -
  have "\<bar>sint cur\<bar> \<le> 32768" using sint_range_size [of cur] by (simp add: word_size abs_le_iff)
  then have "\<bar>real_of_int (sint cur) / 100\<bar> \<le> 32768 / 100" by linarith
  from rnd_bound [OF this] have a: "\<bar>rnd (real_of_int (sint cur) / 100)\<bar> \<le> 3277 / 10" by simp
  then have "\<bar>100 * rnd (real_of_int (sint cur) / 100)\<bar> \<le> 32770" by simp
  from rnd_bound [OF this] have "\<bar>rnd (100 * rnd (real_of_int (sint cur) / 100))\<bar> \<le> 32771" by simp
  with a have "\<bar>rnd (100 * rnd (real_of_int (sint cur) / 100)) * rnd (real_of_int (sint cur) / 100)\<bar> \<le> 32771 * (3277 / 10)"
    unfolding abs_mult by (intro mult_mono) simp_all
  from rnd_bound [OF this] have
    "\<bar>1 / 4 + rnd (rnd (100 * rnd (real_of_int (sint cur) / 100)) * rnd (real_of_int (sint cur) / 100))\<bar> \<le> 10750000"
    by simp
  from rnd_bound [OF this] show ?thesis
    using rnd_quarter
    by (simp add: soc_measurement_noise_def config_defs rnd_numeral Let_def del: divide_eq_eq_numeral1 eq_divide_eq_numeral1)
qed

lemma soc_process_noise_ge: "1 / 4096 \<le> soc_process_noise rnd d"
proof -
  have "rnd (1 / 4096) = 1 / 4096" using rnd_dyadic [of 1 "- 12"] by (simp add: power_int_minus)
  moreover have "rnd (1 / 4096) \<le> rnd BMS_SOC_PROCESS_NOISE_FLOOR_PCT2"
    by (rule rnd_mono) (simp add: config_defs)
  moreover have "rnd BMS_SOC_PROCESS_NOISE_FLOOR_PCT2 \<le> soc_process_noise rnd d"
    unfolding soc_process_noise_def Let_def by (intro rnd_ge_rounded) (simp add: rnd_nonneg)
  ultimately show ?thesis by simp
qed

lemma soc_process_noise_le: "\<bar>d\<bar> \<le> 5 * 10 ^ 8 \<Longrightarrow> soc_process_noise rnd d \<le> 4 * 10 ^ 13"
proof -
  assume d: "\<bar>d\<bar> \<le> 5 * 10 ^ 8"
  have "\<bar>rnd (1 / 100)\<bar> \<le> 11 / 1000" using rnd_bound [of "1 / 100" "1 / 100"] by simp
  then have "\<bar>rnd (1 / 100) * d\<bar> \<le> 11 / 1000 * (5 * 10 ^ 8)"
    unfolding abs_mult using d by (intro mult_mono) simp_all
  from rnd_bound [OF this] have s: "\<bar>rnd (rnd (1 / 100) * d)\<bar> \<le> 6 * 10 ^ 6" by simp
  then have "\<bar>rnd (rnd (1 / 100) * d) * rnd (rnd (1 / 100) * d)\<bar> \<le> 6 * 10 ^ 6 * (6 * 10 ^ 6)"
    unfolding abs_mult by (intro mult_mono) simp_all
  from rnd_bound [OF this] have q: "\<bar>rnd (rnd (rnd (1 / 100) * d) * rnd (rnd (1 / 100) * d))\<bar> \<le> 37 * 10 ^ 12" by simp
  have "\<bar>rnd (4 / 10000)\<bar> \<le> 1" using rnd_bound [of "4 / 10000" "4 / 10000"] by simp
  with q have "\<bar>rnd (4 / 10000) + rnd (rnd (rnd (1 / 100) * d) * rnd (rnd (1 / 100) * d))\<bar> \<le> 38 * 10 ^ 12" by (simp add: abs_le_iff)
  from rnd_bound [OF this] show ?thesis by (simp add: soc_process_noise_def config_defs Let_def)
qed

end

section \<open>The invariant\<close>

text \<open>
  What holds of the compiled filter after \<open>n\<close> updates: the estimate is a percentage, the computed
  covariance is positive semidefinite with the correlation on the side where the filter starts, the
  variances and the bias are bounded.
\<close>

definition fp_bounds :: "nat \<Rightarrow> soc_estimator_t \<Rightarrow> bool" where
  "fp_bounds n e \<longleftrightarrow>
     capacity_mah e = BMS_PACK_CAPACITY_MAH \<and> 0 \<le> soc_percent e \<and> soc_percent e \<le> 100 \<and>
     0 \<le> p00 e \<and> p00 e \<le> 2 ^ 24 \<and> p01 e \<le> 0 \<and> 0 \<le> p11 e \<and> p11 e \<le> 25 + real n / 5000 \<and>
     (p01 e)\<^sup>2 \<le> p00 e * p11 e \<and> \<bar>bias_ca e\<bar> \<le> 32000 * real n"

lemma fp_bounds_signs: "fp_bounds n e \<Longrightarrow> filter_signs e"
  by (simp add: fp_bounds_def filter_signs_def config_defs)

lemma psd_cross:
  fixes a be c k :: real
  assumes "0 \<le> a" "0 \<le> c" "be\<^sup>2 \<le> a * c"
  shows "2 * k * be \<le> a + k\<^sup>2 * c"
proof (rule power2_le_imp_le)
  have "(2 * k * be)\<^sup>2 = 4 * k\<^sup>2 * be\<^sup>2" by (simp add: power_mult_distrib)
  also have "\<dots> \<le> 4 * k\<^sup>2 * (a * c)" using assms by (intro mult_left_mono) simp_all
  also have "\<dots> = (a + k\<^sup>2 * c)\<^sup>2 - (a - k\<^sup>2 * c)\<^sup>2" by (simp add: power2_eq_square algebra_simps)
  also have "\<dots> \<le> (a + k\<^sup>2 * c)\<^sup>2" by simp
  finally show "(2 * k * be)\<^sup>2 \<le> (a + k\<^sup>2 * c)\<^sup>2" .
qed (use assms in simp)

text \<open>The exactly predicted variance is small next to the inverse of the rounding unit.\<close>

lemma predicted_small:
  assumes "fp_bounds n e" and "n < 10 ^ 8" and "0 \<le> k" "k \<le> 1 / 10000"
  shows "p00 e + 2 * k * - p01 e + k\<^sup>2 * p11 e \<le> 2 ^ 26"
proof -
  have "k\<^sup>2 \<le> 1" using assms by (simp add: power_le_one)
  moreover have "p11 e \<le> 20025" using assms by (simp add: fp_bounds_def field_simps)
  ultimately have "k\<^sup>2 * p11 e \<le> 1 * 20025" using assms by (intro mult_mono) (simp_all add: fp_bounds_def)
  moreover have "2 * k * - p01 e \<le> p00 e + k\<^sup>2 * p11 e"
    using assms by (intro psd_cross) (simp_all add: fp_bounds_def)
  ultimately show ?thesis using assms by (simp add: fp_bounds_def)
qed

context fp_near
begin

text \<open>The change of charge that the filter predicts: bounded, and close to the exact one.\<close>

lemma delta_near:
  fixes cur :: i16
  assumes ok: "fp_bounds n e" and n: "n < 10 ^ 8" and dt: "dt \<le> 1000"
  defines "k \<equiv> soc_gain_k rnd BMS_PACK_CAPACITY_MAH dt"
  defines "x \<equiv> real_of_int (sint cur) - bias_ca e"
  shows "\<bar>rnd (k * rnd x)\<bar> \<le> 5 * 10 ^ 8" and "\<bar>rnd (k * rnd x) - k * x\<bar> \<le> 1 / 10000"
proof -
  have k: "0 \<le> k" "k \<le> 1 / 10000"
    using soc_gain_k_le [OF dt] soc_gain_k_nonneg by (simp_all add: k_def config_defs)
  have "\<bar>sint cur\<bar> \<le> 32768" using sint_range_size [of cur] by (simp add: word_size abs_le_iff)
  then have "\<bar>real_of_int (sint cur)\<bar> \<le> 32768" by linarith
  moreover have "\<bar>bias_ca e\<bar> \<le> 32 * 10 ^ 11" using ok n by (simp add: fp_bounds_def)
  ultimately have x: "\<bar>x\<bar> \<le> 33 * 10 ^ 11" unfolding x_def by (simp add: abs_le_iff)
  have r: "\<bar>rnd x\<bar> \<le> 34 * 10 ^ 11" "\<bar>rnd x - x\<bar> \<le> 1 / 2"
    using rnd_bound [OF x] rnd_near [OF x] by simp_all
  have kr: "\<bar>k * rnd x\<bar> \<le> 1 / 10000 * (34 * 10 ^ 11)" and kx: "\<bar>k * (rnd x - x)\<bar> \<le> 1 / 10000 * (1 / 2)"
    unfolding abs_mult using k r by (intro mult_mono; simp)+
  show "\<bar>rnd (k * rnd x)\<bar> \<le> 5 * 10 ^ 8" using rnd_bound [OF kr] by simp
  have "\<bar>rnd (k * rnd x) - k * rnd x\<bar> \<le> 1 / 20000" using rnd_near [OF kr] by simp
  with kx show "\<bar>rnd (k * rnd x) - k * x\<bar> \<le> 1 / 10000"
    unfolding right_diff_distrib by linarith
qed

text \<open>
  The bias: the part of the residual that the bias itself causes pulls it back, so one update moves it
  by a bounded amount however large it is.
\<close>

lemma bias_pulled_back: "0 \<le> t \<Longrightarrow> t \<le> 2 \<Longrightarrow> \<bar>b - t * b\<bar> \<le> \<bar>b\<bar>" for b t :: real
proof -
  assume "0 \<le> t" "t \<le> 2"
  then have "\<bar>1 - t\<bar> * \<bar>b\<bar> \<le> 1 * \<bar>b\<bar>" by (intro mult_right_mono) simp_all
  then show ?thesis by (simp add: left_diff_distrib flip: abs_mult)
qed

lemma measured_charge_range: "0 \<le> pr_z (soc_predict rnd e cur dt mv)" "pr_z (soc_predict rnd e cur dt mv) \<le> 100"
proof -
  let ?v = "soc_estimator_ocv_lookup_percent_x2 mv"
  have z: "pr_z (soc_predict rnd e cur dt mv) = rnd (real_of_int (uint ?v) / 2)"
    by (simp add: soc_predict_def Let_def)
  have "real_of_int (uint ?v) \<le> 200" using ocv_lookup_range [of mv] by linarith
  then have "rnd (real_of_int (uint ?v) / 2) \<le> rnd 100" by (intro rnd_mono) linarith
  then show "pr_z (soc_predict rnd e cur dt mv) \<le> 100" by (simp add: z rnd_numeral)
  show "0 \<le> pr_z (soc_predict rnd e cur dt mv)" unfolding z by (intro rnd_nonneg) simp
qed

lemma residual_size:
  fixes cur :: i16 and mv :: u16
  assumes ok: "fp_bounds n e" and n: "n < 10 ^ 8" and dt: "dt \<le> 1000"
  defines "pr \<equiv> soc_predict rnd e cur dt mv" and "k \<equiv> soc_gain_k rnd BMS_PACK_CAPACITY_MAH dt"
  defines "r \<equiv> rnd (pr_z pr - pr_soc pr)"
  shows "\<bar>r - k * bias_ca e\<bar> \<le> 105" and "\<bar>r\<bar> \<le> 8 * 10 ^ 8"
proof -
  define d where "d = rnd (k * rnd (real_of_int (sint cur) - bias_ca e))"
  have z: "0 \<le> pr_z pr" "pr_z pr \<le> 100" unfolding pr_def by (rule measured_charge_range)+
  have s: "0 \<le> soc_percent e" "soc_percent e \<le> 100" using ok by (simp_all add: fp_bounds_def)
  have d: "\<bar>d\<bar> \<le> 5 * 10 ^ 8" "\<bar>d - k * (real_of_int (sint cur) - bias_ca e)\<bar> \<le> 1 / 10000"
    using delta_near [OF ok n dt, of cur] by (simp_all add: d_def k_def)
  have soc: "pr_soc pr = rnd (soc_percent e + d)"
    using ok by (simp add: pr_def soc_predict_def Let_def d_def k_def fp_bounds_def)
  have x3: "\<bar>soc_percent e + d\<bar> \<le> 6 * 10 ^ 8" using d(1) s by (simp add: abs_le_iff)
  have sp: "\<bar>pr_soc pr - (soc_percent e + d)\<bar> \<le> 1 / 1000" using rnd_near [OF x3] by (simp add: soc)
  have "\<bar>pr_soc pr\<bar> \<le> 65 * 10 ^ 7" using rnd_bound [OF x3] by (simp add: soc)
  then have x4: "\<bar>pr_z pr - pr_soc pr\<bar> \<le> 7 * 10 ^ 8" using z by (simp add: abs_le_iff)
  show "\<bar>r\<bar> \<le> 8 * 10 ^ 8" using rnd_bound [OF x4] by (simp add: r_def)
  have r: "\<bar>r - (pr_z pr - pr_soc pr)\<bar> \<le> 1 / 1000" using rnd_near [OF x4] by (simp add: r_def)
  have k: "0 \<le> k" "k \<le> 1 / 10000"
    using soc_gain_k_le [OF dt] soc_gain_k_nonneg by (simp_all add: k_def config_defs)
  have "\<bar>sint cur\<bar> \<le> 32768" using sint_range_size [of cur] by (simp add: word_size abs_le_iff)
  then have "\<bar>real_of_int (sint cur)\<bar> \<le> 32768" by linarith
  then have "\<bar>k * real_of_int (sint cur)\<bar> \<le> 1 / 10000 * 32768"
    unfolding abs_mult using k by (intro mult_mono) simp_all
  then show "\<bar>r - k * bias_ca e\<bar> \<le> 105"
    using r sp d(2) z s unfolding right_diff_distrib by linarith
qed

lemma corrected_bias:
  fixes b g r k :: real
  assumes b: "\<bar>b\<bar> \<le> 32000 * real n" and n: "n < 10 ^ 8" and k: "0 \<le> k"
    and g: "0 \<le> g" "g \<le> 300" "k * g \<le> 2" and r: "\<bar>r - k * b\<bar> \<le> 105" "\<bar>r\<bar> \<le> 8 * 10 ^ 8"
  shows "\<bar>rnd (b + rnd (- g * r))\<bar> \<le> 32000 * real (Suc n)"
proof -
  define v where "v = - g * r"
  have x: "\<bar>v\<bar> \<le> 300 * (8 * 10 ^ 8)" unfolding abs_mult v_def using g r by (intro mult_mono) simp_all
  have near: "\<bar>rnd v - v\<bar> \<le> 1 / 100" using rnd_near [OF x] by simp
  have "\<bar>b\<bar> \<le> 32 * 10 ^ 11" using b n by simp
  moreover have "\<bar>rnd v\<bar> \<le> 3 * 10 ^ 11" using rnd_bound [OF x] by simp
  ultimately have y: "\<bar>b + rnd v\<bar> \<le> 4 * 10 ^ 12" by (simp add: abs_le_iff)
  have near': "\<bar>rnd (b + rnd v) - (b + rnd v)\<bar> \<le> 1 / 100" using rnd_near [OF y] by simp
  have "\<bar>g * (r - k * b)\<bar> \<le> 300 * 105" unfolding abs_mult using g r by (intro mult_mono) simp_all
  moreover have "\<bar>b - k * g * b\<bar> \<le> \<bar>b\<bar>" using g k by (intro bias_pulled_back) simp_all
  moreover have "b + v = (b - k * g * b) - g * (r - k * b)" by (simp add: v_def algebra_simps)
  ultimately have "\<bar>b + v\<bar> \<le> \<bar>b\<bar> + 31500" by linarith
  with near have "\<bar>b + rnd v\<bar> \<le> \<bar>b\<bar> + 31501" by linarith
  with near' have "\<bar>rnd (b + rnd v)\<bar> \<le> \<bar>b\<bar> + 31502" by linarith
  with b show ?thesis unfolding of_nat_Suc v_def [symmetric] by simp
qed

end

context fp_relative
begin

text \<open>The predicted covariance, abstracted from the fields it is computed from.\<close>

lemma predicted_covariance:
  assumes nn: "0 \<le> a" "0 \<le> be" "0 \<le> c" "0 \<le> k" and psd: "be\<^sup>2 \<le> a * c"
    and small: "a + 2 * k * be + k\<^sup>2 * c \<le> 2 ^ 26" and nz: "1 / 4096 \<le> nz" and w: "0 \<le> w"
  defines "q \<equiv> rnd (rnd (a + rnd (rnd (2 * k) * be)) + rnd (rnd (k * k) * c))"
  defines "X \<equiv> rnd (be + rnd (k * c))"
  shows "X\<^sup>2 * (1 + 32 * u) \<le> rnd (q + nz) * rnd (c + w)" and "k * X \<le> 3 / 2 * rnd (q + nz)"
    and "0 \<le> q" and "q \<le> 2 ^ 27"
proof -
  define A0 where "A0 = a + 2 * k * be + k\<^sup>2 * c"
  have A0: "0 \<le> A0" "A0 \<le> 2 ^ 26" using small nn by (simp_all add: A0_def)
  have q: "A0 * (1 - u) ^ 4 \<le> q" "q \<le> A0 * (1 + u) ^ 4"
    unfolding q_def A0_def using predicted_variance [OF nn] by simp_all
  have "A0 * (1 + u) ^ 4 \<le> 2 ^ 26 * 2"
    using A0 one_plus_power4 [OF u_nonneg u_le(1)] u_le(1) u_nonneg by (intro mult_mono) simp_all
  with q(2) show "q \<le> 2 ^ 27" by simp
  show q0: "0 \<le> q" using q(1) A0(1) u_le(3) by (meson mult_nonneg_nonneg order_trans zero_le_power)
  have A_lb: "(A0 * (1 - u) ^ 4 + nz) * (1 - u) \<le> rnd (q + nz)"
    using mult_right_mono [of "A0 * (1 - u) ^ 4 + nz" "q + nz" "1 - u"] rnd_lb [of "q + nz"] q(1) nz q0 u_le(3)
    by simp
  have X: "0 \<le> X" "X \<le> (be + k * c) * (1 + u)\<^sup>2"
    unfolding X_def using predicted_correlation [OF nn(2-4)] by simp_all
  have C: "c * (1 - u) \<le> rnd (c + w)"
    using mult_right_mono [of c "c + w" "1 - u"] rnd_lb [of "c + w"] nn(3) w u_le(3) by simp
  have "u * A0 \<le> 1 / 2 ^ 53 * 2 ^ 26" using A0 u_small u_nonneg by (intro mult_mono) simp_all
  then have noise: "64 * u * A0 \<le> nz" using nz by simp
  show "X\<^sup>2 * (1 + 32 * u) \<le> rnd (q + nz) * rnd (c + w)"
    using nz by (intro predict_gap [OF u_nonneg u_le(1) nn _ X(1) psd A_lb [unfolded A0_def] X(2) C noise [unfolded A0_def]]) simp
  have "k * X \<le> k * ((be + k * c) * (1 + u)\<^sup>2)" by (rule mult_left_mono [OF X(2) nn(4)])
  also have "\<dots> = (k * be + k\<^sup>2 * c) * (1 + u)\<^sup>2" by (simp add: power2_eq_square algebra_simps)
  also have "\<dots> \<le> A0 * (1 + u)\<^sup>2" using nn by (intro mult_right_mono) (simp_all add: A0_def)
  also have "\<dots> \<le> A0 * (1 + u) ^ 4" by (rule weaken_plus [OF A0(1)]) simp
  also have "\<dots> \<le> A0 * (3 / 2 * (1 - u) ^ 5)"
    using Bernoulli_inequality [of "- u" 5] one_plus_power4 [OF u_nonneg u_le(1)] u_le(1) u_nonneg
    by (intro mult_left_mono [OF _ A0(1)]) simp
  also have "\<dots> = 3 / 2 * (A0 * (1 - u) ^ 4 * (1 - u))" by (simp add: numeral_eq_Suc)
  also have "\<dots> \<le> 3 / 2 * ((A0 * (1 - u) ^ 4 + nz) * (1 - u))"
    using nz u_le(3) by (intro mult_left_mono mult_right_mono) simp_all
  also have "\<dots> \<le> 3 / 2 * rnd (q + nz)" by (rule mult_left_mono [OF A_lb]) simp
  finally show "k * X \<le> 3 / 2 * rnd (q + nz)" .
qed

lemma predicted_sizes:
  assumes ok: "fp_bounds n e" and n: "n < 10 ^ 8" and k: "0 \<le> k" "k \<le> 1 / 10000"
    and nz: "1 / 4096 \<le> nz" "nz \<le> 4 * 10 ^ 13" and walk: "0 \<le> w" "w \<le> 15 / 100000"
    and A: "pr_p00 pr = rnd (rnd (rnd (p00 e + rnd (rnd (2 * k) * - p01 e)) + rnd (rnd (k * k) * p11 e)) + nz)"
    and X: "pr_p01 pr = - rnd (- p01 e + rnd (k * p11 e))" and C: "pr_p11 pr = rnd (p11 e + w)"
  shows "(pr_p01 pr)\<^sup>2 * (1 + 32 * u) \<le> pr_p00 pr * pr_p11 pr" and "pr_p00 pr \<le> 5 * 10 ^ 13"
    and "k * - pr_p01 pr \<le> 3 / 2 * pr_p00 pr" and "pr_p11 pr \<le> 25 + real (Suc n) / 5000"
proof -
  define q where "q = rnd (rnd (p00 e + rnd (rnd (2 * k) * - p01 e)) + rnd (rnd (k * k) * p11 e))"
  have e: "0 \<le> p00 e" "0 \<le> - p01 e" "0 \<le> p11 e" "p11 e \<le> 25 + real n / 5000" "(- p01 e)\<^sup>2 \<le> p00 e * p11 e"
    using ok by (simp_all add: fp_bounds_def)
  note cov = predicted_covariance [OF e(1-3) k(1) e(5) predicted_small [OF ok n k] nz(1) walk(1), folded q_def]
  show "(pr_p01 pr)\<^sup>2 * (1 + 32 * u) \<le> pr_p00 pr * pr_p11 pr" "k * - pr_p01 pr \<le> 3 / 2 * pr_p00 pr"
    unfolding A [folded q_def] X C minus_minus power2_minus using cov(1,2) by simp_all
  have "\<bar>q + nz\<bar> \<le> 41 * 10 ^ 12" using cov(3,4) nz by simp
  from rnd_bound [OF this] show "pr_p00 pr \<le> 5 * 10 ^ 13" by (simp add: A [folded q_def])
  have "\<bar>p11 e + w\<bar> \<le> 20026" using e(3,4) walk n by simp
  from rnd_near [OF this] have "\<bar>pr_p11 pr - (p11 e + w)\<bar> \<le> 1 / 100000" by (simp add: C)
  then show "pr_p11 pr \<le> 25 + real (Suc n) / 5000"
    using e(4) walk(2) unfolding of_nat_Suc add_divide_distrib by linarith
qed

lemma predict_sizes:
  fixes cur :: i16 and mv :: u16
  assumes ok: "fp_bounds n e" and n: "n < 10 ^ 8" and dt: "dt \<le> 1000"
  defines "pr \<equiv> soc_predict rnd e cur dt mv" and "k \<equiv> soc_gain_k rnd BMS_PACK_CAPACITY_MAH dt"
  shows "(pr_p01 pr)\<^sup>2 * (1 + 32 * u) \<le> pr_p00 pr * pr_p11 pr" and "pr_p00 pr \<le> 5 * 10 ^ 13"
    and "k * - pr_p01 pr \<le> 3 / 2 * pr_p00 pr" and "pr_p11 pr \<le> 25 + real (Suc n) / 5000"
proof -
  define nz where "nz = soc_process_noise rnd (rnd (k * rnd (real_of_int (sint cur) - bias_ca e)))"
  have cap: "capacity_mah e = BMS_PACK_CAPACITY_MAH" using ok by (simp add: fp_bounds_def)
  have k: "0 \<le> k" "k \<le> 1 / 10000"
    using soc_gain_k_le [OF dt] soc_gain_k_nonneg by (simp_all add: k_def config_defs)
  have nz: "1 / 4096 \<le> nz" "nz \<le> 4 * 10 ^ 13"
    unfolding nz_def k_def by (rule soc_process_noise_ge) (rule soc_process_noise_le [OF delta_near(1) [OF ok n dt]])
  have "pr_p01 pr = - rnd (- p01 e + rnd (k * p11 e))"
    using rnd_minus [of "p01 e - rnd (k * p11 e)"] by (simp add: pr_def soc_predict_def Let_def k_def cap)
  note sz = predicted_sizes [OF ok n k nz soc_bias_walk_nonneg soc_bias_walk_le [OF dt] _ this]
  show "(pr_p01 pr)\<^sup>2 * (1 + 32 * u) \<le> pr_p00 pr * pr_p11 pr" "pr_p00 pr \<le> 5 * 10 ^ 13"
    "k * - pr_p01 pr \<le> 3 / 2 * pr_p00 pr" "pr_p11 pr \<le> 25 + real (Suc n) / 5000"
    by (rule sz; simp add: pr_def soc_predict_def Let_def nz_def k_def cap rnd_minus)+
qed

text \<open>
  The gains: the innovation variance exceeds the predicted variance by enough that the rounded gain
  stays away from one, and the bias gain is bounded by the bias variance.
\<close>

lemma gain_sizes:
  assumes sg: "predict_signs rnd pr" and s: "pr_s pr = rnd (pr_p00 pr + pr_noise pr)"
    and A: "pr_p00 pr \<le> 5 * 10 ^ 13" and gap: "(pr_p01 pr)\<^sup>2 * (1 + 32 * u) \<le> pr_p00 pr * pr_p11 pr"
    and C: "pr_p11 pr \<le> 20026"
  shows "rnd (pr_p00 pr / pr_s pr) \<le> 1 - 2 * u" and "- rnd (pr_p01 pr / pr_s pr) \<le> 300"
    and "pr_p00 pr / pr_s pr * (1 + u) \<le> 1 - 2 * u"
proof -
  define A where "A = pr_p00 pr" define R where "R = pr_noise pr" define S where "S = pr_s pr"
  have pr: "0 < A" "1 / 4 \<le> R" "A \<le> S" "R \<le> S" "pr_p01 pr \<le> 0"
    using sg by (simp_all add: predict_signs_def A_def R_def S_def)
  have "u * A \<le> 1 / 2 ^ 53 * (5 * 10 ^ 13)"
    using pr A u_small u_nonneg by (intro mult_mono) (simp_all add: A_def)
  then have uA: "u * A \<le> 1 / 100" by simp
  have uR: "u * R \<le> 1 / 1000 * R" using pr u_le(1) by (intro mult_right_mono) simp_all
  have "(1 - 3 * u) * (A + R) - A * (1 + u) = R - 3 * (u * R) - 4 * (u * A)" by (simp add: algebra_simps)
  also have "\<dots> \<ge> 0" using uA uR pr(2) by linarith
  finally have "A * (1 + u) \<le> (1 - 3 * u) * (A + R)" by simp
  also have "\<dots> \<le> (1 - 2 * u) * (1 - u) * (A + R)"
    using u_nonneg pr by (intro mult_right_mono) (simp_all add: algebra_simps)
  also have "\<dots> = (1 - 2 * u) * ((A + R) * (1 - u))" by simp
  also have "\<dots> \<le> (1 - 2 * u) * S"
    unfolding S_def s A_def R_def using rnd_lb [of "pr_p00 pr + pr_noise pr"] pr u_le(1)
    by (intro mult_left_mono) (simp_all add: A_def R_def)
  finally have AS: "A / S * (1 + u) \<le> 1 - 2 * u" using pr by (simp add: pos_divide_le_eq)
  then show "pr_p00 pr / pr_s pr * (1 + u) \<le> 1 - 2 * u" by (simp add: A_def S_def)
  from AS show "rnd (pr_p00 pr / pr_s pr) \<le> 1 - 2 * u"
    using rnd_ub [of "A / S"] pr by (simp add: A_def S_def)
  have "(- pr_p01 pr)\<^sup>2 \<le> (pr_p01 pr)\<^sup>2 * (1 + 32 * u)" using u_nonneg by (simp add: mult_le_cancel_left1)
  also have "\<dots> \<le> A * pr_p11 pr" using gap by (simp add: A_def)
  also have "\<dots> \<le> S * (20026 * (4 * S))"
    using pr C sg by (intro mult_mono) (simp_all add: predict_signs_def)
  also have "\<dots> \<le> (284 * S)\<^sup>2" using pr by (simp add: power2_eq_square)
  finally have "- pr_p01 pr \<le> 284 * S" by (rule power2_le_imp_le) (use pr in simp)
  then have "- pr_p01 pr / S \<le> 284" by (subst pos_divide_le_eq) (use pr in simp_all)
  moreover have "0 \<le> - pr_p01 pr / S" using pr by (intro divide_nonneg_nonneg) simp_all
  ultimately have "\<bar>- pr_p01 pr / S\<bar> \<le> 284" by (simp only: abs_of_nonneg)
  from rnd_bound [OF this] show "- rnd (pr_p01 pr / pr_s pr) \<le> 300"
    using rnd_minus [of "pr_p01 pr / S"] by (simp add: S_def)
qed

lemma corrected_variance_le:
  assumes sg: "predict_signs rnd pr" and s: "pr_s pr = rnd (pr_p00 pr + pr_noise pr)"
    and A: "pr_p00 pr \<le> 5 * 10 ^ 13" and R: "pr_noise pr \<le> 10800000"
  shows "p00 (soc_correct rnd e pr) \<le> 2 ^ 24"
proof -
  define A where "A = pr_p00 pr" define R where "R = pr_noise pr" define S where "S = pr_s pr"
  define k where "k = rnd (A / S)"
  have pr: "0 < A" "1 / 4 \<le> R" "A \<le> S" "R \<le> S" "rnd A = A"
    using sg by (simp_all add: predict_signs_def A_def R_def S_def)
  have k: "A / S * (1 - u) \<le> k" "0 \<le> k" unfolding k_def using rnd_lb [of "A / S"] pr by (simp_all add: rnd_nonneg)
  have kA: "A / S * (1 - u) * A * (1 - u) \<le> rnd (k * A)"
  proof -
    have "A / S * (1 - u) * A * (1 - u) \<le> k * A * (1 - u)"
      using k(1) pr u_le(3) by (intro mult_right_mono) simp_all
    also have "\<dots> \<le> rnd (k * A)" using k(2) pr by (intro rnd_lb) simp
    finally show ?thesis .
  qed
  have drop: "A - A / S * (1 - u) * A * (1 - u) \<le> 10900000"
  proof -
    have "u * A \<le> 1 / 2 ^ 53 * (5 * 10 ^ 13)"
      using pr A u_small u_nonneg by (intro mult_mono) (simp_all add: A_def)
    then have uA: "u * A \<le> 1 / 100" by simp
    have uR: "u * R \<le> 1 / 1000 * R" using pr u_le(1) by (intro mult_right_mono) simp_all
    have "A * S \<le> A * ((A + R) * (1 + u))"
      unfolding S_def s A_def R_def using rnd_ub [of "pr_p00 pr + pr_noise pr"] pr
      by (intro mult_left_mono) (simp_all add: A_def R_def)
    moreover have "A * (A * (1 - 2 * u)) \<le> A * (A * (1 - u)\<^sup>2)"
      using pr by (intro mult_left_mono) (simp_all add: power2_eq_square algebra_simps)
    ultimately have "A * S - A * (A * (1 - u)\<^sup>2) \<le> A * ((A + R) * (1 + u)) - A * (A * (1 - 2 * u))" by linarith
    also have "\<dots> = A * (R + u * R + 3 * (u * A))" by (simp add: algebra_simps)
    also have "\<dots> \<le> S * 10900000"
    proof (intro mult_mono)
      show "R + u * R + 3 * (u * A) \<le> 10900000" using uA uR R by (simp only: R_def [symmetric])
    qed (use pr u_nonneg in simp_all)
    finally have "(A * S - A * (A * (1 - u)\<^sup>2)) / S \<le> 10900000" using pr by (simp add: pos_divide_le_eq mult.commute)
    then show ?thesis using pr by (simp add: diff_divide_distrib power2_eq_square mult_ac)
  qed
  have "p00 (soc_correct rnd e pr) = rnd (A - rnd (k * A))"
    by (simp add: soc_correct_def Let_def A_def S_def k_def)
  also have "\<dots> \<le> rnd 10900000" using kA drop by (intro rnd_mono) linarith
  also have "\<dots> \<le> 2 ^ 24" by (simp add: rnd_numeral)
  finally show ?thesis .
qed

lemma corrected_covariance:
  assumes sg: "predict_signs rnd pr" and C: "rnd (pr_p11 pr) = pr_p11 pr"
    and gap: "(pr_p01 pr)\<^sup>2 * (1 + 32 * u) \<le> pr_p00 pr * pr_p11 pr"
    and k: "rnd (pr_p00 pr / pr_s pr) \<le> 1 - 2 * u"
  shows "(p01 (soc_correct rnd e pr))\<^sup>2 \<le> p00 (soc_correct rnd e pr) * p11 (soc_correct rnd e pr)"
    and "0 \<le> p11 (soc_correct rnd e pr)" and "p11 (soc_correct rnd e pr) \<le> pr_p11 pr"
proof -
  define A where "A = pr_p00 pr" define X where "X = - pr_p01 pr" define S where "S = pr_s pr"
  define k where "k = rnd (A / S)" define g where "g = rnd (X / S)"
  let ?e = "soc_correct rnd e pr"
  have pr: "0 < A" "0 \<le> X" "A \<le> S" "rnd A = A" "rnd X = X"
    using sg by (simp_all add: predict_signs_def A_def X_def S_def rnd_minus)
  have g: "0 \<le> g" "g \<le> X / S * (1 + u)" unfolding g_def using rnd_ub [of "X / S"] pr by (simp_all add: rnd_nonneg)
  have k: "A / S * (1 - u) \<le> k" "k \<le> 1 - 2 * u" "0 \<le> k" "k \<le> 1"
    unfolding k_def using rnd_lb [of "A / S"] pr kalman_gain_range [OF sg] k by (simp_all add: A_def S_def)
  have a: "p00 ?e = rnd (A - rnd (k * A))" by (simp add: soc_correct_def Let_def A_def S_def k_def)
  have b: "- p01 ?e = rnd (X - rnd (k * X))"
    using rnd_minus [of "X - rnd (k * X)"] rnd_minus [of "k * X"]
    by (simp add: soc_correct_def Let_def A_def X_def S_def k_def add.commute)
  have c: "p11 ?e = rnd (pr_p11 pr - rnd (g * X))"
    using rnd_minus [of "X / S"] by (simp add: soc_correct_def Let_def X_def S_def g_def)
  have kA: "rnd (k * A) \<le> A" "rnd (k * A) \<le> k * A * (1 + u)"
    using rnd_mono [of "k * A" A] k pr by (simp_all add: mult_left_le_one_le rnd_ub)
  have "(A - k * A * (1 + u)) * (1 - u) \<le> (A - rnd (k * A)) * (1 - u)"
    using kA(2) u_le(3) by (intro mult_right_mono) simp_all
  then have a': "(A - k * A * (1 + u)) * (1 - u) \<le> p00 ?e"
    unfolding a using rnd_lb [of "A - rnd (k * A)"] kA(1) by simp
  have kX: "rnd (k * X) \<le> X" "k * X * (1 - u) \<le> rnd (k * X)"
    using rnd_mono [of "k * X" X] k pr by (simp_all add: mult_left_le_one_le rnd_lb)
  have "(X - rnd (k * X)) * (1 + u) \<le> (X - k * X * (1 - u)) * (1 + u)"
    using kX(2) u_nonneg by (intro mult_right_mono) simp_all
  then have b': "- p01 ?e \<le> (X - k * X * (1 - u)) * (1 + u)" "0 \<le> - p01 ?e"
    unfolding b using rnd_ub [of "X - rnd (k * X)"] kX(1) by (simp_all add: rnd_nonneg)
  have "X\<^sup>2 * (1 + 32 * u) \<le> A * pr_p11 pr" using gap by (simp add: X_def A_def)
  then have room: "X\<^sup>2 / A * (1 - k + 28 * u) \<le> pr_p11 pr - g * X * (1 + u)"
    by (rule correct_room [OF u_nonneg u_le(1) pr(1-3) _ k(1,4,3) g(2)])
  also have "\<dots> \<le> pr_p11 pr - rnd (g * X)" using rnd_ub [of "g * X"] g(1) pr by simp
  finally have room: "X\<^sup>2 / A * (1 - k + 28 * u) \<le> pr_p11 pr - rnd (g * X)" .
  moreover have "0 \<le> X\<^sup>2 / A * (1 - k + 28 * u)" using k pr u_nonneg by simp
  ultimately have c': "(pr_p11 pr - rnd (g * X)) * (1 - u) \<le> p11 ?e" unfolding c by (intro rnd_lb) simp
  note psd = correct_psd [OF u_nonneg u_le(1) pr(1,2) b'(2) k(2,3) a' b'(1) room c']
  from psd show "(p01 ?e)\<^sup>2 \<le> p00 ?e * p11 ?e" "0 \<le> p11 ?e" by simp_all
  have "0 \<le> rnd (g * X)" using g pr by (simp add: rnd_nonneg)
  then have "p11 ?e \<le> rnd (pr_p11 pr)" unfolding c by (intro rnd_mono) simp
  with C show "p11 ?e \<le> pr_p11 pr" by simp
qed

lemma pull_back_gain:
  assumes sg: "predict_signs rnd pr" and k: "0 \<le> k" "k * - pr_p01 pr \<le> 3 / 2 * pr_p00 pr"
  shows "k * - rnd (pr_p01 pr / pr_s pr) \<le> 2"
proof -
  define A where "A = pr_p00 pr" define X where "X = - pr_p01 pr" define S where "S = pr_s pr"
  have pr: "0 < A" "0 \<le> X" "A \<le> S" "k * X \<le> 3 / 2 * A"
    using sg k by (simp_all add: predict_signs_def A_def X_def S_def)
  have "- rnd (pr_p01 pr / pr_s pr) = rnd (X / S)" using rnd_minus [of "X / S"] by (simp add: X_def S_def)
  also have "\<dots> \<le> X / S * (4 / 3)"
    using rnd_ub [of "X / S"] mult_left_mono [of "1 + u" "4 / 3" "X / S"] pr u_le(1) by simp
  finally have "k * - rnd (pr_p01 pr / pr_s pr) \<le> k * (X / S * (4 / 3))" using k(1) by (rule mult_left_mono)
  also have "\<dots> = k * X * (4 / 3) / S" by simp
  also have "\<dots> \<le> 2"
  proof (subst pos_divide_le_eq)
    show "0 < S" using pr by simp
    show "k * X * (4 / 3) \<le> 2 * S" using pr by linarith
  qed
  finally show ?thesis .
qed

lemma update_ok:
  assumes ok: "fp_bounds n e" and n: "n < 10 ^ 8" and dt: "dt \<le> 1000"
  shows "\<exists>e'. soc_estimator_update rnd e cur dt mv = Some e' \<and> fp_bounds (Suc n) e'"
proof -
  define pr where "pr = soc_predict rnd e cur dt mv"
  define k where "k = soc_gain_k rnd BMS_PACK_CAPACITY_MAH dt"
  let ?e = "soc_correct rnd e pr"
  have sg: "predict_signs rnd pr" unfolding pr_def by (rule soc_predict_signs [OF fp_bounds_signs [OF ok]])
  note sz = predict_sizes [OF ok n dt, of cur mv, folded pr_def k_def]
  have s: "pr_s pr = rnd (pr_p00 pr + pr_noise pr)" "pr_noise pr \<le> 10800000" "rnd (pr_p11 pr) = pr_p11 pr"
    using soc_measurement_noise_le by (simp_all add: pr_def soc_predict_def Let_def rnd_idem)
  have C: "pr_p11 pr \<le> 20026" using sz(4) n by (simp add: field_simps)
  note gain = gain_sizes [OF sg s(1) sz(2,1) C]
  note cov = corrected_covariance [OF sg s(3) sz(1) gain(1), of e]
  define g where "g = - rnd (pr_p01 pr / pr_s pr)"
  have g: "0 \<le> g" "g \<le> 300" using kalman_gain_range(3) [OF sg] gain(2) by (simp_all add: g_def)
  have "k * g \<le> 2" unfolding g_def k_def using soc_gain_k_nonneg sz(3) by (intro pull_back_gain [OF sg]) (simp_all add: k_def)
  then have bias: "\<bar>bias_ca ?e\<bar> \<le> 32000 * real (Suc n)"
    using corrected_bias [OF _ n soc_gain_k_nonneg g _ residual_size [OF ok n dt, of cur mv, folded pr_def]] ok
    by (simp add: fp_bounds_def soc_correct_def Let_def k_def g_def)
  have "fp_bounds (Suc n) ?e"
    using ok sz(4) cov bias soc_correct_signs [OF sg, of e] corrected_variance_le [OF sg s(1) sz(2) s(2), of e]
    by (simp add: fp_bounds_def soc_correct_def [of rnd e pr] Let_def)
  moreover have "soc_estimator_update rnd e cur dt mv = Some ?e"
    using update_total [OF fp_bounds_signs [OF ok], of cur dt mv] by (auto simp: soc_estimator_update_Some pr_def)
  ultimately show ?thesis by blast
qed

end

section \<open>Runs with exponents without bounds\<close>

lemma fp_bounds_init: "fp_bounds 0 (soc_estimator_init round_53 BMS_PACK_CAPACITY_MAH)"
  by (simp add: fp_bounds_def soc_estimator_init_def config_defs f53.rnd_1 f53.rnd_numeral)

lemma soc_run_fp_bounds:
  assumes "fp_bounds n e" and "n + length ms \<le> 10 ^ 8" and "list_all (\<lambda>(cur, dt, mv). dt \<le> 1000) ms"
  shows "\<exists>e'. soc_run round_53 e ms = Some e' \<and> fp_bounds (n + length ms) e'"
  using assms
proof (induction ms arbitrary: n e)
  case (Cons m ms)
  obtain cur dt mv where m: "m = (cur, dt, mv)" by (cases m)
  obtain e' where e': "soc_estimator_update round_53 e cur dt mv = Some e'" "fp_bounds (Suc n) e'"
    using f53_rel.update_ok [OF Cons.prems(1), of dt cur mv] Cons.prems(2,3) by (auto simp: m)
  with Cons.IH [OF e'(2)] Cons.prems(2,3) show ?case by (simp add: m)
qed simp

text \<open>Without underflow, intervals of zero milliseconds are no exception.\<close>

lemma soc_run_53_positive_semidefinite:
  assumes "length ms \<le> 10 ^ 8" and "list_all (\<lambda>(cur, dt, mv). dt \<le> 1000) ms"
  shows "\<exists>e'. soc_run round_53 (soc_estimator_init round_53 BMS_PACK_CAPACITY_MAH) ms = Some e' \<and>
    0 \<le> soc_percent e' \<and> soc_percent e' \<le> 100 \<and>
    0 \<le> p00 e' \<and> p00 e' \<le> 2 ^ 24 \<and> 0 \<le> p11 e' \<and> (p01 e')\<^sup>2 \<le> p00 e' * p11 e'"
  using soc_run_fp_bounds [OF fp_bounds_init, of ms] assms by (auto simp: fp_bounds_def)

end
