(* ===== verification/Soc_Binary64.thy ===== *)
theory Soc_Binary64
  imports Soc_Float
begin

text \<open>
  The filter of \<open>soc_estimator.c\<close> in IEEE binary64, with gradual underflow and overflow. The charge and
  the bias may become subnormal, and their errors do no harm; the variances, the correlation and the gains
  stay far above that range as long as the intervals are positive, so the rounding-error analysis of
  \<open>Soc_Float\<close> applies to them. No operation of the filter overflows.
\<close>

section \<open>Lower bounds\<close>

lemma pow_ge_0: "1 / 2 ^ n \<le> x \<Longrightarrow> 0 \<le> x" for x :: real
  by (rule order_trans [of 0 "1 / 2 ^ n"]) simp_all

lemma pow_add_ge: "1 / 2 ^ n \<le> x \<Longrightarrow> 0 \<le> y \<Longrightarrow> 1 / 2 ^ n \<le> x + y" for x y :: real
  by linarith

lemma pow_mult_ge: "1 / 2 ^ a \<le> x \<Longrightarrow> 1 / 2 ^ b \<le> y \<Longrightarrow> 1 / 2 ^ (a + b) \<le> x * y" for x y :: real
proof -
  assume xy: "1 / 2 ^ a \<le> x" "1 / 2 ^ b \<le> y"
  have "1 / 2 ^ a * (1 / 2 ^ b) \<le> x * y" by (rule mult_mono [OF xy pow_ge_0 [OF xy(1)]]) simp
  then show ?thesis by (simp add: power_add)
qed

context fp_rounding
begin

lemma rnd_pow_ge: "1 / 2 ^ n \<le> x \<Longrightarrow> n \<le> 1074 \<Longrightarrow> 1 / 2 ^ n \<le> rnd x"
proof -
  assume x: "1 / 2 ^ n \<le> x" "n \<le> 1074"
  have "rnd (1 / 2 ^ n) = 1 / 2 ^ n"
    using rnd_dyadic [of 1 "- int n"] x(2) by (simp add: power_int_minus field_simps)
  with rnd_mono [OF x(1)] show ?thesis by simp
qed

lemma dt_ge_real: "1 \<le> dt \<Longrightarrow> 1 \<le> real_of_int (uint dt)" for dt :: u32
proof -
  assume "1 \<le> dt"
  then have "1 \<le> uint dt" by (simp add: word_le_def)
  then show ?thesis by linarith
qed

lemma soc_gain_k_ge: "1 \<le> dt \<Longrightarrow> 1 / 2 ^ 25 \<le> soc_gain_k rnd 5000 dt"
proof -
  assume "1 \<le> dt"
  then have "1 / 2 ^ 25 \<le> real_of_int (uint dt) / 18000000" using dt_ge_real [of dt] by (simp add: pos_le_divide_eq)
  from rnd_pow_ge [OF this] show ?thesis by (simp add: soc_gain_k_def rnd_numeral)
qed

lemma soc_bias_walk_ge: "1 \<le> dt \<Longrightarrow> 1 / 2 ^ 24 \<le> soc_bias_walk rnd dt"
proof -
  assume "1 \<le> dt"
  then have "1 / 2 ^ 10 \<le> real_of_int (uint dt) / 1000" using dt_ge_real [of dt] by (simp add: pos_le_divide_eq)
  then have "1 / 2 ^ 10 \<le> rnd (real_of_int (uint dt) / 1000)" by (rule rnd_pow_ge) simp
  moreover have "1 / 2 ^ 14 \<le> rnd (1 / 10000)" by (rule rnd_pow_ge) simp_all
  ultimately have "1 / 2 ^ (14 + 10) \<le> rnd (1 / 10000) * rnd (real_of_int (uint dt) / 1000)" by (intro pow_mult_ge)
  then have "1 / 2 ^ (14 + 10) \<le> rnd (rnd (1 / 10000) * rnd (real_of_int (uint dt) / 1000))" by (rule rnd_pow_ge) simp
  then show ?thesis by (simp add: soc_bias_walk_def config_defs)
qed

end

context fp_relative
begin

text \<open>What a correction leaves of the variances and of the correlation.\<close>

lemma kept_part:
  assumes "0 \<le> y" "0 \<le> k" "k \<le> 1 - 2 * u"
  shows "u * y \<le> y - rnd (k * y)"
proof -
  have "rnd (k * y) \<le> k * y * (1 + u)" using assms by (intro rnd_ub) simp
  also have "\<dots> \<le> (1 - 2 * u) * y * (1 + u)" using assms u_nonneg by (intro mult_right_mono) simp_all
  also have "\<dots> \<le> (1 - u) * y"
  proof -
    have "(1 - 2 * u) * (1 + u) \<le> 1 - u" using u_nonneg by (simp add: algebra_simps)
    from mult_right_mono [OF this assms(1)] show ?thesis by (simp add: mult_ac)
  qed
  finally show ?thesis by (simp add: algebra_simps)
qed

lemma kept_bias_variance:
  assumes "0 < A" "A \<le> S" "0 \<le> X" "0 \<le> g" "g \<le> X / S * (1 + u)" "0 \<le> C"
    and gap: "X\<^sup>2 * (1 + 32 * u) \<le> A * C" and AS: "A / S * (1 + u) \<le> 1 - 2 * u"
  shows "2 * u * C \<le> C - rnd (g * X)"
proof -
  have S: "0 < S" using assms by simp
  have "rnd (g * X) \<le> g * X * (1 + u)" using assms by (intro rnd_ub) simp
  also have "\<dots> \<le> X / S * (1 + u) * X * (1 + u)" using assms u_nonneg by (intro mult_right_mono) simp_all
  also have "\<dots> = X\<^sup>2 * (1 + u) * (1 + u) / S" by (simp add: power2_eq_square)
  also have "\<dots> \<le> X\<^sup>2 * (1 + 32 * u) * (1 + u) / S"
    using S u_nonneg by (intro divide_right_mono mult_right_mono mult_left_mono) simp_all
  also have "\<dots> \<le> A * C * (1 + u) / S" using S gap u_nonneg by (intro divide_right_mono mult_right_mono) simp_all
  also have "\<dots> = A / S * (1 + u) * C" by simp
  also have "\<dots> \<le> (1 - 2 * u) * C" using AS assms by (intro mult_right_mono) simp_all
  finally show ?thesis by (simp add: algebra_simps)
qed

end

section \<open>The invariant\<close>

definition fp_ok :: "nat \<Rightarrow> soc_estimator_t \<Rightarrow> bool" where
  "fp_ok n e \<longleftrightarrow>
     fp_bounds n e \<and> 1 / 2 ^ 80 \<le> p00 e \<and> 1 / 2 ^ 80 \<le> p11 e \<and> (p01 e = 0 \<or> 1 / 2 ^ 160 \<le> - p01 e)"

lemma fp_ok_bounds: "fp_ok n e \<Longrightarrow> fp_bounds n e"
  by (simp add: fp_ok_def)

lemma fp_ok_signs: "fp_ok n e \<Longrightarrow> filter_signs e"
  by (rule fp_bounds_signs) (rule fp_ok_bounds)

text \<open>A result that is not tiny is rounded as with unbounded exponents, and stays as large.\<close>

lemma round_same:
  assumes "1 / 2 ^ n \<le> x" and "n \<le> 300"
  shows "round_f64 x = round_53 x" and "1 / 2 ^ n \<le> round_53 x"
  using no_underflowD [OF no_underflow_ge [OF assms]] f53.rnd_pow_ge [OF assms(1)] assms(2) by simp_all

lemma predict_same:
  fixes cur :: i16 and mv :: u16
  assumes ok: "fp_ok n e" and dt: "1 \<le> dt"
  defines "pr \<equiv> soc_predict round_f64 e cur dt mv" and "k \<equiv> soc_gain_k round_f64 BMS_PACK_CAPACITY_MAH dt"
  defines "nz \<equiv> soc_process_noise round_f64 (round_f64 (k * round_f64 (real_of_int (sint cur) - bias_ca e)))"
  shows "pr_p00 pr = round_53 (round_53 (round_53 (p00 e + round_53 (round_53 (2 * k) * - p01 e)) +
      round_53 (round_53 (k * k) * p11 e)) + nz)"
    and "pr_p01 pr = - round_53 (- p01 e + round_53 (k * p11 e))"
    and "pr_p11 pr = round_53 (p11 e + soc_bias_walk round_f64 dt)"
    and "pr_s pr = round_53 (pr_p00 pr + pr_noise pr)"
    and "1 / 2 ^ 12 \<le> pr_p00 pr" and "1 / 2 ^ 105 \<le> - pr_p01 pr" and "1 / 2 ^ 24 \<le> pr_p11 pr"
proof -
  have e: "capacity_mah e = BMS_PACK_CAPACITY_MAH" "1 / 2 ^ 80 \<le> p00 e" "1 / 2 ^ 80 \<le> p11 e"
    "p01 e = 0 \<or> 1 / 2 ^ 160 \<le> - p01 e" "0 \<le> - p01 e"
    using ok by (simp_all add: fp_ok_def fp_bounds_def)
  have k: "1 / 2 ^ 25 \<le> k" using f64.soc_gain_k_ge [OF dt] by (simp add: k_def config_defs)
  have "1 / 2 ^ 24 \<le> 2 * k" using k by simp
  note k2 = round_same [OF this]
  have b: "round_f64 (round_53 (2 * k) * - p01 e) = round_53 (round_53 (2 * k) * - p01 e)"
    "0 \<le> round_53 (round_53 (2 * k) * - p01 e)"
  proof -
    have "round_53 (2 * k) * - p01 e = 0 \<or> 1 / 2 ^ (24 + 160) \<le> round_53 (2 * k) * - p01 e"
      using e(4) pow_mult_ge [OF k2(2), of 160 "- p01 e"] by auto
    then show "round_f64 (round_53 (2 * k) * - p01 e) = round_53 (round_53 (2 * k) * - p01 e)"
      using round_same(1) [of "24 + 160"] by (auto simp: f64.rnd_0 f53.rnd_0)
    show "0 \<le> round_53 (round_53 (2 * k) * - p01 e)"
      using e(5) k by (intro f53.rnd_nonneg mult_nonneg_nonneg) simp_all
  qed
  have "1 / 2 ^ 80 \<le> p00 e + round_53 (round_53 (2 * k) * - p01 e)" by (rule pow_add_ge [OF e(2) b(2)])
  note ab = round_same [OF this]
  note kk = round_same [OF pow_mult_ge [OF k k]]
  note kkc = round_same [OF pow_mult_ge [OF kk(2) e(3)]]
  have "1 / 2 ^ 80 \<le> round_53 (p00 e + round_53 (round_53 (2 * k) * - p01 e)) + round_53 (round_53 (k * k) * p11 e)"
    by (rule pow_add_ge [OF ab(2) pow_ge_0 [OF kkc(2)]]) simp_all
  note q = round_same [OF this]
  have nz: "1 / 2 ^ 12 \<le> nz" using f64_near.soc_process_noise_ge unfolding nz_def by simp
  have "1 / 2 ^ 12 \<le> round_53 (round_53 (p00 e + round_53 (round_53 (2 * k) * - p01 e)) +
      round_53 (round_53 (k * k) * p11 e)) + nz"
    using pow_add_ge [OF nz pow_ge_0 [OF q(2)]] by (simp only: add.commute)
  note A = round_same [OF this]
  note kc = round_same [OF pow_mult_ge [OF k e(3)]]
  have "1 / 2 ^ (25 + 80) \<le> - p01 e + round_53 (k * p11 e)"
    using pow_add_ge [OF kc(2) e(5)] by (simp only: add.commute)
  note X = round_same [OF this]
  have "1 / 2 ^ 24 \<le> p11 e + soc_bias_walk round_f64 dt"
    using pow_add_ge [OF f64.soc_bias_walk_ge [OF dt] pow_ge_0 [OF e(3)]] by (simp only: add.commute)
  note C = round_same [OF this]
  show p00: "pr_p00 pr = round_53 (round_53 (round_53 (p00 e + round_53 (round_53 (2 * k) * - p01 e)) +
      round_53 (round_53 (k * k) * p11 e)) + nz)"
    unfolding pr_def soc_predict_def Let_def e(1) k_def [symmetric] nz_def [symmetric]
    using k2(1) b(1) ab(1) kk(1) kkc(1) q(1) A(1) by (simp add: f53.rnd_minus f64.rnd_minus)
  show p01: "pr_p01 pr = - round_53 (- p01 e + round_53 (k * p11 e))"
    unfolding pr_def soc_predict_def Let_def e(1) k_def [symmetric]
    using kc(1) X(1) f64.rnd_minus [of "p01 e - round_53 (k * p11 e)"] by simp
  show p11: "pr_p11 pr = round_53 (p11 e + soc_bias_walk round_f64 dt)"
    unfolding pr_def soc_predict_def Let_def using C(1) by simp
  show A12: "1 / 2 ^ 12 \<le> pr_p00 pr" unfolding p00 using A(2) by simp
  show "1 / 2 ^ 105 \<le> - pr_p01 pr" unfolding p01 using X(2) by simp
  show "1 / 2 ^ 24 \<le> pr_p11 pr" unfolding p11 using C(2) by simp
  have R: "pr_noise pr = soc_measurement_noise round_f64 cur" "pr_s pr = round_f64 (pr_p00 pr + pr_noise pr)"
    by (simp_all add: pr_def soc_predict_def Let_def)
  have "1 / 2 ^ 12 \<le> pr_p00 pr + pr_noise pr" using A12 f64.soc_measurement_noise_ge [of cur] by (simp add: R(1))
  from round_same(1) [OF this] show "pr_s pr = round_53 (pr_p00 pr + pr_noise pr)" by (simp add: R(2))
qed

text \<open>The correction of the covariance is the one with unbounded exponents, and keeps it away from underflow.\<close>

lemma correct_same:
  assumes sg: "predict_signs round_53 pr" and A: "1 / 2 ^ 12 \<le> pr_p00 pr" and X: "1 / 2 ^ 105 \<le> - pr_p01 pr"
    and C: "1 / 2 ^ 24 \<le> pr_p11 pr" and S: "pr_s pr \<le> 2 ^ 47"
    and gap: "(pr_p01 pr)\<^sup>2 * (1 + 32 * (1 / 2 ^ 53)) \<le> pr_p00 pr * pr_p11 pr"
    and AS: "pr_p00 pr / pr_s pr * (1 + 1 / 2 ^ 53) \<le> 1 - 2 * (1 / 2 ^ 53)"
    and K: "round_53 (pr_p00 pr / pr_s pr) \<le> 1 - 2 * (1 / 2 ^ 53)"
  shows "p00 (soc_correct round_f64 e pr) = p00 (soc_correct round_53 e pr)"
    and "p01 (soc_correct round_f64 e pr) = p01 (soc_correct round_53 e pr)"
    and "p11 (soc_correct round_f64 e pr) = p11 (soc_correct round_53 e pr)"
    and "round_f64 (pr_p01 pr / pr_s pr) = round_53 (pr_p01 pr / pr_s pr)"
    and "1 / 2 ^ 80 \<le> p00 (soc_correct round_f64 e pr)" and "1 / 2 ^ 160 \<le> - p01 (soc_correct round_f64 e pr)"
    and "1 / 2 ^ 80 \<le> p11 (soc_correct round_f64 e pr)"
proof -
  define A where "A = pr_p00 pr" define X where "X = - pr_p01 pr" define S where "S = pr_s pr" define C where "C = pr_p11 pr"
  define k where "k = round_53 (A / S)" define g where "g = round_53 (X / S)"
  have lb: "1 / 2 ^ 12 \<le> A" "1 / 2 ^ 105 \<le> X" "1 / 2 ^ 24 \<le> C" using assms by (simp_all add: A_def X_def C_def)
  have S: "0 < S" "A \<le> S" "S \<le> 2 ^ 47" using sg S by (simp_all add: predict_signs_def A_def S_def)
  have nn: "0 < A" "0 \<le> X" "0 \<le> C" using sg lb(2) by (auto simp: predict_signs_def A_def X_def C_def)
  have Sinv: "1 / 2 ^ 47 \<le> 1 / S" using S by (intro divide_left_mono) simp_all
  have "1 / 2 ^ (12 + 47) \<le> A / S" using pow_mult_ge [OF lb(1) Sinv] by simp
  note k = round_same [OF this, folded k_def]
  have "1 / 2 ^ (105 + 47) \<le> X / S" using pow_mult_ge [OF lb(2) Sinv] by simp
  note g = round_same [OF this, folded g_def]
  have k': "0 \<le> k" "k \<le> 1 - 2 * (1 / 2 ^ 53)" using nn S K by (simp_all add: k_def A_def S_def f53.rnd_nonneg)
  have g': "0 \<le> g" "g \<le> X / S * (1 + 1 / 2 ^ 53)"
    unfolding g_def using nn S f53_rel.rnd_ub [of "X / S"] by (simp_all add: f53.rnd_nonneg)
  note kA = round_same [OF pow_mult_ge [OF k(2) lb(1)]]
  note kX = round_same [OF pow_mult_ge [OF k(2) lb(2)]]
  note gX = round_same [OF pow_mult_ge [OF g(2) lb(2)]]
  have u53: "(1 / 2 ^ 53 :: real) \<le> 1 / 2 ^ 53" ..
  have "1 / 2 ^ (53 + 12) \<le> A - round_53 (k * A)"
    using pow_mult_ge [OF u53 lb(1)] f53_rel.kept_part [OF less_imp_le [OF nn(1)] k'] by linarith
  note a = round_same [OF this]
  have "1 / 2 ^ (53 + 105) \<le> X - round_53 (k * X)"
    using pow_mult_ge [OF u53 lb(2)] f53_rel.kept_part [OF nn(2) k'] by linarith
  note b = round_same [OF this]
  have "2 * (1 / 2 ^ 53) * C \<le> C - round_53 (g * X)"
    using gap AS by (intro f53_rel.kept_bias_variance [OF nn(1) S(2) nn(2) g' nn(3)]) (simp_all add: A_def X_def C_def S_def)
  moreover have "1 / 2 ^ 53 * C \<le> 2 * (1 / 2 ^ 53) * C" using nn(3) by (intro mult_right_mono) simp_all
  ultimately have "1 / 2 ^ (53 + 24) \<le> C - round_53 (g * X)"
    using pow_mult_ge [OF u53 lb(3)] by (blast intro: order_trans)
  note c = round_same [OF this]
  have neg: "pr_p01 pr = - X" "- X / S = - (X / S)" "k * - X = - (k * X)" "- g * - X = g * X" "- X - - y = - (X - y)" for y
    by (simp_all add: X_def)
  note turned = f64.rnd_minus [of "X - round_53 (k * X)"] f53.rnd_minus [of "X - round_53 (k * X)"]
  note fields = soc_correct_def Let_def A_def [symmetric] S_def [symmetric] C_def [symmetric] neg
    f64.rnd_minus f53.rnd_minus soc_estimator_t.simps
  show eq: "p00 (soc_correct round_f64 e pr) = p00 (soc_correct round_53 e pr)"
    "p01 (soc_correct round_f64 e pr) = p01 (soc_correct round_53 e pr)"
    "p11 (soc_correct round_f64 e pr) = p11 (soc_correct round_53 e pr)"
    "round_f64 (pr_p01 pr / pr_s pr) = round_53 (pr_p01 pr / pr_s pr)"
    unfolding fields k_def [symmetric] g_def [symmetric]
    using k(1) g(1) kA(1) kX(1) gX(1) a(1) b(1) c(1) turned by (simp_all add: g_def [symmetric] neg f64.rnd_minus f53.rnd_minus)
  show "1 / 2 ^ 80 \<le> p00 (soc_correct round_f64 e pr)" unfolding eq unfolding fields k_def [symmetric] using a(2) by simp
  show "1 / 2 ^ 160 \<le> - p01 (soc_correct round_f64 e pr)" unfolding eq unfolding fields k_def [symmetric] using b(2) turned by simp
  show "1 / 2 ^ 80 \<le> p11 (soc_correct round_f64 e pr)" unfolding eq unfolding fields g_def [symmetric] using c(2) by simp
qed

lemma f64_update_ok:
  assumes ok: "fp_ok n e" and n: "n < 10 ^ 8" and dt: "1 \<le> dt" "dt \<le> 1000"
  shows "\<exists>e'. soc_estimator_update round_f64 e cur dt mv = Some e' \<and> fp_ok (Suc n) e'"
proof -
  define pr where "pr = soc_predict round_f64 e cur dt mv"
  define k where "k = soc_gain_k round_f64 BMS_PACK_CAPACITY_MAH dt"
  let ?u = "1 / 2 ^ 53 :: real" and ?e = "soc_correct round_f64 e pr" and ?e' = "soc_correct round_53 e pr"
  note ok' = fp_ok_bounds [OF ok]
  note same = predict_same [OF ok dt(1), of cur mv, folded pr_def k_def]
  have k: "0 \<le> k" "k \<le> 1 / 10000"
    using f64_near.soc_gain_k_le [OF dt(2)] f64.soc_gain_k_nonneg by (simp_all add: k_def config_defs)
  note nz = f64_near.soc_process_noise_ge f64_near.soc_process_noise_le [OF f64_near.delta_near(1) [OF ok' n dt(2), of cur, folded k_def]]
  note sz = f53_rel.predicted_sizes [OF ok' n k nz f64.soc_bias_walk_nonneg f64_near.soc_bias_walk_le [OF dt(2)] same(1-3)]
  have R: "pr_noise pr \<le> 10800000"
    using f64_near.soc_measurement_noise_le by (simp add: pr_def soc_predict_def Let_def)
  have sg64: "predict_signs round_f64 pr" unfolding pr_def by (rule f64.soc_predict_signs [OF fp_ok_signs [OF ok]])
  have "round_53 (pr_p00 pr) = pr_p00 pr" "round_53 (pr_p01 pr) = pr_p01 pr" "round_53 (pr_p11 pr) = pr_p11 pr"
    unfolding same(1-3) by (simp_all only: f53.rnd_idem f53.rnd_minus)
  then have sg: "predict_signs round_53 pr" and C53: "round_53 (pr_p11 pr) = pr_p11 pr"
    using sg64 by (simp_all add: predict_signs_def)
  have C: "pr_p11 pr \<le> 20026" using sz(4) n by (simp add: field_simps)
  note gain = f53_rel.gain_sizes [OF sg same(4) sz(2,1) C]
  note cov = f53_rel.corrected_covariance [OF sg C53 sz(1) gain(1), of e]
  have "\<bar>pr_p00 pr + pr_noise pr\<bar> \<le> 6 * 10 ^ 13" using sz(2) R sg by (simp add: predict_signs_def)
  from f53_rel.rnd_bound [OF this] have S: "pr_s pr \<le> 2 ^ 47" by (simp add: same(4))
  note corr = correct_same(1-3,5-7) [OF sg same(5-7) S sz(1) gain(3,1), of e]
  note ratio = correct_same(4) [OF sg same(5-7) S sz(1) gain(3,1)]
  define g where "g = - round_f64 (pr_p01 pr / pr_s pr)"
  have g: "0 \<le> g" "g \<le> 300" "k * g \<le> 2"
    using f53.kalman_gain_range(3) [OF sg] gain(2) f53_rel.pull_back_gain [OF sg k(1) sz(3)] by (simp_all add: g_def ratio)
  have bias: "\<bar>bias_ca ?e\<bar> \<le> 32000 * real (Suc n)"
    using f64_near.corrected_bias [OF _ n k(1) g f64_near.residual_size [OF ok' n dt(2), of cur mv, folded pr_def k_def]] ok'
    by (simp add: fp_bounds_def soc_correct_def Let_def g_def)
  have "fp_bounds (Suc n) ?e"
    using ok' sz(4) cov bias f53.soc_correct_signs [OF sg, of e] f53_rel.corrected_variance_le [OF sg same(4) sz(2) R, of e] corr(1-3)
    by (simp add: fp_bounds_def) (simp add: soc_correct_def Let_def)
  then have "fp_ok (Suc n) ?e" using corr(4-6) by (simp add: fp_ok_def)
  moreover have "soc_estimator_update round_f64 e cur dt mv = Some ?e"
    using f64.update_total [OF fp_ok_signs [OF ok], of cur dt mv] by (auto simp: soc_estimator_update_Some pr_def)
  ultimately show ?thesis by blast
qed

lemma fp_ok_init: "fp_ok 0 (soc_estimator_init round_f64 BMS_PACK_CAPACITY_MAH)"
  by (simp add: fp_ok_def fp_bounds_def soc_estimator_init_def config_defs f64.rnd_1 f64.rnd_numeral)

section \<open>No overflow\<close>

definition below :: "nat \<Rightarrow> real \<Rightarrow> bool" where
  "below n x \<longleftrightarrow> \<bar>x\<bar> \<le> 2 ^ n"

lemma below_mono: "below m x \<Longrightarrow> m \<le> n \<Longrightarrow> below n x"
  unfolding below_def by (meson order_trans one_le_numeral power_increasing)

lemma below_add: "below m x \<Longrightarrow> below n y \<Longrightarrow> below (Suc (max m n)) (x + y)"
  using below_mono [of m x "max m n"] below_mono [of n y "max m n"] by (simp add: below_def)

lemma below_diff: "below m x \<Longrightarrow> below n y \<Longrightarrow> below (Suc (max m n)) (x - y)"
  using below_add [of m x n "- y"] by (simp add: below_def)

lemma below_mult: "below m x \<Longrightarrow> below n y \<Longrightarrow> below (m + n) (x * y)"
  unfolding below_def abs_mult power_add by (intro mult_mono) simp_all

lemma below_divide: "below m x \<Longrightarrow> 1 / 4 \<le> y \<Longrightarrow> below (m + 2) (x / y)"
proof -
  assume x: "below m x" and y: "1 / 4 \<le> y"
  have "inverse y \<le> inverse (1 / 4)" using y by (intro le_imp_inverse_le) simp_all
  then have "below 2 (inverse y)" using y by (simp add: below_def)
  from below_mult [OF x this] show ?thesis by (simp add: divide_inverse)
qed

lemma below_of_uint: "below LENGTH('a) (real_of_int (uint (w :: 'a::len word)))"
proof -
  have "uint w \<le> 2 ^ LENGTH('a)" by (rule less_imp_le) (rule uint_bounded)
  then have "real_of_int (uint w) \<le> of_int (2 ^ LENGTH('a))" by (simp only: of_int_le_iff)
  then show ?thesis by (simp add: below_def)
qed

text \<open>A rounding that is only known to agree with the ideal one on arguments that do not overflow.\<close>

locale rounding_with_overflow = fp_rounding rnd for rnd :: "real \<Rightarrow> real" +
  fixes rnd' :: "real \<Rightarrow> real"
  assumes agrees: "below 1000 x \<Longrightarrow> rnd' x = rnd x"
begin

lemma same: "below n x \<Longrightarrow> n \<le> 1000 \<Longrightarrow> rnd' x = rnd x"
  by (rule agrees) (rule below_mono)

lemma below_rnd: "below n x \<Longrightarrow> below n (rnd x)"
proof -
  assume "below n x"
  then have x: "x \<le> 2 ^ n" "- x \<le> 2 ^ n" by (simp_all add: below_def abs_le_iff)
  have "rnd (2 ^ n) = 2 ^ n" using rnd_dyadic [of 1 "int n"] by simp
  then show ?thesis using rnd_mono [OF x(1)] rnd_mono [OF x(2)] by (simp add: below_def rnd_minus abs_le_iff)
qed

lemma gain_k_same: "soc_gain_k rnd' 5000 dt = soc_gain_k rnd 5000 dt" "below 32 (soc_gain_k rnd 5000 dt)"
proof -
  have c: "below 25 18000000" by (simp add: below_def)
  have "\<bar>real_of_int (uint dt) / 18000000\<bar> \<le> \<bar>real_of_int (uint dt)\<bar>" by (simp add: divide_le_eq)
  then have d: "below 32 (real_of_int (uint dt) / 18000000)" using below_of_uint [of dt] by (simp add: below_def)
  show "soc_gain_k rnd' 5000 dt = soc_gain_k rnd 5000 dt" "below 32 (soc_gain_k rnd 5000 dt)"
    using same [OF c] same [OF d] below_rnd [OF d] by (simp_all add: soc_gain_k_def rnd_numeral)
qed

lemma bias_walk_same: "soc_bias_walk rnd' dt = soc_bias_walk rnd dt" "below 32 (soc_bias_walk rnd dt)"
proof -
  have c: "below 0 (1 / 10000)" by (simp add: below_def)
  have "\<bar>real_of_int (uint dt) / 1000\<bar> \<le> \<bar>real_of_int (uint dt)\<bar>" by (simp add: divide_le_eq)
  then have d: "below 32 (real_of_int (uint dt) / 1000)" using below_of_uint [of dt] by (simp add: below_def)
  note m = below_mult [OF below_rnd [OF c] below_rnd [OF d]]
  show "soc_bias_walk rnd' dt = soc_bias_walk rnd dt" "below 32 (soc_bias_walk rnd dt)"
    using same [OF c] same [OF d] same [OF m] below_rnd [OF m] by (simp_all add: soc_bias_walk_def config_defs)
qed

lemma process_noise_same:
  assumes "below 44 d"
  shows "soc_process_noise rnd' d = soc_process_noise rnd d" and "below 89 (soc_process_noise rnd d)"
proof -
  have c: "below 0 (1 / 100)" "below 0 (4 / 10000)" by (simp_all add: below_def)
  note s = below_mult [OF below_rnd [OF c(1)] assms]
  note q = below_mult [OF below_rnd [OF s] below_rnd [OF s]]
  note t = below_add [OF below_rnd [OF c(2)] below_rnd [OF q]]
  show "soc_process_noise rnd' d = soc_process_noise rnd d" "below 89 (soc_process_noise rnd d)"
    using same [OF c(1)] same [OF c(2)] same [OF s] same [OF q] same [OF t] below_rnd [OF t]
    by (simp_all add: soc_process_noise_def config_defs Let_def)
qed

lemma measurement_noise_same:
  "soc_measurement_noise rnd' cur = soc_measurement_noise rnd cur" "below 40 (soc_measurement_noise rnd cur)"
proof -
  have c: "below 0 (1 / 4)" "below 7 100" by (simp_all add: below_def)
  have "\<bar>sint cur\<bar> \<le> 32768" using sint_range_size [of cur] by (simp add: word_size abs_le_iff)
  then have "\<bar>real_of_int (sint cur) / 100\<bar> \<le> 32768 / 100" by linarith
  then have i: "below 15 (real_of_int (sint cur) / 100)" by (simp add: below_def)
  note l = below_mult [OF below_rnd [OF c(2)] below_rnd [OF i]]
  note m = below_mult [OF below_rnd [OF l] below_rnd [OF i]]
  note t = below_add [OF below_rnd [OF c(1)] below_rnd [OF m]]
  show "soc_measurement_noise rnd' cur = soc_measurement_noise rnd cur" "below 40 (soc_measurement_noise rnd cur)"
    using same [OF c(1)] same [OF c(2)] same [OF i] same [OF l] same [OF m] same [OF t] below_mono [OF below_rnd [OF t], of 40]
    by (simp_all add: soc_measurement_noise_def config_defs Let_def)
qed

lemma predict_same_below:
  assumes ok: "fp_bounds n e" and n: "n < 10 ^ 8"
    and k: "below 0 (soc_gain_k rnd 5000 dt)"
  shows "soc_predict rnd' e cur dt mv = soc_predict rnd e cur dt mv"
    and "below 90 (pr_p00 (soc_predict rnd e cur dt mv))" and "below 21 (pr_p01 (soc_predict rnd e cur dt mv))"
    and "below 33 (pr_p11 (soc_predict rnd e cur dt mv))" and "below 45 (pr_soc (soc_predict rnd e cur dt mv))"
    and "below 8 (pr_z (soc_predict rnd e cur dt mv))"
proof -
  have "p11 e \<le> 25 + real n / 5000" using ok by (simp add: fp_bounds_def)
  then have c: "p11 e \<le> 2 ^ 15" using n by simp
  have "(p01 e)\<^sup>2 \<le> p00 e * p11 e" using ok by (simp add: fp_bounds_def)
  also have "\<dots> \<le> 2 ^ 24 * 2 ^ 15" using ok c by (intro mult_mono) (simp_all add: fp_bounds_def)
  also have "\<dots> \<le> (2 ^ 20)\<^sup>2" by simp
  finally have "(- p01 e)\<^sup>2 \<le> (2 ^ 20)\<^sup>2" by simp
  then have be: "- p01 e \<le> 2 ^ 20" by (rule power2_le_imp_le) simp
  have "\<bar>bias_ca e\<bar> \<le> 32000 * real n" using ok by (simp add: fp_bounds_def)
  then have bias: "\<bar>bias_ca e\<bar> \<le> 2 ^ 42" using n by simp
  have r: "0 \<le> p00 e" "p00 e \<le> 2 ^ 24" "p01 e \<le> 0" "0 \<le> p11 e" "0 \<le> soc_percent e" "soc_percent e \<le> 100"
    using ok by (simp_all add: fp_bounds_def)
  have e: "below 24 (p00 e)" "below 20 (p01 e)" "below 15 (p11 e)" "below 7 (soc_percent e)" "below 42 (bias_ca e)"
    unfolding below_def using r be c bias by (simp_all only: abs_of_nonneg abs_of_nonpos) simp_all
  have cap: "capacity_mah e = 5000" using ok by (simp add: fp_bounds_def config_defs)
  have "\<bar>sint cur\<bar> \<le> 32768" using sint_range_size [of cur] by (simp add: word_size abs_le_iff)
  then have "\<bar>real_of_int (sint cur)\<bar> \<le> 32768" by linarith
  then have "below 15 (real_of_int (sint cur))" by (simp add: below_def)
  note x = below_diff [OF this e(5)]
  note d = below_mult [OF k below_rnd [OF x]]
  note sp = below_add [OF e(4) below_rnd [OF d]]
  have "below 1 (2 :: real)" by (simp add: below_def)
  note k2 = below_mult [OF this k]
  note kb = below_mult [OF below_rnd [OF k2] e(2)]
  note a = below_diff [OF e(1) below_rnd [OF kb]]
  note kk = below_mult [OF k k]
  note kc = below_mult [OF below_rnd [OF kk] e(3)]
  note q = below_add [OF below_rnd [OF a] below_rnd [OF kc]]
  note kp = below_mult [OF k e(3)]
  note b = below_diff [OF e(2) below_rnd [OF kp]]
  have d44: "below 44 (rnd (soc_gain_k rnd 5000 dt * rnd (real_of_int (sint cur) - bias_ca e)))"
    using below_mono [OF below_rnd [OF d], of 44] by simp
  note pn = process_noise_same [OF d44]
  note A = below_add [OF below_rnd [OF q] pn(2)]
  note C = below_add [OF e(3) bias_walk_same(2) [of dt]]
  have "real_of_int (uint (soc_estimator_ocv_lookup_percent_x2 mv)) \<le> 200" using ocv_lookup_range [of mv] by linarith
  then have z: "below 8 (real_of_int (uint (soc_estimator_ocv_lookup_percent_x2 mv)) / 2)" by (simp add: below_def)
  note S = below_add [OF below_rnd [OF A] measurement_noise_same(2) [of cur]]
  note eqs = same [OF x] same [OF d] same [OF sp] same [OF k2] same [OF kb] same [OF a] same [OF kk] same [OF kc]
    same [OF q] same [OF kp] same [OF b] same [OF A] same [OF C] same [OF z] same [OF S] pn(1) gain_k_same(1)
    bias_walk_same(1) measurement_noise_same(1)
  show "soc_predict rnd' e cur dt mv = soc_predict rnd e cur dt mv"
    unfolding soc_predict_def Let_def cap by (simp add: eqs del: of_int_uint of_int_sint)
  show "below 90 (pr_p00 (soc_predict rnd e cur dt mv))" "below 21 (pr_p01 (soc_predict rnd e cur dt mv))"
    "below 33 (pr_p11 (soc_predict rnd e cur dt mv))" "below 45 (pr_soc (soc_predict rnd e cur dt mv))"
    "below 8 (pr_z (soc_predict rnd e cur dt mv))"
    using below_mono [OF below_rnd [OF A], of 90] below_rnd [OF b] below_rnd [OF C] below_mono [OF below_rnd [OF sp], of 45] below_rnd [OF z]
    by (simp_all add: soc_predict_def Let_def cap)
qed

lemma correct_same_below:
  assumes S: "1 / 4 \<le> pr_s pr" and p: "below 90 (pr_p00 pr)" "below 21 (pr_p01 pr)" "below 33 (pr_p11 pr)"
    and z: "below 45 (pr_soc pr)" "below 8 (pr_z pr)" and b: "below 42 (bias_ca e)"
  shows "soc_correct rnd' e pr = soc_correct rnd e pr"
proof -
  note k = below_divide [OF p(1) S]
  note g = below_divide [OF p(2) S]
  note r = below_diff [OF z(2,1)]
  note kr = below_mult [OF below_rnd [OF k] below_rnd [OF r]]
  note sn = below_add [OF z(1) below_rnd [OF kr]]
  note gr = below_mult [OF below_rnd [OF g] below_rnd [OF r]]
  note bn = below_add [OF b below_rnd [OF gr]]
  note kA = below_mult [OF below_rnd [OF k] p(1)]
  note kX = below_mult [OF below_rnd [OF k] p(2)]
  note gX = below_mult [OF below_rnd [OF g] p(2)]
  note A = below_diff [OF p(1) below_rnd [OF kA]]
  note X = below_diff [OF p(2) below_rnd [OF kX]]
  note C = below_diff [OF p(3) below_rnd [OF gX]]
  show ?thesis
    unfolding soc_correct_def Let_def
    by (simp add: same [OF k] same [OF g] same [OF r] same [OF kr] same [OF sn] same [OF gr] same [OF bn] same [OF kA]
        same [OF kX] same [OF gX] same [OF A] same [OF X] same [OF C])
qed

end

interpretation f64_overflow: rounding_with_overflow round_f64 "binary64 overflow" for overflow
  proof
  show "below 1000 x \<Longrightarrow> binary64 overflow x = round_f64 x" for x
    unfolding below_def by (erule binary64_below) simp
qed

lemma update_without_overflow:
  assumes ok: "fp_ok n e" and n: "n < 10 ^ 8" and dt: "dt \<le> 1000"
  shows "soc_estimator_update (binary64 overflow) e cur dt mv = soc_estimator_update round_f64 e cur dt mv"
proof -
  let ?pr = "soc_predict round_f64 e cur dt mv"
  have "soc_gain_k round_f64 5000 dt \<le> 1" "0 \<le> soc_gain_k round_f64 5000 dt"
    using f64_near.soc_gain_k_le [OF dt] f64.soc_gain_k_nonneg by simp_all
  then have "below 0 (soc_gain_k round_f64 5000 dt)" by (simp add: below_def)
  note p = f64_overflow.predict_same_below [OF fp_ok_bounds [OF ok] n this]
  have "1 / 4 \<le> pr_s ?pr"
    using f64.soc_predict_signs [OF fp_ok_signs [OF ok], of cur dt mv] by (simp add: predict_signs_def)
  moreover have "below 42 (bias_ca e)" using ok n by (simp add: below_def fp_ok_def fp_bounds_def)
  ultimately have "soc_correct (binary64 overflow) e ?pr = soc_correct round_f64 e ?pr"
    using p(2-6) by (intro f64_overflow.correct_same_below)
  then show ?thesis by (simp add: soc_estimator_update_def p(1) Let_def)
qed

lemma init_without_overflow:
  "soc_estimator_init (binary64 overflow) cap = soc_estimator_init round_f64 cap"
  using f64_overflow.same [of 1 1 overflow] f64_overflow.same [of 5 25 overflow]
  by (simp add: soc_estimator_init_def config_defs below_def)

lemma percent_without_overflow:
  assumes "0 \<le> soc_percent e" and "soc_percent e \<le> 100"
  shows "soc_estimator_get_percent_x2 (binary64 overflow) e = soc_estimator_get_percent_x2 round_f64 e"
proof -
  have p: "below 8 (soc_percent e * 2)" using assms by (simp add: below_def)
  define x where "x = round_f64 (soc_percent e * 2)"
  have "below 8 x" unfolding x_def by (rule f64_overflow.below_rnd [OF p])
  then have y: "below 9 (y + 1 / 2)" if "y = 0 \<or> y = 200 \<or> y = x" for y
    using that by (auto simp: below_def abs_le_iff)
  have "binary64 overflow (soc_percent e * 2) = x" unfolding x_def by (rule f64_overflow.same [OF p]) simp
  then show ?thesis
    using f64_overflow.same [OF y] by (simp add: soc_estimator_get_percent_x2_def Let_def flip: x_def)
qed

section \<open>Runs of the compiled filter\<close>

lemma soc_run_fp_ok:
  assumes "fp_ok n e" and "n + length ms \<le> 10 ^ 8" and "list_all (\<lambda>(cur, dt, mv). 1 \<le> dt \<and> dt \<le> 1000) ms"
  shows "\<exists>e'. soc_run round_f64 e ms = Some e' \<and> soc_run (binary64 overflow) e ms = Some e' \<and> fp_ok (n + length ms) e'"
  using assms
proof (induction ms arbitrary: n e)
  case (Cons m ms)
  obtain cur dt mv where m: "m = (cur, dt, mv)" by (cases m)
  have n: "n < 10 ^ 8" and dt: "1 \<le> dt" "dt \<le> 1000" using Cons.prems(2,3) by (simp_all add: m)
  obtain e' where e': "soc_estimator_update round_f64 e cur dt mv = Some e'" "fp_ok (Suc n) e'"
    using f64_update_ok [OF Cons.prems(1) n dt] by blast
  with Cons.IH [OF e'(2)] Cons.prems(2,3) update_without_overflow [OF Cons.prems(1) n dt(2)] show ?case by (simp add: m)
qed simp

section \<open>Properties\<close>

text \<open>
  C6. The compiled filter in IEEE binary64 stays sound over a long life: for every sequence of up to a
  hundred million samples with positive intervals of at most one second, whatever currents and voltages they
  carry, no update divides by zero, no operation overflows (whatever an overflow would give, the run is the
  same), the charge stays between 0 and 100 percent, and the covariance as computed stays positive
  semidefinite, with a bounded variance of the charge. (At one update per half second that is more than a
  year and a half.)
\<close>

theorem soc_run_f64_positive_semidefinite:
  assumes "length ms \<le> 10 ^ 8" and "list_all (\<lambda>(cur, dt, mv). 1 \<le> dt \<and> dt \<le> 1000) ms"
  shows "\<exists>e'. soc_run round_f64 (soc_estimator_init round_f64 BMS_PACK_CAPACITY_MAH) ms = Some e' \<and>
    soc_run (binary64 overflow) (soc_estimator_init (binary64 overflow) BMS_PACK_CAPACITY_MAH) ms = Some e' \<and>
    0 \<le> soc_percent e' \<and> soc_percent e' \<le> 100 \<and>
    0 \<le> p00 e' \<and> p00 e' \<le> 2 ^ 24 \<and> 0 \<le> p11 e' \<and> (p01 e')\<^sup>2 \<le> p00 e' * p11 e'"
  using soc_run_fp_ok [OF fp_ok_init, of ms overflow] assms
  by (auto simp: fp_ok_def fp_bounds_def init_without_overflow)

theorem soc_run_f64_positive_semidefinite_witness:
  "\<exists>e'. soc_run round_f64 (soc_estimator_init round_f64 BMS_PACK_CAPACITY_MAH)
      [(- 200, 500, 3700), (32767, 1000, 0)] = Some e' \<and>
    soc_run (binary64 (\<lambda>x. - x)) (soc_estimator_init (binary64 (\<lambda>x. - x)) BMS_PACK_CAPACITY_MAH)
      [(- 200, 500, 3700), (32767, 1000, 0)] = Some e' \<and>
    0 \<le> soc_percent e' \<and> soc_percent e' \<le> 100 \<and>
    0 \<le> p00 e' \<and> p00 e' \<le> 2 ^ 24 \<and> 0 \<le> p11 e' \<and> (p01 e')\<^sup>2 \<le> p00 e' * p11 e'"
  by (rule soc_run_f64_positive_semidefinite) simp_all

end
