(* ===== verification/Can_Messages.thy ===== *)
theory Can_Messages
  imports Can_Protocol
begin

text \<open>
  What the message layer promises on the wire: the signal database \<open>dbc/bms.dbc\<close> as a second,
  independent description of the frames, the agreement of \<open>can_protocol.c\<close> with it, and the
  properties of the codecs that the other nodes rely on, through the interpretations of the codec
  locales in \<open>Can_Protocol\<close>.
\<close>

section \<open>The signal database\<close>

record dbc_signal =
  sig_name :: string
  sig_start :: nat
  sig_length :: nat
  sig_signed :: bool

record dbc_message =
  msg_id :: u32
  msg_name :: string
  msg_length :: nat
  msg_signals :: "dbc_signal list"

definition dbc_sig :: "string \<Rightarrow> nat \<Rightarrow> nat \<Rightarrow> bool \<Rightarrow> dbc_signal" where
  "dbc_sig n s l sg = \<lparr>sig_name = n, sig_start = s, sig_length = l, sig_signed = sg\<rparr>"

definition dbc_BMS_STATUS :: dbc_message where
  "dbc_BMS_STATUS = \<lparr>msg_id = 256, msg_name = ''BMS_STATUS'', msg_length = 6, msg_signals =
     [dbc_sig ''pack_voltage_mv'' 7 16 False, dbc_sig ''pack_current_ca'' 23 16 True,
      dbc_sig ''soc_percent_x2'' 39 8 False, dbc_sig ''state'' 47 8 False]\<rparr>"

definition dbc_CELL_VOLTAGES :: dbc_message where
  "dbc_CELL_VOLTAGES = \<lparr>msg_id = 257, msg_name = ''CELL_VOLTAGES'', msg_length = 10, msg_signals =
     [dbc_sig ''cell_1_mv'' 7 16 False, dbc_sig ''cell_2_mv'' 23 16 False,
      dbc_sig ''cell_3_mv'' 39 16 False, dbc_sig ''cell_4_mv'' 55 16 False,
      dbc_sig ''cell_5_mv'' 71 16 False]\<rparr>"

definition dbc_FAULT_REPORT :: dbc_message where
  "dbc_FAULT_REPORT = \<lparr>msg_id = 128, msg_name = ''FAULT_REPORT'', msg_length = 3, msg_signals =
     [dbc_sig ''fault_bitmask'' 7 16 False, dbc_sig ''severity'' 23 8 False]\<rparr>"

definition dbc_CHARGE_COMMAND :: dbc_message where
  "dbc_CHARGE_COMMAND = \<lparr>msg_id = 512, msg_name = ''CHARGE_COMMAND'', msg_length = 2, msg_signals =
     [dbc_sig ''requested_current_x10'' 7 16 False]\<rparr>"

definition bms_dbc :: "dbc_message list" where
  "bms_dbc = [dbc_BMS_STATUS, dbc_CELL_VOLTAGES, dbc_FAULT_REPORT, dbc_CHARGE_COMMAND]"

text \<open>
  A big-endian (\<open>@0\<close>) signal starts at its most significant bit; bits are numbered from the
  least significant bit of byte 0, so the next bit is one lower, and from bit 0 of a byte the signal
  goes on at bit 7 of the next byte. Signed signals (\<open>-\<close>) are in two's complement.
\<close>

fun motorola_bits :: "nat \<Rightarrow> nat \<Rightarrow> nat list" where
  "motorola_bits s 0 = []"
| "motorola_bits s (Suc n) = s # motorola_bits (if s mod 8 = 0 then s + 15 else s - 1) n"

definition dbc_unsigned :: "u8 list \<Rightarrow> nat \<Rightarrow> nat \<Rightarrow> int" where
  "dbc_unsigned d start len =
     foldl (\<lambda>acc b. 2 * acc + of_bool (bit (d ! (b div 8)) (b mod 8))) 0 (motorola_bits start len)"

definition dbc_value :: "u8 list \<Rightarrow> dbc_signal \<Rightarrow> int" where
  "dbc_value d sg =
     (let v = dbc_unsigned d (sig_start sg) (sig_length sg)
      in if sig_signed sg \<and> 2 ^ (sig_length sg - 1) \<le> v then v - 2 ^ sig_length sg else v)"

definition dbc_decode :: "can_frame_t \<Rightarrow> (string \<times> (string \<times> int) list) option" where
  "dbc_decode f =
     map_option (\<lambda>m. (msg_name m, map (\<lambda>sg. (sig_name sg, dbc_value (data f) sg)) (msg_signals m)))
       (find (\<lambda>m. msg_id m = can_id f \<and> msg_length m = unat (dlc f)) bms_dbc)"

section \<open>Signals and bytes\<close>

text \<open>A signal that starts at bit \<open>k\<close> of byte \<open>i\<close> runs down to bit 0 and goes on in the next byte.\<close>

lemma motorola_bits_byte:
  "k < 8 \<Longrightarrow> motorola_bits (8 * i + k) (Suc k + n) =
    map (\<lambda>j. 8 * i + j) (rev [0..<Suc k]) @ motorola_bits (8 * i + 15) n"
proof (induction k)
  case 0
  show ?case by simp
next
  case (Suc k)
  have "(8 * i + Suc k) mod 8 \<noteq> 0" using Suc.prems by presburger
  moreover have "8 * i + Suc k - 1 = 8 * i + k" by simp
  ultimately show ?case using Suc by simp
qed

abbreviation bit_fold :: "u8 list \<Rightarrow> int \<Rightarrow> nat list \<Rightarrow> int" where
  "bit_fold d \<equiv> foldl (\<lambda>acc b. 2 * acc + of_bool (bit (d ! (b div 8)) (b mod 8)))"

lemma bit_fold_byte_part:
  "k \<le> 8 \<Longrightarrow> bit_fold d acc (map (\<lambda>j. 8 * i + j) (rev [0..<k])) =
    2 ^ k * acc + take_bit k (uint (d ! i))"
proof (induction k arbitrary: acc)
  case 0
  then show ?case by simp
next
  case (Suc k)
  have "take_bit (Suc k) (uint (d ! i)) = 2 ^ k * of_bool (bit (d ! i) k) + take_bit k (uint (d ! i))"
    using Suc.prems by (simp add: take_bit_Suc_from_most bit_uint_iff)
  with Suc show ?case by (simp add: algebra_simps)
qed

lemma bit_fold_byte: "bit_fold d acc (map (\<lambda>j. 8 * i + j) (rev [0..<8])) = 256 * acc + uint (d ! i)"
  using bit_fold_byte_part [of 8 d acc i] 
  by (simp add: take_bit_int_eq_self uint_bounded [of "d ! i", simplified])

lemma dbc_unsigned_8: "dbc_unsigned d (8 * i + 7) 8 = uint (d ! i)"
  using motorola_bits_byte [of 7 i 0] bit_fold_byte [of d 0 i]
  by (simp add: dbc_unsigned_def del: upt_Suc upt_rec_numeral)

lemma uint_get_u16: "uint (get_u16 d i) = 256 * uint (d ! i) + uint (d ! Suc i)"
proof -
  have "uint (get_u16 d i) = push_bit 8 (uint (d ! i)) OR uint (d ! Suc i)"
    by (rule bit_eqI) (auto simp: get_u16_def bit_simps dest: bit_imp_le_length)
  also have "\<dots> = push_bit 8 (uint (d ! i)) + uint (d ! Suc i)"
    by (rule disjunctive_add [symmetric]) (auto simp: bit_simps dest: bit_imp_le_length)
  finally show ?thesis by (simp add: push_bit_eq_mult)
qed

lemma dbc_unsigned_16: "dbc_unsigned d (8 * i + 7) 16 = uint (get_u16 d i)"
proof -
  have "motorola_bits (8 * i + 7) 16 = map (\<lambda>j. 8 * i + j) (rev [0..<8]) @ motorola_bits (8 * Suc i + 7) 8"
    using motorola_bits_byte [of 7 i 8] by (simp add: add.commute [of 15] del: upt_Suc upt_rec_numeral)
  then show ?thesis
    using bit_fold_byte [of d 0 i] bit_fold_byte [of d "uint (d ! i)" "Suc i"]
      motorola_bits_byte [of 7 "Suc i" 0]
    by (simp add: dbc_unsigned_def uint_get_u16 del: upt_Suc upt_rec_numeral mult_Suc_right)
qed

lemma dbc_value_8:
  "dbc_value d (dbc_sig n (8 * i + 7) 8 False) = uint (d ! i)"
  by (simp add: dbc_value_def dbc_sig_def dbc_unsigned_8)

lemma dbc_value_16:
  "dbc_value d (dbc_sig n (8 * i + 7) 16 False) = uint (get_u16 d i)"
  by (simp add: dbc_value_def dbc_sig_def dbc_unsigned_16)

lemma dbc_value_16_signed:
  "dbc_value d (dbc_sig n (8 * i + 7) 16 True) = sint (get_u16 d i)"
proof -
  have "sint (w :: u16) = (if 2 ^ 15 \<le> uint w then uint w - 2 ^ 16 else uint w)" for w
  proof -
    have w: "0 \<le> uint w" "uint w < 65536" using uint_bounded [of w] by simp_all
    have "bit w 15 \<longleftrightarrow> bit (uint w) 15" by (simp add: bit_uint_iff)
    also have "\<dots> \<longleftrightarrow> odd (uint w div 2 ^ 15)" by (rule bit_iff_odd)
    also have "(2 :: int) ^ 15 = 32768" by simp
    also have "uint w div 32768 = (if 32768 \<le> uint w then 1 else 0)"
      using w int_div_pos_eq [of "uint w" 32768 1 "uint w - 32768"] by simp
    also have "odd (if 32768 \<le> uint w then 1 else 0 :: int) \<longleftrightarrow> 32768 \<le> uint w" by simp
    finally show ?thesis
      using w by (simp add: sint_uint signed_take_bit_eq_take_bit_minus take_bit_int_eq_self bit_uint_iff)
  qed
  then show ?thesis by (simp add: dbc_value_def dbc_sig_def dbc_unsigned_16)
qed

lemmas dbc_values =
  dbc_value_16 [of _ _ 0, simplified] dbc_value_16_signed [of _ _ 2, simplified]
  dbc_value_8 [of _ _ 4, simplified] dbc_value_8 [of _ _ 5, simplified]
  dbc_value_8 [of _ _ 2, simplified] dbc_value_16 [of _ _ 2, simplified]
  dbc_value_16 [of _ _ 4, simplified] dbc_value_16 [of _ _ 6, simplified]
  dbc_value_16 [of _ _ 8, simplified]

lemmas bms_dbc_defs = bms_dbc_def dbc_BMS_STATUS_def dbc_CELL_VOLTAGES_def dbc_FAULT_REPORT_def
  dbc_CHARGE_COMMAND_def

lemma sig_name_dbc_sig [simp]: "sig_name (dbc_sig n s l g) = n"
  by (simp add: dbc_sig_def)

lemma dbc_decode_status:
  assumes "can_protocol_unpack_status f = Some m" and "dlc f = 6"
  shows "dbc_decode f = Some (''BMS_STATUS'',
    [(''pack_voltage_mv'', uint (st_pack_voltage_mv m)), (''pack_current_ca'', sint (st_pack_current_ca m)),
     (''soc_percent_x2'', uint (st_soc_percent_x2 m)), (''state'', uint (st_state m))])"
  using assms
  by (auto simp: dbc_decode_def bms_dbc_defs can_protocol_unpack_status_def frame_defs dbc_values
      split: if_splits)

lemma dbc_decode_cells:
  assumes "can_protocol_unpack_cell_voltages f = Some m" and "dlc f = 10"
  shows "dbc_decode f = Some (''CELL_VOLTAGES'',
    [(''cell_1_mv'', uint (cv_cell_mv m ! 0)), (''cell_2_mv'', uint (cv_cell_mv m ! 1)),
     (''cell_3_mv'', uint (cv_cell_mv m ! 2)), (''cell_4_mv'', uint (cv_cell_mv m ! 3)),
     (''cell_5_mv'', uint (cv_cell_mv m ! 4))])"
  using assms
  by (auto simp: dbc_decode_def bms_dbc_defs can_protocol_unpack_cell_voltages_def frame_defs dbc_values
      config_defs split: if_splits)

lemma dbc_decode_fault:
  assumes "can_protocol_unpack_fault f = Some m" and "dlc f = 3"
  shows "dbc_decode f = Some (''FAULT_REPORT'',
    [(''fault_bitmask'', uint (fr_fault_bitmask m)), (''severity'', uint (fr_severity m))])"
  using assms
  by (auto simp: dbc_decode_def bms_dbc_defs can_protocol_unpack_fault_def frame_defs dbc_values
      split: if_splits)

section \<open>Properties\<close>

text \<open>
  C21. Every message survives the wire: decoding the frame a pack function writes gives back the
  message, for the status, the fault report and a cell-voltage message with the pack's five cells.
\<close>

theorem messages_round_trip:
  assumes "length (cv_cell_mv cv) = BMS_CELL_COUNT"
  shows "can_protocol_unpack_status (can_protocol_pack_status s) = Some s \<and>
    can_protocol_unpack_cell_voltages (can_protocol_pack_cell_voltages cv) = Some cv \<and>
    can_protocol_unpack_fault (can_protocol_pack_fault r) = Some r"
  using assms status_msg.unpack_pack cells_msg.unpack_pack fault_msg.unpack_pack
  by (simp add: cell_count_ok_def)

theorem messages_round_trip_witness:
  "can_protocol_unpack_status (can_protocol_pack_status
     \<lparr>st_pack_voltage_mv = 18500, st_pack_current_ca = - 200, st_soc_percent_x2 = 199, st_state = 0\<rparr>) =
     Some \<lparr>st_pack_voltage_mv = 18500, st_pack_current_ca = - 200, st_soc_percent_x2 = 199, st_state = 0\<rparr> \<and>
   can_protocol_unpack_cell_voltages (can_protocol_pack_cell_voltages
     \<lparr>cv_cell_mv = [3700, 3701, 3702, 65535, 0]\<rparr>) = Some \<lparr>cv_cell_mv = [3700, 3701, 3702, 65535, 0]\<rparr> \<and>
   can_protocol_unpack_fault (can_protocol_pack_fault \<lparr>fr_fault_bitmask = 9, fr_severity = 4\<rparr>) =
     Some \<lparr>fr_fault_bitmask = 9, fr_severity = 4\<rparr>"
  by (rule messages_round_trip) (simp add: config_defs)

text \<open>
  C13. The frames on the bus are those the signal database \<open>dbc/bms.dbc\<close> describes: decoding a
  packed frame with the database's identifiers, lengths and big-endian bit positions yields the
  fields of the message, the current as a signed value.
\<close>

theorem frames_match_dbc:
  assumes "length (cv_cell_mv cv) = BMS_CELL_COUNT"
  shows "dbc_decode (can_protocol_pack_status s) = Some (''BMS_STATUS'',
      [(''pack_voltage_mv'', uint (st_pack_voltage_mv s)), (''pack_current_ca'', sint (st_pack_current_ca s)),
       (''soc_percent_x2'', uint (st_soc_percent_x2 s)), (''state'', uint (st_state s))]) \<and>
    dbc_decode (can_protocol_pack_cell_voltages cv) = Some (''CELL_VOLTAGES'',
      [(''cell_1_mv'', uint (cv_cell_mv cv ! 0)), (''cell_2_mv'', uint (cv_cell_mv cv ! 1)),
       (''cell_3_mv'', uint (cv_cell_mv cv ! 2)), (''cell_4_mv'', uint (cv_cell_mv cv ! 3)),
       (''cell_5_mv'', uint (cv_cell_mv cv ! 4))]) \<and>
    dbc_decode (can_protocol_pack_fault r) = Some (''FAULT_REPORT'',
      [(''fault_bitmask'', uint (fr_fault_bitmask r)), (''severity'', uint (fr_severity r))])"
proof (intro conjI)
  show "dbc_decode (can_protocol_pack_status s) = Some (''BMS_STATUS'',
      [(''pack_voltage_mv'', uint (st_pack_voltage_mv s)), (''pack_current_ca'', sint (st_pack_current_ca s)),
       (''soc_percent_x2'', uint (st_soc_percent_x2 s)), (''state'', uint (st_state s))])"
    by (rule dbc_decode_status [OF status_msg.unpack_pack]) (simp_all add: can_protocol_pack_status_def)
  show "dbc_decode (can_protocol_pack_cell_voltages cv) = Some (''CELL_VOLTAGES'',
      [(''cell_1_mv'', uint (cv_cell_mv cv ! 0)), (''cell_2_mv'', uint (cv_cell_mv cv ! 1)),
       (''cell_3_mv'', uint (cv_cell_mv cv ! 2)), (''cell_4_mv'', uint (cv_cell_mv cv ! 3)),
       (''cell_5_mv'', uint (cv_cell_mv cv ! 4))])"
    using assms by (intro dbc_decode_cells [OF cells_msg.unpack_pack])
      (simp_all add: cell_count_ok_def can_protocol_pack_cell_voltages_def config_defs)
  show "dbc_decode (can_protocol_pack_fault r) = Some (''FAULT_REPORT'',
      [(''fault_bitmask'', uint (fr_fault_bitmask r)), (''severity'', uint (fr_severity r))])"
    by (rule dbc_decode_fault [OF fault_msg.unpack_pack]) (simp_all add: can_protocol_pack_fault_def)
qed

theorem frames_match_dbc_witness:
  "dbc_decode (can_protocol_pack_status
     \<lparr>st_pack_voltage_mv = 18500, st_pack_current_ca = - 200, st_soc_percent_x2 = 199, st_state = 2\<rparr>) =
     Some (''BMS_STATUS'', [(''pack_voltage_mv'', 18500), (''pack_current_ca'', - 200),
       (''soc_percent_x2'', 199), (''state'', 2)])"
  using frames_match_dbc [of "\<lparr>cv_cell_mv = [3700, 3700, 3700, 3700, 3700]\<rparr>"
      "\<lparr>st_pack_voltage_mv = 18500, st_pack_current_ca = - 200, st_soc_percent_x2 = 199, st_state = 2\<rparr>"]
  by (simp add: config_defs)

text \<open>
  A decoder depends only on the bytes the frame declares: replacing the payload past the data
  length, which a transport may leave uninitialised, changes the answer of none of the four decoders.
\<close>

lemma decoders_read_declared_bytes:
  assumes "take (unat (dlc f)) bytes = take (unat (dlc f)) (data f)"
  shows "can_protocol_unpack_status (f\<lparr>data := bytes\<rparr>) = can_protocol_unpack_status f \<and>
    can_protocol_unpack_cell_voltages (f\<lparr>data := bytes\<rparr>) = can_protocol_unpack_cell_voltages f \<and>
    can_protocol_unpack_fault (f\<lparr>data := bytes\<rparr>) = can_protocol_unpack_fault f \<and>
    can_protocol_unpack_charge_command (f\<lparr>data := bytes\<rparr>) = can_protocol_unpack_charge_command f"
  using assms [symmetric] status_msg.unpack_ignores_tail cells_msg.unpack_ignores_tail
    fault_msg.unpack_ignores_tail charge_msg.unpack_ignores_tail by blast

text \<open>
  C22. No frame is ambiguous and no accepted frame is altered by a node that forwards it: at most one
  decoder accepts a frame, and re-encoding an accepted status, cell-voltage or fault message
  reproduces the identifier and the message's bytes.
\<close>

theorem accepted_frames_are_unambiguous:
  assumes "frame_ok f"
  shows "(case can_protocol_unpack_status f of None \<Rightarrow> True | Some s \<Rightarrow>
      can_protocol_unpack_cell_voltages f = None \<and> can_protocol_unpack_fault f = None \<and>
      can_protocol_unpack_charge_command f = None \<and>
      take 6 (data (can_protocol_pack_status s)) = take 6 (data f)) \<and>
    (case can_protocol_unpack_cell_voltages f of None \<Rightarrow> True | Some cv \<Rightarrow>
      can_protocol_unpack_fault f = None \<and> can_protocol_unpack_charge_command f = None \<and>
      take 10 (data (can_protocol_pack_cell_voltages cv)) = take 10 (data f)) \<and>
    (case can_protocol_unpack_fault f of None \<Rightarrow> True | Some r \<Rightarrow>
      can_protocol_unpack_charge_command f = None \<and>
      take 3 (data (can_protocol_pack_fault r)) = take 3 (data f))"
proof -
  have ids: "CAN_ID_BMS_STATUS \<noteq> CAN_ID_CELL_VOLTAGES" "CAN_ID_BMS_STATUS \<noteq> CAN_ID_FAULT_REPORT"
    "CAN_ID_BMS_STATUS \<noteq> CAN_ID_CHARGE_COMMAND" "CAN_ID_CELL_VOLTAGES \<noteq> CAN_ID_FAULT_REPORT"
    "CAN_ID_CELL_VOLTAGES \<noteq> CAN_ID_CHARGE_COMMAND" "CAN_ID_FAULT_REPORT \<noteq> CAN_ID_CHARGE_COMMAND"
    by (simp_all add: frame_defs)
  have ten: "BMS_CELL_COUNT * 2 = 10" by (simp add: config_defs)
  show ?thesis
    using ids status_msg.pack_unpack [OF assms] cells_msg.pack_unpack [OF assms, unfolded ten]
      fault_msg.pack_unpack [OF assms]
    by (auto split: option.splits dest: status_msg.unpack_SomeD cells_msg.unpack_SomeD
        fault_msg.unpack_SomeD simp: cells_msg.unpack_None_iff fault_msg.unpack_None_iff
        charge_msg.unpack_None_iff)
qed

theorem accepted_frames_are_unambiguous_witness:
  "can_protocol_unpack_charge_command (can_protocol_pack_fault \<lparr>fr_fault_bitmask = 9, fr_severity = 4\<rparr>) = None"
  using accepted_frames_are_unambiguous [of "can_protocol_pack_fault \<lparr>fr_fault_bitmask = 9, fr_severity = 4\<rparr>"]
    fault_msg.pack_header(3) fault_msg.unpack_pack by simp

end
