(* ===== verification/Can_Hal_Virtual.thy ===== *)
theory Can_Hal_Virtual
  imports Can_Protocol
begin

text \<open>
  The in-process bus of \<open>src/can/can_hal_virtual.c\<close>: the subscriber table, registration and
  broadcast. A callback and its context are of arbitrary types; what calling one does to the rest of
  the program is the argument \<open>call\<close>. Registration checks the table outside the lock and
  writes it inside, so besides the sequential operations there is a step relation in which the two
  halves of several calls interleave.
\<close>

section \<open>State and operations\<close>

definition MAX_SUBSCRIBERS :: nat where [config_defs]: "MAX_SUBSCRIBERS = 8"

record ('cb, 'ctx) subscriber_t =
  sub_cb :: "'cb option"
  sub_ctx :: "'ctx option"

record ('cb, 'ctx) virtual_bus =
  g_subs :: "('cb, 'ctx) subscriber_t list"
  g_sub_count :: nat
  g_bus_lock :: bool

definition null_subscriber :: "('cb, 'ctx) subscriber_t" where
  "null_subscriber = \<lparr>sub_cb = None, sub_ctx = None\<rparr>"

text \<open>\<open>lock_created\<close> tells whether \<open>osal_mutex_create\<close> returned a lock.\<close>

definition can_hal_init :: "bool \<Rightarrow> ('cb, 'ctx) virtual_bus \<times> int" where
  "can_hal_init lock_created =
     (\<lparr>g_subs = replicate MAX_SUBSCRIBERS null_subscriber, g_sub_count = 0, g_bus_lock = lock_created\<rparr>,
      if lock_created then 0 else - 1)"

text \<open>The locked part of \<open>can_hal_subscribe\<close>, and the whole call when no other call interferes.\<close>

definition subscribe_write ::
  "('cb, 'ctx) virtual_bus \<Rightarrow> 'cb option \<Rightarrow> 'ctx option \<Rightarrow> ('cb, 'ctx) virtual_bus" where
  "subscribe_write b cb ctx =
     b\<lparr>g_subs := (g_subs b)[g_sub_count b := \<lparr>sub_cb = cb, sub_ctx = ctx\<rparr>], g_sub_count := g_sub_count b + 1\<rparr>"

definition can_hal_subscribe ::
  "('cb, 'ctx) virtual_bus \<Rightarrow> 'cb option \<Rightarrow> 'ctx option \<Rightarrow> ('cb, 'ctx) virtual_bus \<times> int" where
  "can_hal_subscribe b cb ctx =
     (if g_sub_count b \<ge> MAX_SUBSCRIBERS then (b, - 1) else (subscribe_write b cb ctx, 0))"

text \<open>
  The callbacks run after the lock is released, on the copy of the table, in the order of
  registration; entries without a callback are skipped. \<open>frame\<close> is \<^const>\<open>None\<close> for a
  null pointer.
\<close>

definition can_hal_send ::
  "('cb \<Rightarrow> can_frame_t \<Rightarrow> 'ctx option \<Rightarrow> 'w \<Rightarrow> 'w) \<Rightarrow> ('cb, 'ctx) virtual_bus \<Rightarrow> can_frame_t option \<Rightarrow> 'w
     \<Rightarrow> 'w \<times> int" where
  "can_hal_send call b frame w =
     (case frame of None \<Rightarrow> (w, - 1)
      | Some f \<Rightarrow>
          if unat (dlc f) > CAN_MAX_DLC then (w, - 1)
          else let local_subs = take (g_sub_count b) (g_subs b)
               in (foldl (\<lambda>w s. case sub_cb s of None \<Rightarrow> w | Some cb \<Rightarrow> call cb f (sub_ctx s) w) w local_subs, 0))"

definition can_hal_shutdown :: "('cb, 'ctx) virtual_bus \<Rightarrow> ('cb, 'ctx) virtual_bus" where
  "can_hal_shutdown b = b\<lparr>g_sub_count := 0, g_bus_lock := False\<rparr>"

section \<open>The contract of a subscriber table\<close>

text \<open>
  A table of at most \<open>cap\<close> subscribers that keeps registration order and rejects a registration
  exactly when it is full.
\<close>

locale subscriber_table =
  fixes wf :: "'t \<Rightarrow> bool"
    and entries :: "'t \<Rightarrow> ('cb, 'ctx) subscriber_t list"
    and cap :: nat
    and subscribe :: "'t \<Rightarrow> 'cb option \<Rightarrow> 'ctx option \<Rightarrow> 't \<times> int"
  assumes entries_bounded: "wf t \<Longrightarrow> length (entries t) \<le> cap"
    and subscribe_wf: "wf t \<Longrightarrow> wf (fst (subscribe t cb ctx))"
    and subscribe_ok: "wf t \<Longrightarrow> length (entries t) < cap \<Longrightarrow>
          snd (subscribe t cb ctx) = 0 \<and>
          entries (fst (subscribe t cb ctx)) = entries t @ [\<lparr>sub_cb = cb, sub_ctx = ctx\<rparr>]"
    and subscribe_full: "wf t \<Longrightarrow> length (entries t) = cap \<Longrightarrow> subscribe t cb ctx = (t, - 1)"
begin

abbreviation subscribe_all :: "('cb option \<times> 'ctx option) list \<Rightarrow> 't \<Rightarrow> 't" where
  "subscribe_all rs t \<equiv> foldl (\<lambda>t r. fst (subscribe t (fst r) (snd r))) t rs"

lemma subscribe_all_entries:
  assumes "wf t"
  shows "wf (subscribe_all rs t) \<and> entries (subscribe_all rs t) =
    entries t @ map (\<lambda>r. \<lparr>sub_cb = fst r, sub_ctx = snd r\<rparr>) (take (cap - length (entries t)) rs)"
  using assms
proof (induction rs arbitrary: t)
  case Nil
  then show ?case by simp
next
  case (Cons r rs)
  let ?t = "fst (subscribe t (fst r) (snd r))"
  have wf: "wf ?t" using Cons.prems by (rule subscribe_wf)
  show ?case
  proof (cases "length (entries t) < cap")
    case True
    then have e: "entries ?t = entries t @ [\<lparr>sub_cb = fst r, sub_ctx = snd r\<rparr>]"
      using subscribe_ok [OF Cons.prems] by blast
    have "cap - length (entries t) = Suc (cap - length (entries ?t))" using True by (simp add: e)
    with Cons.IH [OF wf] e show ?thesis by simp
  next
    case False
    then have "length (entries t) = cap" using entries_bounded [OF Cons.prems] by simp
    with subscribe_full [OF Cons.prems this, of "fst r" "snd r"] Cons.IH [OF wf] show ?thesis by simp
  qed
qed

end

definition bus_ok :: "('cb, 'ctx) virtual_bus \<Rightarrow> bool" where
  "bus_ok b \<longleftrightarrow> length (g_subs b) = MAX_SUBSCRIBERS \<and> g_sub_count b \<le> MAX_SUBSCRIBERS"

definition bus_entries :: "('cb, 'ctx) virtual_bus \<Rightarrow> ('cb, 'ctx) subscriber_t list" where
  "bus_entries b = take (g_sub_count b) (g_subs b)"

interpretation virtual_table: subscriber_table bus_ok bus_entries MAX_SUBSCRIBERS can_hal_subscribe
  by unfold_locales
    (auto simp: bus_ok_def bus_entries_def can_hal_subscribe_def subscribe_write_def
      take_Suc_conv_app_nth)

lemma can_hal_init_ok [simp]: "bus_ok (fst (can_hal_init ok))" "bus_entries (fst (can_hal_init ok)) = []"
  by (simp_all add: bus_ok_def bus_entries_def can_hal_init_def)

lemma send_log:
  assumes "\<forall>s\<in>set ss. sub_cb s \<noteq> None"
  shows "foldl (\<lambda>w s. case sub_cb s of None \<Rightarrow> w | Some cb \<Rightarrow> w @ [(cb, f, sub_ctx s)]) w ss
    = w @ map (\<lambda>s. (the (sub_cb s), f, sub_ctx s)) ss"
  using assms by (induction ss arbitrary: w) auto

section \<open>Interleaved registrations\<close>

text \<open>
  Each thread \<open>t\<close> runs one \<open>can_hal_subscribe\<close>: it tests the counter, then takes the
  lock and writes. \<open>overrun\<close> records a write past the end of \<open>g_subs\<close>.
\<close>

datatype sub_pc = Sub_Start | Sub_Checked | Sub_Done int

record sub_sys =
  sys_count :: nat
  sys_pc :: "nat \<Rightarrow> sub_pc"
  overrun :: bool

inductive sub_step :: "sub_sys \<Rightarrow> sub_sys \<Rightarrow> bool" where
  check_full: "sys_pc s t = Sub_Start \<Longrightarrow> sys_count s \<ge> MAX_SUBSCRIBERS \<Longrightarrow>
     sub_step s (s\<lparr>sys_pc := (sys_pc s)(t := Sub_Done (- 1))\<rparr>)"
| check_room: "sys_pc s t = Sub_Start \<Longrightarrow> sys_count s < MAX_SUBSCRIBERS \<Longrightarrow>
     sub_step s (s\<lparr>sys_pc := (sys_pc s)(t := Sub_Checked)\<rparr>)"
| locked_write: "sys_pc s t = Sub_Checked \<Longrightarrow>
     sub_step s (s\<lparr>sys_count := sys_count s + 1, sys_pc := (sys_pc s)(t := Sub_Done 0),
                  overrun := (overrun s \<or> sys_count s \<ge> MAX_SUBSCRIBERS)\<rparr>)"

abbreviation sub_reachable :: "sub_sys \<Rightarrow> sub_sys \<Rightarrow> bool" where
  "sub_reachable \<equiv> sub_step\<^sup>*\<^sup>*"

text \<open>The threads in \<open>T\<close> are the callers; all others have nothing to do.\<close>

definition sub_init :: "nat \<Rightarrow> nat set \<Rightarrow> sub_sys" where
  "sub_init n T = \<lparr>sys_count = n, sys_pc = (\<lambda>t. if t \<in> T then Sub_Start else Sub_Done 0), overrun = False\<rparr>"

definition pending :: "sub_sys \<Rightarrow> nat set" where
  "pending s = {t. sys_pc s t = Sub_Start \<or> sys_pc s t = Sub_Checked}"

definition room_for_pending :: "sub_sys \<Rightarrow> bool" where
  "room_for_pending s \<longleftrightarrow> finite (pending s) \<and> sys_count s + card (pending s) \<le> MAX_SUBSCRIBERS \<and> \<not> overrun s"

lemma room_for_pending_step: "sub_step s s' \<Longrightarrow> room_for_pending s \<Longrightarrow> room_for_pending s'"
proof (induction rule: sub_step.induct)
  case (check_full s t)
  have "pending (s\<lparr>sys_pc := (sys_pc s)(t := Sub_Done (- 1))\<rparr>) = pending s - {t}"
    by (auto simp: pending_def)
  with check_full show ?case
    using card_mono [of "pending s" "pending s - {t}"] by (auto simp: room_for_pending_def)
next
  case (check_room s t)
  then have "pending (s\<lparr>sys_pc := (sys_pc s)(t := Sub_Checked)\<rparr>) = pending s"
    by (auto simp: pending_def)
  with check_room show ?case by (simp add: room_for_pending_def)
next
  case (locked_write s t)
  let ?s = "s\<lparr>sys_count := sys_count s + 1, sys_pc := (sys_pc s)(t := Sub_Done 0),
     overrun := (overrun s \<or> sys_count s \<ge> MAX_SUBSCRIBERS)\<rparr>"
  have "t \<in> pending s" using locked_write by (simp add: pending_def)
  moreover have "pending ?s = pending s - {t}" by (auto simp: pending_def)
  ultimately show ?case
    using locked_write card_Suc_Diff1 [of "pending s" t] by (simp add: room_for_pending_def)
qed

lemma room_for_pending_reachable: "sub_reachable s s' \<Longrightarrow> room_for_pending s \<Longrightarrow> room_for_pending s'"
  by (induction rule: rtranclp_induct) (auto intro: room_for_pending_step)

section \<open>Properties\<close>

text \<open>
  Registration keeps order and capacity: registering any list of subscribers on a fresh bus
  leaves exactly the first eight of them in the table, in order of registration.
\<close>

lemma registration_keeps_first_eight:
  "bus_entries (foldl (\<lambda>b r. fst (can_hal_subscribe b (fst r) (snd r))) (fst (can_hal_init ok)) rs) =
    map (\<lambda>r. \<lparr>sub_cb = fst r, sub_ctx = snd r\<rparr>) (take 8 rs)"
  using virtual_table.subscribe_all_entries [OF can_hal_init_ok(1), of ok rs]
  by (simp add: MAX_SUBSCRIBERS_def)

text \<open>
  A valid frame reaches every subscriber exactly once, in order of registration, with its own
  context; a null frame or one longer than 64 bytes reaches none and is reported as an error.
\<close>

lemma send_broadcasts_in_order:
  assumes "bus_ok b" and "\<forall>s\<in>set (bus_entries b). sub_cb s \<noteq> None"
  shows "can_hal_send (\<lambda>cb f ctx seen. seen @ [(cb, f, ctx)]) b (Some f) seen =
      (if unat (dlc f) \<le> 64 then (seen @ map (\<lambda>s. (the (sub_cb s), f, sub_ctx s)) (bus_entries b), 0)
       else (seen, - 1)) \<and>
    can_hal_send (\<lambda>cb f ctx seen. seen @ [(cb, f, ctx)]) b None seen = (seen, - 1)"
  using send_log [OF assms(2), of f seen]
  by (simp add: can_hal_send_def Let_def CAN_MAX_DLC_def bus_entries_def not_le)

text \<open>
  Concurrent registrations are safe as long as the table has room for all of them: in every
  interleaving of the unlocked tests and the locked writes no write lands past the end of the table.
\<close>

lemma concurrent_registration_with_room:
  assumes "finite T" and "n + card T \<le> MAX_SUBSCRIBERS" and "sub_reachable (sub_init n T) s"
  shows "\<not> overrun s \<and> sys_count s \<le> MAX_SUBSCRIBERS"
proof -
  have "pending (sub_init n T) = T" by (auto simp: pending_def sub_init_def)
  then have "room_for_pending (sub_init n T)"
    using assms(1,2) by (simp add: room_for_pending_def) (simp add: sub_init_def)
  from room_for_pending_reachable [OF assms(3) this] show ?thesis by (simp add: room_for_pending_def)
qed

text \<open>
  C39. Beyond that the unlocked test is a race: with one free slot and two callers there is an
  interleaving in which both pass the test and the second writes past the end of the table.
\<close>

theorem concurrent_registration_race:
  "\<exists>s. sub_reachable (sub_init 7 {0, 1}) s \<and> overrun s \<and> sys_count s = 9"
proof -
  define s1 where "s1 = (sub_init 7 {0, 1})\<lparr>sys_pc := (sys_pc (sub_init 7 {0, 1}))(0 := Sub_Checked)\<rparr>"
  define s2 where "s2 = s1\<lparr>sys_pc := (sys_pc s1)(1 := Sub_Checked)\<rparr>"
  define s3 where "s3 = s2\<lparr>sys_count := sys_count s2 + 1, sys_pc := (sys_pc s2)(0 := Sub_Done 0),
    overrun := (overrun s2 \<or> sys_count s2 \<ge> MAX_SUBSCRIBERS)\<rparr>"
  define s4 where "s4 = s3\<lparr>sys_count := sys_count s3 + 1, sys_pc := (sys_pc s3)(1 := Sub_Done 0),
    overrun := (overrun s3 \<or> sys_count s3 \<ge> MAX_SUBSCRIBERS)\<rparr>"
  have steps: "sub_step (sub_init 7 {0, 1}) s1" "sub_step s1 s2" "sub_step s2 s3" "sub_step s3 s4"
    unfolding s1_def s2_def s3_def s4_def
    by (rule check_room check_room locked_write locked_write;
        simp add: sub_init_def MAX_SUBSCRIBERS_def)+
  have "sub_reachable (sub_init 7 {0, 1}) s4"
    using steps by (meson rtranclp.rtrancl_into_rtrancl rtranclp.rtrancl_refl)
  moreover have "overrun s4" "sys_count s4 = 9"
    by (simp_all add: s4_def s3_def s2_def s1_def sub_init_def MAX_SUBSCRIBERS_def)
  ultimately show ?thesis by blast
qed

end
