(* ===== verification/Osal_Posix.thy ===== *)
theory Osal_Posix
  imports Bms_Prelude
begin

text \<open>
  The POSIX implementation of the OS abstraction layer, \<open>src/osal/osal_posix.c\<close>: the tick
  counter and the time conversions, the bounded queue with its byte buffer, and the shutdown flag.
  The clock and the condition variables belong to the C library: \<open>clock_gettime\<close> is an
  argument (the time it returns) and each return of \<open>pthread_cond_timedwait\<close> is an element of
  a list, with what the other threads did to the queue while the lock was released and whether the
  wait timed out. Seconds and nanoseconds are integers: the 64-bit types of the code hold every value
  that occurs.
\<close>

section \<open>Time\<close>

record timespec =
  tv_sec :: int
  tv_nsec :: int

definition osal_get_tick_ms :: "timespec \<Rightarrow> timespec \<Rightarrow> u32" where
  "osal_get_tick_ms g_start_time now =
     (let sec_diff = tv_sec now - tv_sec g_start_time;
          nsec_diff = tv_nsec now - tv_nsec g_start_time;
          ms = (sec_diff * 1000) + c_div nsec_diff 1000000
      in word_of_int ms)"

text \<open>
  The start time is read once, by the first call in the program: \<open>pthread_once\<close> runs
  \<open>clock_init\<close> if nobody has yet. A call takes the start time recorded so far and the two times the
  clock would return.
\<close>

definition clock_init :: "timespec \<Rightarrow> timespec" where
  "clock_init clock_now = clock_now"

definition tick_call :: "timespec option \<Rightarrow> timespec \<Rightarrow> timespec \<Rightarrow> u32 \<times> timespec option" where
  "tick_call g_start_time first now =
     (let start = (case g_start_time of None \<Rightarrow> clock_init first | Some t \<Rightarrow> t)
      in (osal_get_tick_ms start now, Some start))"

text \<open>All calls of a program measure from the same start.\<close>

lemma tick_call_once:
  "snd (tick_call None first now) = Some first"
  "tick_call (Some start) first now = (osal_get_tick_ms start now, Some start)"
  by (simp_all add: tick_call_def clock_init_def)

text \<open>The argument \<open>osal_task_delay_ms\<close> passes to \<open>nanosleep\<close>.\<close>

definition osal_task_delay_ms :: "u32 \<Rightarrow> timespec" where
  "osal_task_delay_ms ms = \<lparr>tv_sec = uint (ms div 1000), tv_nsec = uint (ms mod 1000) * 1000000\<rparr>"

definition abs_deadline :: "timespec \<Rightarrow> u32 \<Rightarrow> timespec" where
  "abs_deadline now timeout_ms =
     (let sec = tv_sec now + uint (timeout_ms div 1000);
          ns = tv_nsec now + uint (timeout_ms mod 1000) * 1000000
      in \<lparr>tv_sec = sec + c_div ns 1000000000, tv_nsec = ns - c_div ns 1000000000 * 1000000000\<rparr>)"

section \<open>The bounded queue\<close>

record osal_queue =
  q_buf :: "u8 list"
  q_item_size :: nat
  q_capacity :: nat
  q_count :: nat
  q_head :: nat

text \<open>
  \<open>calloc\<close> may fail. The control block is checked by the code; the buffer is not, which the
  model shows as a queue without buffer bytes.
\<close>

definition osal_queue_create :: "bool \<Rightarrow> bool \<Rightarrow> nat \<Rightarrow> nat \<Rightarrow> osal_queue option" where
  "osal_queue_create calloc_q calloc_buf item_size capacity =
     (if \<not> calloc_q then None
      else Some \<lparr>q_buf = (if calloc_buf then replicate (capacity * item_size) 0 else []),
                 q_item_size = item_size, q_capacity = capacity, q_count = 0, q_head = 0\<rparr>)"

definition memcpy_to :: "u8 list \<Rightarrow> nat \<Rightarrow> u8 list \<Rightarrow> u8 list" where
  "memcpy_to buf off src = take off buf @ src @ drop (off + length src) buf"

definition memcpy_from :: "u8 list \<Rightarrow> nat \<Rightarrow> nat \<Rightarrow> u8 list" where
  "memcpy_from buf off n = take n (drop off buf)"

text \<open>The part of send and receive after the wait loop, under the lock.\<close>

definition queue_put :: "osal_queue \<Rightarrow> u8 list \<Rightarrow> osal_queue" where
  "queue_put q item =
     (let tail = (q_head q + q_count q) mod q_capacity q
      in q\<lparr>q_buf := memcpy_to (q_buf q) (tail * q_item_size q) item, q_count := q_count q + 1\<rparr>)"

definition queue_get :: "osal_queue \<Rightarrow> u8 list \<times> osal_queue" where
  "queue_get q =
     (memcpy_from (q_buf q) (q_head q * q_item_size q) (q_item_size q),
      q\<lparr>q_head := (q_head q + 1) mod q_capacity q, q_count := q_count q - 1\<rparr>)"

text \<open>
  A wake-up: the effect of the other threads on the queue while it was waiting, and whether
  \<open>pthread_cond_timedwait\<close> returned \<open>ETIMEDOUT\<close>.
\<close>

record wakeup =
  wk_others :: "osal_queue \<Rightarrow> osal_queue"
  wk_timedout :: bool

datatype 'r call = Returned 'r | Waiting

fun osal_queue_send :: "osal_queue \<Rightarrow> u8 list \<Rightarrow> wakeup list \<Rightarrow> (bool \<times> osal_queue) call" where
  "osal_queue_send q item wakes =
     (if q_count q = q_capacity q then
        (case wakes of [] \<Rightarrow> Waiting
         | w # ws \<Rightarrow> let q' = wk_others w q
                    in if wk_timedout w then Returned (False, q') else osal_queue_send q' item ws)
      else Returned (True, queue_put q item))"

fun osal_queue_receive :: "osal_queue \<Rightarrow> wakeup list \<Rightarrow> (u8 list option \<times> osal_queue) call" where
  "osal_queue_receive q wakes =
     (if q_count q = 0 then
        (case wakes of [] \<Rightarrow> Waiting
         | w # ws \<Rightarrow> let q' = wk_others w q
                    in if wk_timedout w then Returned (None, q') else osal_queue_receive q' ws)
      else let (item, q') = queue_get q in Returned (Some item, q'))"

declare osal_queue_send.simps [simp del] osal_queue_receive.simps [simp del]

section \<open>Shutdown flag\<close>

definition osal_request_shutdown :: "bool \<Rightarrow> bool" where
  "osal_request_shutdown g_shutdown = True"

definition osal_is_shutdown_requested :: "bool \<Rightarrow> bool" where
  "osal_is_shutdown_requested g_shutdown = g_shutdown"

text \<open>
  \<open>osal_start_scheduler\<close> polls the flag every 50 ms: with the values it will read, the delays
  it makes before it returns, or \<^const>\<open>None\<close> if it has not returned by then.
\<close>

fun osal_start_scheduler :: "bool list \<Rightarrow> nat option" where
  "osal_start_scheduler [] = None"
| "osal_start_scheduler (g_shutdown # later) =
     (if g_shutdown then Some 0 else map_option Suc (osal_start_scheduler later))"

section \<open>The contract of a bounded queue\<close>

text \<open>
  What \<open>osal.h\<close> promises of a queue, over any representation: a bounded sequence of items,
  first in first out. The lemmas say that putting and getting neither lose, duplicate nor reorder.
\<close>

locale bounded_fifo =
  fixes wf :: "'q \<Rightarrow> bool"
    and items :: "'q \<Rightarrow> 'i list"
    and cap :: "'q \<Rightarrow> nat"
    and fits :: "'q \<Rightarrow> 'i \<Rightarrow> bool"
    and put :: "'q \<Rightarrow> 'i \<Rightarrow> 'q"
    and get :: "'q \<Rightarrow> 'i \<times> 'q"
  assumes items_bounded: "wf q \<Longrightarrow> length (items q) \<le> cap q"
    and put_wf: "wf q \<Longrightarrow> fits q x \<Longrightarrow> length (items q) < cap q \<Longrightarrow> wf (put q x)"
    and put_items: "wf q \<Longrightarrow> fits q x \<Longrightarrow> length (items q) < cap q \<Longrightarrow> items (put q x) = items q @ [x]"
    and get_wf: "wf q \<Longrightarrow> items q \<noteq> [] \<Longrightarrow> wf (snd (get q))"
    and get_items: "wf q \<Longrightarrow> items q \<noteq> [] \<Longrightarrow> fst (get q) # items (snd (get q)) = items q"
    and put_frame: "cap (put q x) = cap q" "fits (put q x) = fits q"
    and get_frame: "cap (snd (get q)) = cap q" "fits (snd (get q)) = fits q"
begin

lemma get_hd: "wf q \<Longrightarrow> items q \<noteq> [] \<Longrightarrow> fst (get q) = hd (items q)"
  by (metis get_items list.sel(1))

lemma get_tl: "wf q \<Longrightarrow> items q \<noteq> [] \<Longrightarrow> items (snd (get q)) = tl (items q)"
  by (metis get_items list.sel(3))

lemma put_get_other_end:
  assumes "wf q" and "fits q x" and "length (items q) < cap q" and "items q \<noteq> []"
  shows "fst (get (put q x)) = fst (get q)"
  using assms by (simp add: get_hd put_wf put_items)

lemma put_get_empty:
  assumes "wf q" and "fits q x" and "items q = []" and "0 < cap q"
  shows "fst (get (put q x)) = x" and "items (snd (get (put q x))) = []"
  using assms by (simp_all add: get_hd get_tl put_wf put_items)

end

section \<open>The ring buffer keeps the contract\<close>

definition queue_slot :: "osal_queue \<Rightarrow> nat \<Rightarrow> u8 list" where
  "queue_slot q j = memcpy_from (q_buf q) (j * q_item_size q) (q_item_size q)"

definition queue_items :: "osal_queue \<Rightarrow> u8 list list" where
  "queue_items q = map (\<lambda>i. queue_slot q ((q_head q + i) mod q_capacity q)) [0..<q_count q]"

definition queue_ok :: "osal_queue \<Rightarrow> bool" where
  "queue_ok q \<longleftrightarrow> length (q_buf q) = q_capacity q * q_item_size q \<and> 0 < q_capacity q \<and>
     q_count q \<le> q_capacity q \<and> q_head q < q_capacity q"

definition queue_fits :: "osal_queue \<Rightarrow> u8 list \<Rightarrow> bool" where
  "queue_fits q item \<longleftrightarrow> length item = q_item_size q"

lemma length_queue_items [simp]: "length (queue_items q) = q_count q"
  by (simp add: queue_items_def)

lemma length_memcpy_to: "off + length src \<le> length buf \<Longrightarrow> length (memcpy_to buf off src) = length buf"
  by (simp add: memcpy_to_def)

lemma nth_memcpy_to:
  assumes "off + length src \<le> length buf" and "k < length buf"
  shows "memcpy_to buf off src ! k =
    (if off \<le> k \<and> k < off + length src then src ! (k - off) else buf ! k)"
  using assms by (auto simp: memcpy_to_def nth_append min_def not_less)

lemma memcpy_slot_bounds:
  fixes i :: nat
  assumes "i < c"
  shows "i * n + n \<le> c * n"
  using assms by (metis Suc_leI add.commute mult_Suc mult_le_mono1)

lemma memcpy_from_to:
  assumes "length buf = c * n" and "i < c" and "j < c" and "length src = n"
  shows "memcpy_from (memcpy_to buf (j * n) src) (i * n) n =
    (if i = j then src else memcpy_from buf (i * n) n)"
proof -
  note bounds = memcpy_slot_bounds [OF assms(2), of n] memcpy_slot_bounds [OF assms(3), of n]
  have len: "length (memcpy_to buf (j * n) src) = c * n"
    using assms(1,4) bounds by (simp add: length_memcpy_to)
  have apart: "i < j \<Longrightarrow> i * n + n \<le> j * n" "j < i \<Longrightarrow> j * n + n \<le> i * n"
    by (simp_all add: memcpy_slot_bounds)
  have "memcpy_to buf (j * n) src ! (i * n + k) = (if i = j then src ! k else buf ! (i * n + k))"
    if "k < n" for k
  proof -
    have eq: "memcpy_to buf (j * n) src ! (i * n + k) =
        (if j * n \<le> i * n + k \<and> i * n + k < j * n + n then src ! (i * n + k - j * n) else buf ! (i * n + k))"
      using that assms(1,4) bounds by (subst nth_memcpy_to) simp_all
    consider "i = j" | "i < j" | "j < i" by linarith
    then show ?thesis using that apart unfolding eq by cases simp_all
  qed
  then show ?thesis
    using assms len bounds by (auto simp: memcpy_from_def intro!: nth_equalityI)
qed

lemma queue_slot_put:
  assumes "queue_ok q" and "queue_fits q x" and "i < q_capacity q"
  shows "queue_slot (queue_put q x) i =
    (if i = (q_head q + q_count q) mod q_capacity q then x else queue_slot q i)"
  using assms memcpy_from_to [of "q_buf q" "q_capacity q" "q_item_size q" i
      "(q_head q + q_count q) mod q_capacity q" x]
  by (simp add: queue_ok_def queue_fits_def queue_slot_def queue_put_def Let_def)

lemma ring_index_inj:
  fixes h :: nat
  assumes "i < n" and "n < c"
  shows "(h + i) mod c \<noteq> (h + n) mod c"
proof
  assume "(h + i) mod c = (h + n) mod c"
  then have "c dvd (h + n) - (h + i)" using assms by (metis add_le_cancel_left less_imp_le mod_eq_dvd_iff_nat)
  then have "c dvd n - i" by simp
  with assms show False by (simp add: nat_dvd_not_less)
qed

lemma queue_items_put:
  assumes "queue_ok q" and "queue_fits q x" and "q_count q < q_capacity q"
  shows "queue_items (queue_put q x) = queue_items q @ [x]"
proof -
  have c: "0 < q_capacity q" using assms(1) by (simp add: queue_ok_def)
  have frame: "q_count (queue_put q x) = Suc (q_count q)" "q_head (queue_put q x) = q_head q"
    "q_capacity (queue_put q x) = q_capacity q"
    by (simp_all add: queue_put_def Let_def)
  show ?thesis
    unfolding queue_items_def frame
    using ring_index_inj [OF _ assms(3), of _ "q_head q"] c
    by (simp add: queue_slot_put [OF assms(1,2)])
qed

lemma queue_put_ok:
  assumes "queue_ok q" and "queue_fits q x" and "q_count q < q_capacity q"
  shows "queue_ok (queue_put q x)"
proof -
  have "(q_head q + q_count q) mod q_capacity q < q_capacity q"
    using assms(1) by (simp add: queue_ok_def)
  from memcpy_slot_bounds [OF this, of "q_item_size q"] assms show ?thesis
    by (simp add: queue_ok_def queue_fits_def queue_put_def Let_def length_memcpy_to)
qed

lemma queue_get_items:
  assumes "queue_ok q" and "queue_items q \<noteq> []"
  shows "fst (queue_get q) # queue_items (snd (queue_get q)) = queue_items q"
proof -
  have "q_count q \<noteq> 0" using assms(2) by (auto simp: queue_items_def)
  then obtain n where n: "q_count q = Suc n" using not0_implies_Suc by blast
  have h: "q_head q mod q_capacity q = q_head q" using assms(1) by (simp add: queue_ok_def)
  have "queue_items q = queue_slot q (q_head q mod q_capacity q)
      # map (\<lambda>i. queue_slot q ((q_head q + Suc i) mod q_capacity q)) [0..<n]"
    unfolding queue_items_def n by (simp add: upt_conv_Cons map_Suc_upt [symmetric] o_def del: upt_Suc)
  then show ?thesis
    by (simp add: h n queue_get_def queue_items_def queue_slot_def mod_simps)
qed

interpretation posix_fifo: bounded_fifo queue_ok queue_items q_capacity queue_fits queue_put queue_get
proof (unfold_locales, goal_cases)
  case (2 q x)
  then show ?case by (intro queue_put_ok) simp_all
next
  case (3 q x)
  then show ?case by (intro queue_items_put) simp_all
next
  case (5 q)
  then show ?case by (rule queue_get_items)
qed (auto simp: queue_ok_def queue_put_def queue_get_def queue_fits_def Let_def fun_eq_iff)

section \<open>Time conversions\<close>

definition timespec_ok :: "timespec \<Rightarrow> bool" where
  "timespec_ok t \<longleftrightarrow> 0 \<le> tv_nsec t \<and> tv_nsec t < 1000000000"

definition timespec_ns :: "timespec \<Rightarrow> int" where
  "timespec_ns t = tv_sec t * 1000000000 + tv_nsec t"

definition tick_int :: "timespec \<Rightarrow> timespec \<Rightarrow> int" where
  "tick_int start now = (tv_sec now - tv_sec start) * 1000 + c_div (tv_nsec now - tv_nsec start) 1000000"

lemma osal_get_tick_ms_eq: "osal_get_tick_ms start now = word_of_int (tick_int start now)"
  by (simp add: osal_get_tick_ms_def tick_int_def Let_def)

lemma tick_int_error: "\<bar>1000000 * tick_int start now - (timespec_ns now - timespec_ns start)\<bar> < 1000000"
  using c_div_error [of 1000000 "tv_nsec now - tv_nsec start"]
  by (simp add: tick_int_def timespec_ns_def algebra_simps)

lemma tick_int_mono:
  assumes "timespec_ok start" "timespec_ok a" and "timespec_ok b" and "timespec_ns a \<le> timespec_ns b"
  shows "tick_int start a \<le> tick_int start b"
proof (cases "tv_sec a = tv_sec b")
  case True
  with assms(4) have "tv_nsec a - tv_nsec start \<le> tv_nsec b - tv_nsec start" by (simp add: timespec_ns_def)
  from c_div_mono [OF _ this, of 1000000] True show ?thesis by (simp add: tick_int_def)
next
  case False
  let ?a = "tv_nsec a - tv_nsec start" and ?b = "tv_nsec b - tv_nsec start"
  have less: "tv_sec a + 1 \<le> tv_sec b"
    using False assms by (simp add: timespec_ns_def timespec_ok_def)
  have "c_div ?a 1000000 \<le> c_div (?b + 1000000000) 1000000"
    using assms(2,3) by (intro c_div_mono) (simp_all add: timespec_ok_def)
  also have "\<dots> \<le> c_div ?b 1000000 + 1000"
  proof -
    have "0 \<le> ?b + 1000000000" using assms(1,3) by (simp add: timespec_ok_def)
    then have "c_div (?b + 1000000000) 1000000 = (?b + 1000 * 1000000) div 1000000"
      by (simp add: c_div_nonneg)
    also have "\<dots> = ?b div 1000000 + 1000" by (subst div_mult_self1) simp_all
    finally show ?thesis using div_le_c_div [of 1000000 ?b] by simp
  qed
  finally show ?thesis using less by (simp add: tick_int_def)
qed

lemma abs_deadline_ok:
  assumes "timespec_ok now"
  shows "timespec_ok (abs_deadline now t)"
    and "timespec_ns (abs_deadline now t) = timespec_ns now + uint t * 1000000"
proof -
  define ns where "ns = tv_nsec now + uint (t mod 1000) * 1000000"
  have t: "uint (t div 1000) * 1000 + uint (t mod 1000) = uint t"
    by (simp add: uint_div_distrib uint_mod_distrib)
  have ns: "0 \<le> ns" using assms by (simp add: ns_def timespec_ok_def)
  then have d: "abs_deadline now t =
      \<lparr>tv_sec = tv_sec now + uint (t div 1000) + ns div 1000000000, tv_nsec = ns mod 1000000000\<rparr>"
    by (simp add: abs_deadline_def Let_def c_div_nonneg minus_div_mult_eq_mod flip: ns_def)
  then show "timespec_ok (abs_deadline now t)" by (simp add: timespec_ok_def)
  have "ns div 1000000000 * 1000000000 + ns mod 1000000000 = ns" by simp
  then have "timespec_ns (abs_deadline now t) =
      timespec_ns now + (uint (t div 1000) * 1000 + uint (t mod 1000)) * 1000000"
    unfolding d timespec_ns_def ns_def by (simp add: algebra_simps)
  then show "timespec_ns (abs_deadline now t) = timespec_ns now + uint t * 1000000" by (simp only: t)
qed

lemma delay_ok:
  "timespec_ok (osal_task_delay_ms t)" "timespec_ns (osal_task_delay_ms t) = uint t * 1000000"
proof -
  have t: "uint (t div 1000) * 1000 + uint (t mod 1000) = uint t"
    by (simp add: uint_div_distrib uint_mod_distrib)
  show "timespec_ok (osal_task_delay_ms t)"
    by (simp add: osal_task_delay_ms_def timespec_ok_def uint_mod_distrib)
  have "timespec_ns (osal_task_delay_ms t) = (uint (t div 1000) * 1000 + uint (t mod 1000)) * 1000000"
    by (simp add: osal_task_delay_ms_def timespec_ns_def algebra_simps)
  then show "timespec_ns (osal_task_delay_ms t) = uint t * 1000000" by (simp only: t)
qed

section \<open>Sequences of queue operations\<close>

text \<open>
  Critical sections of the queue, in the order the lock admits them: a send that finds the queue full
  or a receive that finds it empty leaves it alone (it waits or times out). The specification keeps
  a plain list; the second component collects the items received.
\<close>

datatype queue_op = Send "u8 list" | Receive

fun queue_step :: "osal_queue \<times> u8 list list \<Rightarrow> queue_op \<Rightarrow> osal_queue \<times> u8 list list" where
  "queue_step (q, out) (Send x) = (if q_count q = q_capacity q then (q, out) else (queue_put q x, out))"
| "queue_step (q, out) Receive =
     (if q_count q = 0 then (q, out) else let (x, q') = queue_get q in (q', out @ [x]))"

fun fifo_step :: "nat \<Rightarrow> u8 list list \<times> u8 list list \<Rightarrow> queue_op \<Rightarrow> u8 list list \<times> u8 list list" where
  "fifo_step cap (xs, out) (Send x) = (if length xs < cap then (xs @ [x], out) else (xs, out))"
| "fifo_step cap ([], out) Receive = ([], out)"
| "fifo_step cap (x # xs, out) Receive = (xs, out @ [x])"

fun op_fits :: "nat \<Rightarrow> queue_op \<Rightarrow> bool" where
  "op_fits n (Send x) \<longleftrightarrow> length x = n"
| "op_fits n Receive \<longleftrightarrow> True"

definition queue_refines :: "nat \<Rightarrow> nat \<Rightarrow> osal_queue \<times> u8 list list \<Rightarrow> u8 list list \<times> u8 list list \<Rightarrow> bool" where
  "queue_refines item_size cap c a \<longleftrightarrow>
     queue_ok (fst c) \<and> q_item_size (fst c) = item_size \<and> q_capacity (fst c) = cap \<and>
     fst a = queue_items (fst c) \<and> snd a = snd c"

lemma queue_frame [simp]:
  "q_item_size (queue_put q x) = q_item_size q" "q_item_size (snd (queue_get q)) = q_item_size q"
  "q_capacity (queue_put q x) = q_capacity q" "q_capacity (snd (queue_get q)) = q_capacity q"
  by (simp_all add: queue_put_def queue_get_def Let_def)

lemma queue_step_refines:
  assumes "queue_refines n cap c a" and "op_fits n e"
  shows "queue_refines n cap (queue_step c e) (fifo_step cap a e)"
proof -
  obtain q out where c: "c = (q, out)" by (cases c)
  have r: "queue_ok q" "q_item_size q = n" "q_capacity q = cap" "a = (queue_items q, out)"
    using assms(1) by (simp_all add: queue_refines_def c prod_eq_iff)
  have le: "q_count q \<le> q_capacity q" using r(1) by (simp add: queue_ok_def)
  show ?thesis
  proof (cases e)
    case (Send x)
    then have "queue_fits q x" using assms(2) r(2) by (simp add: queue_fits_def)
    with Send r le posix_fifo.put_wf [OF r(1)] posix_fifo.put_items [OF r(1)] show ?thesis
      by (auto simp: c queue_refines_def)
  next
    case Receive
    show ?thesis
    proof (cases "queue_items q")
      case Nil
      then have "q_count q = 0" by (metis length_queue_items list.size(3))
      with Nil Receive r show ?thesis by (simp add: c queue_refines_def)
    next
      case (Cons y ys)
      then have "q_count q \<noteq> 0" by (metis length_queue_items length_0_conv list.distinct(1))
      moreover have "fst (queue_get q) = y" "queue_items (snd (queue_get q)) = ys"
        "queue_ok (snd (queue_get q))"
        using posix_fifo.get_hd [OF r(1)] posix_fifo.get_tl [OF r(1)] posix_fifo.get_wf [OF r(1)] Cons
        by simp_all
      ultimately show ?thesis using Cons Receive r
        by (simp add: c queue_refines_def case_prod_unfold Let_def)
    qed
  qed
qed

interpretation posix_queue: simulation queue_step "fifo_step cap" "queue_refines n cap" "op_fits n"
  for cap n
  by unfold_locales (rule queue_step_refines)

lemma queue_create_refines:
  "0 < cap \<Longrightarrow> queue_refines n cap (the (osal_queue_create True True n cap), []) ([], [])"
  by (simp add: queue_refines_def osal_queue_create_def queue_ok_def queue_items_def)

section \<open>The wait loops\<close>

text \<open>What the other threads may do during a wait: keep the queue well formed and its shape.\<close>

definition keeps_queue :: "wakeup \<Rightarrow> bool" where
  "keeps_queue w \<longleftrightarrow> (\<forall>q. queue_ok q \<longrightarrow> queue_ok (wk_others w q) \<and>
     q_item_size (wk_others w q) = q_item_size q \<and> q_capacity (wk_others w q) = q_capacity q)"

lemmas queue_loops =
  osal_queue_send.simps [where wakes = "[]"] osal_queue_send.simps [where wakes = "w # ws" for w ws]
  osal_queue_receive.simps [where wakes = "[]"] osal_queue_receive.simps [where wakes = "w # ws" for w ws]

lemma send_returns_on_timeout:
  "\<exists>w\<in>set wakes. wk_timedout w \<Longrightarrow> \<exists>r. osal_queue_send q item wakes = Returned r"
  by (induction wakes arbitrary: q) (auto simp: queue_loops Let_def)

lemma receive_returns_on_timeout:
  "\<exists>w\<in>set wakes. wk_timedout w \<Longrightarrow> \<exists>r. osal_queue_receive q wakes = Returned r"
  by (induction wakes arbitrary: q) (auto simp: queue_loops Let_def case_prod_unfold)

text \<open>
  The queue after some wake-ups, and the condition that a call found the queue as \<open>P\<close> says before each
  of them and that none of them was a time-out: the call has waited for a reason.
\<close>

definition after_wakes :: "wakeup list \<Rightarrow> osal_queue \<Rightarrow> osal_queue" where
  "after_wakes ws q = foldl (\<lambda>q w. wk_others w q) q ws"

fun waited_while :: "(osal_queue \<Rightarrow> bool) \<Rightarrow> wakeup list \<Rightarrow> osal_queue \<Rightarrow> bool" where
  "waited_while P [] q \<longleftrightarrow> True"
| "waited_while P (w # ws) q \<longleftrightarrow> P q \<and> \<not> wk_timedout w \<and> waited_while P ws (wk_others w q)"

lemma after_wakes_simps [simp]: "after_wakes [] q = q" "after_wakes (w # ws) q = after_wakes ws (wk_others w q)"
  by (simp_all add: after_wakes_def)

lemma after_wakes_keeps:
  assumes "\<forall>w\<in>set ws. keeps_queue w" and "queue_ok q"
  shows "queue_ok (after_wakes ws q) \<and> q_item_size (after_wakes ws q) = q_item_size q \<and>
    q_capacity (after_wakes ws q) = q_capacity q"
  using assms by (induction ws arbitrary: q) (simp_all add: keeps_queue_def)

text \<open>What the loops compute: the first wake-up after which the queue has room, or an item, decides.\<close>

definition queue_full :: "osal_queue \<Rightarrow> bool" where
  "queue_full q \<longleftrightarrow> length (queue_items q) = q_capacity q"

definition queue_empty :: "osal_queue \<Rightarrow> bool" where
  "queue_empty q \<longleftrightarrow> queue_items q = []"

lemma queue_empty_iff: "queue_empty q \<longleftrightarrow> q_count q = 0"
  by (metis length_0_conv length_queue_items queue_empty_def)

lemma send_waits:
  assumes "osal_queue_send q item wakes = Returned (sent, q')"
  shows "\<exists>ws rest. waited_while queue_full ws q \<and>
    (if sent then wakes = ws @ rest \<and> \<not> queue_full (after_wakes ws q) \<and> q' = queue_put (after_wakes ws q) item
     else \<exists>w. wakes = ws @ w # rest \<and> queue_full (after_wakes ws q) \<and> wk_timedout w \<and> q' = wk_others w (after_wakes ws q))"
  using assms
proof (induction wakes arbitrary: q)
  case Nil
  then show ?case by (intro exI [of _ "[]"]) (auto simp: queue_loops queue_full_def split: if_splits)
next
  case (Cons w wakes)
  show ?case
  proof (cases "queue_full q \<and> \<not> wk_timedout w")
    case True
    then have "osal_queue_send (wk_others w q) item wakes = Returned (sent, q')"
      using Cons.prems by (simp add: queue_loops queue_full_def Let_def)
    then obtain ws rest where "waited_while queue_full ws (wk_others w q) \<and>
      (if sent then wakes = ws @ rest \<and> \<not> queue_full (after_wakes ws (wk_others w q)) \<and>
          q' = queue_put (after_wakes ws (wk_others w q)) item
       else \<exists>w'. wakes = ws @ w' # rest \<and> queue_full (after_wakes ws (wk_others w q)) \<and> wk_timedout w' \<and>
          q' = wk_others w' (after_wakes ws (wk_others w q)))" using Cons.IH by blast
    then show ?thesis using True by (intro exI [of _ "w # ws"] exI [of _ rest]) (simp split: if_splits)
  next
    case False
    then show ?thesis using Cons.prems
      by (intro exI [of _ "[]"] exI [of _ "if sent then w # wakes else wakes"])
        (auto simp: queue_loops queue_full_def Let_def split: if_splits)
  qed
qed

lemma receive_waits:
  assumes "osal_queue_receive q wakes = Returned (x, q')"
  shows "\<exists>ws rest. waited_while queue_empty ws q \<and>
    (case x of
       Some y \<Rightarrow> wakes = ws @ rest \<and> \<not> queue_empty (after_wakes ws q) \<and> (y, q') = queue_get (after_wakes ws q)
     | None \<Rightarrow> \<exists>w. wakes = ws @ w # rest \<and> queue_empty (after_wakes ws q) \<and> wk_timedout w \<and>
         q' = wk_others w (after_wakes ws q))"
  using assms
proof (induction wakes arbitrary: q)
  case Nil
  then show ?case
    by (intro exI [of _ "[]"]) (auto simp: queue_loops queue_empty_iff case_prod_unfold Let_def split: if_splits)
next
  case (Cons w wakes)
  show ?case
  proof (cases "queue_empty q \<and> \<not> wk_timedout w")
    case True
    then have "osal_queue_receive (wk_others w q) wakes = Returned (x, q')"
      using Cons.prems by (simp add: queue_loops queue_empty_iff Let_def)
    then obtain ws rest where "waited_while queue_empty ws (wk_others w q) \<and>
      (case x of
         Some y \<Rightarrow> wakes = ws @ rest \<and> \<not> queue_empty (after_wakes ws (wk_others w q)) \<and>
           (y, q') = queue_get (after_wakes ws (wk_others w q))
       | None \<Rightarrow> \<exists>w'. wakes = ws @ w' # rest \<and> queue_empty (after_wakes ws (wk_others w q)) \<and> wk_timedout w' \<and>
           q' = wk_others w' (after_wakes ws (wk_others w q)))" using Cons.IH by blast
    then show ?thesis using True by (intro exI [of _ "w # ws"] exI [of _ rest]) (simp split: option.splits)
  next
    case False
    then show ?thesis using Cons.prems
      by (intro exI [of _ "[]"] exI [of _ "case x of None \<Rightarrow> wakes | Some _ \<Rightarrow> w # wakes"])
        (auto simp: queue_loops queue_empty_iff Let_def case_prod_unfold split: if_splits)
  qed
qed

lemma put_correct:
  assumes "queue_ok q" and "length item = q_item_size q" and "\<not> queue_full q"
  shows "queue_ok (queue_put q item) \<and> queue_items (queue_put q item) = queue_items q @ [item]"
proof -
  have "length (queue_items q) < q_capacity q" using assms(1,3) by (simp add: queue_ok_def queue_full_def)
  with assms show ?thesis by (simp add: posix_fifo.put_wf posix_fifo.put_items queue_fits_def)
qed

lemma get_correct:
  assumes "queue_ok q" and "\<not> queue_empty q"
  shows "queue_ok (snd (queue_get q)) \<and> queue_items q = fst (queue_get q) # queue_items (snd (queue_get q))"
  using assms by (simp add: posix_fifo.get_wf posix_fifo.get_items queue_empty_def)

lemma after_wakes_snoc: "after_wakes (ws @ [w]) q = wk_others w (after_wakes ws q)"
  by (simp add: after_wakes_def)

lemma send_correct:
  assumes "queue_ok q" and "length item = q_item_size q" and "\<forall>w\<in>set wakes. keeps_queue w"
    and "\<exists>w\<in>set wakes. wk_timedout w"
  shows "\<exists>sent q' ws rest. osal_queue_send q item wakes = Returned (sent, q') \<and>
      queue_ok q' \<and> q_capacity q' = q_capacity q \<and> waited_while queue_full ws q \<and>
      (if sent then wakes = ws @ rest \<and> queue_items q' = queue_items (after_wakes ws q) @ [item]
       else \<exists>w. wakes = ws @ w # rest \<and> wk_timedout w \<and> queue_full (after_wakes ws q) \<and> q' = after_wakes (ws @ [w]) q)"
proof -
  obtain sent q' where r: "osal_queue_send q item wakes = Returned (sent, q')"
    using send_returns_on_timeout [OF assms(4), of q item] by auto
  obtain ws rest where w: "waited_while queue_full ws q" "if sent
     then wakes = ws @ rest \<and> \<not> queue_full (after_wakes ws q) \<and> q' = queue_put (after_wakes ws q) item
     else \<exists>w. wakes = ws @ w # rest \<and> queue_full (after_wakes ws q) \<and> wk_timedout w \<and> q' = wk_others w (after_wakes ws q)"
    using send_waits [OF r] by blast
  show ?thesis
  proof (cases sent)
    case True
    then show ?thesis
      using r w after_wakes_keeps [of ws q] assms(1,3) put_correct [of "after_wakes ws q" item] assms(2)
      by (intro exI [of _ sent] exI [of _ q'] exI [of _ ws] exI [of _ rest]) simp
  next
    case False
    then obtain u where "wakes = ws @ u # rest" "queue_full (after_wakes ws q)" "wk_timedout u" "q' = after_wakes (ws @ [u]) q"
      using w(2) by (auto simp: after_wakes_snoc)
    then show ?thesis using False r w(1) after_wakes_keeps [of "ws @ [u]" q] assms(1,3)
      by (intro exI [of _ sent] exI [of _ q'] exI [of _ ws] exI [of _ rest]) auto
  qed
qed

lemma receive_correct:
  assumes "queue_ok q" and "\<forall>w\<in>set wakes. keeps_queue w" and "\<exists>w\<in>set wakes. wk_timedout w"
  shows "\<exists>x q' ws rest. osal_queue_receive q wakes = Returned (x, q') \<and>
      queue_ok q' \<and> q_capacity q' = q_capacity q \<and> waited_while queue_empty ws q \<and>
      (case x of
         Some y \<Rightarrow> wakes = ws @ rest \<and> queue_items (after_wakes ws q) = y # queue_items q'
       | None \<Rightarrow> \<exists>w. wakes = ws @ w # rest \<and> wk_timedout w \<and> queue_empty (after_wakes ws q) \<and> q' = after_wakes (ws @ [w]) q)"
proof -
  obtain x q' where r: "osal_queue_receive q wakes = Returned (x, q')"
    using receive_returns_on_timeout [OF assms(3), of q] by auto
  obtain ws rest where w: "waited_while queue_empty ws q" "case x of
       Some y \<Rightarrow> wakes = ws @ rest \<and> \<not> queue_empty (after_wakes ws q) \<and> (y, q') = queue_get (after_wakes ws q)
     | None \<Rightarrow> \<exists>w. wakes = ws @ w # rest \<and> queue_empty (after_wakes ws q) \<and> wk_timedout w \<and> q' = wk_others w (after_wakes ws q)"
    using receive_waits [OF r] by blast
  show ?thesis
  proof (cases x)
    case (Some y)
    then have "wakes = ws @ rest" "\<not> queue_empty (after_wakes ws q)" "y = fst (queue_get (after_wakes ws q))"
      "q' = snd (queue_get (after_wakes ws q))" using w(2) by (auto dest: arg_cong [of _ _ fst] arg_cong [of _ _ snd])
    then show ?thesis
      using Some r w(1) after_wakes_keeps [of ws q] assms(1,2) get_correct [of "after_wakes ws q"]
      by (intro exI [of _ x] exI [of _ q'] exI [of _ ws] exI [of _ rest]) simp
  next
    case None
    then obtain u where "wakes = ws @ u # rest" "queue_empty (after_wakes ws q)" "wk_timedout u" "q' = after_wakes (ws @ [u]) q"
      using w(2) by (auto simp: after_wakes_snoc)
    then show ?thesis using None r w(1) after_wakes_keeps [of "ws @ [u]" q] assms(1,2)
      by (intro exI [of _ x] exI [of _ q'] exI [of _ ws] exI [of _ rest]) auto
  qed
qed

section \<open>Properties\<close>

text \<open>
  C30. The millisecond ticks measure time: for two readings of the monotonic clock, the difference of
  the ticks in 32-bit wrap-around arithmetic is a non-negative number of milliseconds that differs
  from the true distance by less than two milliseconds, however often the counter wrapped.
\<close>

theorem tick_difference_measures_time:
  assumes "timespec_ok start" and "timespec_ok a" and "timespec_ok b" and "timespec_ns a \<le> timespec_ns b"
  shows "\<exists>ms\<ge>0. osal_get_tick_ms start b - osal_get_tick_ms start a = word_of_int ms \<and>
    \<bar>1000000 * ms - (timespec_ns b - timespec_ns a)\<bar> < 2000000"
proof (intro exI conjI)
  let ?ms = "tick_int start b - tick_int start a"
  show "0 \<le> ?ms" using tick_int_mono [OF assms] by simp
  show "osal_get_tick_ms start b - osal_get_tick_ms start a = word_of_int ?ms"
    by (simp add: osal_get_tick_ms_eq)
  show "\<bar>1000000 * ?ms - (timespec_ns b - timespec_ns a)\<bar> < 2000000"
    using tick_int_error [of start a] tick_int_error [of start b]
    unfolding abs_less_iff right_diff_distrib by linarith
qed

theorem tick_difference_measures_time_witness:
  "\<exists>ms\<ge>0. osal_get_tick_ms \<lparr>tv_sec = 10, tv_nsec = 999000000\<rparr> \<lparr>tv_sec = 12, tv_nsec = 1500000\<rparr> -
      osal_get_tick_ms \<lparr>tv_sec = 10, tv_nsec = 999000000\<rparr> \<lparr>tv_sec = 11, tv_nsec = 0\<rparr> = word_of_int ms \<and>
    \<bar>1000000 * ms - 1001500000\<bar> < 2000000"
  using tick_difference_measures_time [of "\<lparr>tv_sec = 10, tv_nsec = 999000000\<rparr>"
      "\<lparr>tv_sec = 11, tv_nsec = 0\<rparr>" "\<lparr>tv_sec = 12, tv_nsec = 1500000\<rparr>"]
  by (simp add: timespec_ok_def timespec_ns_def)

text \<open>
  Delays and deadlines are exact: the interval passed to \<open>nanosleep\<close> and the absolute
  deadline of a timed wait are normalised (nanoseconds below a second), and they are the requested
  number of milliseconds, added to the current time for the deadline.
\<close>

lemma deadlines_are_exact:
  assumes "timespec_ok now"
  shows "timespec_ok (abs_deadline now t) \<and>
    timespec_ns (abs_deadline now t) = timespec_ns now + uint t * 1000000 \<and>
    timespec_ok (osal_task_delay_ms t) \<and> timespec_ns (osal_task_delay_ms t) = uint t * 1000000"
  using abs_deadline_ok [OF assms] delay_ok by simp

text \<open>
  C8. The ring buffer is a first-in first-out queue: any sequence of sends and receives on a freshly
  created queue leaves exactly the items, in order, and returns exactly the items that the same
  sequence does on a plain bounded list.
\<close>

theorem queue_is_bounded_fifo:
  assumes "0 < cap" and "list_all (op_fits n) ops"
  shows "\<exists>q out. foldl queue_step (the (osal_queue_create True True n cap), []) ops = (q, out) \<and>
    queue_ok q \<and> foldl (fifo_step cap) ([], []) ops = (queue_items q, out)"
  using posix_queue.sim_run [OF queue_create_refines [OF assms(1)] assms(2)]
  by (auto simp: queue_refines_def prod_eq_iff)

theorem queue_is_bounded_fifo_witness:
  "\<exists>q out. foldl queue_step (the (osal_queue_create True True 1 2), [])
      [Send [7], Send [8], Send [9], Receive, Send [10], Receive] = (q, out) \<and>
    queue_ok q \<and> queue_items q = [[10]] \<and> out = [[7], [8]]"
proof -
  let ?ops = "[Send [7], Send [8], Send [9], Receive, Send [10], Receive]"
  have "foldl (fifo_step 2) ([], []) ?ops = ([[10]], [[7], [8]])" by simp
  moreover have "0 < (2 :: nat)" "list_all (op_fits 1) ?ops" by simp_all
  ultimately show ?thesis using queue_is_bounded_fifo [of 2 1 ?ops] by (metis prod.inject)
qed

text \<open>
  C31. The blocking calls return, and do exactly one queue operation or none: if one of the wake-ups is a
  time-out, then, whatever the other threads do to the queue within its contract, both calls return and leave
  a well-formed queue of the same capacity. A send has waited only while the queue was full; when it reports
  success it has appended its item to the queue as it was after those wake-ups, and when it reports a time-out
  the queue was full and is as the other threads left it. A receive has waited only while the queue was empty;
  an item it returns was the first of the queue, whose other items stay, and when it reports a time-out
  the queue was empty and is as the other threads left it.
\<close>

theorem queue_calls_safe_and_return:
  assumes "queue_ok q" and "length item = q_item_size q" and "\<forall>w\<in>set wakes. keeps_queue w"
    and "\<exists>w\<in>set wakes. wk_timedout w"
  shows "(\<exists>sent q' ws rest. osal_queue_send q item wakes = Returned (sent, q') \<and>
      queue_ok q' \<and> q_capacity q' = q_capacity q \<and> waited_while queue_full ws q \<and>
      (if sent then wakes = ws @ rest \<and> queue_items q' = queue_items (after_wakes ws q) @ [item]
       else \<exists>w. wakes = ws @ w # rest \<and> wk_timedout w \<and> queue_full (after_wakes ws q) \<and> q' = after_wakes (ws @ [w]) q)) \<and>
    (\<exists>x q' ws rest. osal_queue_receive q wakes = Returned (x, q') \<and>
      queue_ok q' \<and> q_capacity q' = q_capacity q \<and> waited_while queue_empty ws q \<and>
      (case x of
         Some y \<Rightarrow> wakes = ws @ rest \<and> queue_items (after_wakes ws q) = y # queue_items q'
       | None \<Rightarrow> \<exists>w. wakes = ws @ w # rest \<and> wk_timedout w \<and> queue_empty (after_wakes ws q) \<and> q' = after_wakes (ws @ [w]) q))"
  using send_correct [OF assms] receive_correct [OF assms(1,3,4)] by (intro conjI)

text \<open>Another thread that takes an item, or puts one, whenever it can.\<close>

definition taker :: "osal_queue \<Rightarrow> osal_queue" where
  "taker q = (if queue_empty q then q else snd (queue_get q))"

lemma taker_keeps: "keeps_queue \<lparr>wk_others = taker, wk_timedout = b\<rparr>"
  by (simp add: keeps_queue_def taker_def get_correct)

lemma full_queue_then_taken:
  defines "q \<equiv> queue_put (the (osal_queue_create True True 1 1)) [9]"
  shows "queue_ok q" "q_item_size q = 1" "q_count q = q_capacity q" "q_count (taker q) \<noteq> q_capacity (taker q)"
    "queue_items (queue_put (taker q) [7]) = [[7]]"
proof -
  let ?q0 = "the (osal_queue_create True True 1 1)"
  have q0: "queue_ok ?q0" "q_item_size ?q0 = 1" "q_capacity ?q0 = 1" "queue_items ?q0 = []" "q_count ?q0 = 0"
    by (simp_all add: osal_queue_create_def queue_ok_def queue_items_def)
  then have q: "queue_ok q" "queue_items q = [[9]]" "q_item_size q = 1" "q_capacity q = 1" "q_count q = 1"
    using put_correct [of ?q0 "[9]"] by (simp_all add: queue_full_def q_def queue_put_def Let_def)
  then have t: "queue_ok (taker q)" "queue_items (taker q) = []" "q_item_size (taker q) = 1" "q_capacity (taker q) = 1" "q_count (taker q) = 0"
    using get_correct [of q] by (simp_all add: taker_def queue_empty_def queue_get_def)
  then show "queue_items (queue_put (taker q) [7]) = [[7]]"
    using put_correct [of "taker q" "[7]"] by (simp add: queue_full_def)
  show "queue_ok q" "q_item_size q = 1" "q_count q = q_capacity q" "q_count (taker q) \<noteq> q_capacity (taker q)"
    using q t by simp_all
qed

theorem queue_calls_safe_and_return_witness:
  "\<exists>q'. osal_queue_send (queue_put (the (osal_queue_create True True 1 1)) [9]) [7]
      [\<lparr>wk_others = id, wk_timedout = False\<rparr>, \<lparr>wk_others = taker, wk_timedout = False\<rparr>,
       \<lparr>wk_others = id, wk_timedout = True\<rparr>] = Returned (True, q') \<and> queue_ok q' \<and> queue_items q' = [[7]]"
proof -
  let ?q = "queue_put (the (osal_queue_create True True 1 1)) [9]"
  let ?ws = "[\<lparr>wk_others = id, wk_timedout = False\<rparr>, \<lparr>wk_others = taker, wk_timedout = False\<rparr>,
       \<lparr>wk_others = id, wk_timedout = True\<rparr>]"
  note q = full_queue_then_taken
  have sent: "osal_queue_send ?q [7] ?ws = Returned (True, queue_put (taker ?q) [7])"
    using q(3,4) by (simp add: queue_loops)
  have "\<forall>w\<in>set ?ws. keeps_queue w" using taker_keeps by (simp add: keeps_queue_def)
  from queue_calls_safe_and_return [OF q(1) _ this, of "[7]"] q(2) sent q(5) show ?thesis by auto
qed

end
