(* ===== verification/App_Tasks.thy ===== *)
theory App_Tasks
  imports Fault_History Scenario_Faults Soc_Binary64 Can_Messages Can_Hal_Virtual Osal_Posix
begin

text \<open>
  The shared context of \<open>src/tasks/app_context.h\<close> and the loop bodies of the five tasks. The
  context's mutex is not a field: every part of a loop body that runs under the lock is one
  definition, applied atomically, and what a task reads before it takes the lock (the tick in the
  fault and watchdog tasks) is an argument of the part that runs under it. The estimator's rounding
  function \<open>rnd\<close> is an argument of the tasks that use it. The log output of the tasks is a
  list of events where a task decides what to log.
\<close>

section \<open>The shared context\<close>

record app_context_t =
  latest_reading :: cell_reading_t
  soc :: soc_estimator_t
  fault_mgr :: fault_manager_t
  status :: bms_status_t
  hb_sensor_ms :: u32
  hb_soc_ms :: u32
  hb_fault_ms :: u32

definition zero_status :: bms_status_t where
  "zero_status = \<lparr>st_pack_voltage_mv = 0, st_pack_current_ca = 0, st_soc_percent_x2 = 0, st_state = 0\<rparr>"

definition seed_reading :: cell_reading_t where
  "seed_reading = \<lparr>cell_mv = replicate BMS_CELL_COUNT (word_of_int BMS_CELL_NOMINAL_MV),
     cell_temp_c = replicate BMS_CELL_COUNT 25, pack_current_ca = 0\<rparr>"

text \<open>\<open>app_context_init\<close> also initialises the cell model's file-scope state.\<close>

definition app_context_init :: "(real \<Rightarrow> real) \<Rightarrow> app_context_t \<times> cell_model_t" where
  "app_context_init rnd =
     (\<lparr>latest_reading = seed_reading, soc = soc_estimator_init rnd BMS_PACK_CAPACITY_MAH,
       fault_mgr = fault_manager_init, status = zero_status,
       hb_sensor_ms = 0, hb_soc_ms = 0, hb_fault_ms = 0\<rparr>,
      cell_model_init)"

section \<open>Loop bodies\<close>

definition task_sensor_cycle :: "u32 \<Rightarrow> app_context_t \<times> cell_model_t \<Rightarrow> app_context_t \<times> cell_model_t" where
  "task_sensor_cycle now = (\<lambda>(ctx, cm).
     let (cm', reading) = cell_model_step TASK_PERIOD_SENSOR_MS cm
     in (ctx\<lparr>latest_reading := reading, hb_sensor_ms := now\<rparr>, cm'))"

definition pack_voltage :: "cell_reading_t \<Rightarrow> u16" where
  "pack_voltage reading = foldl (\<lambda>pack_mv i. pack_mv + cell_mv reading ! i) 0 [0..<BMS_CELL_COUNT]"

text \<open>\<^const>\<open>None\<close> where the estimator's update or the published percentage is undefined.\<close>

definition task_soc_cycle :: "(real \<Rightarrow> real) \<Rightarrow> u32 \<Rightarrow> app_context_t \<Rightarrow> app_context_t option" where
  "task_soc_cycle rnd now ctx =
     (let reading = latest_reading ctx;
          pack_mv = pack_voltage reading;
          avg_cell_mv = pack_mv div of_nat BMS_CELL_COUNT
      in case soc_estimator_update rnd (soc ctx) (pack_current_ca reading) TASK_PERIOD_SOC_MS avg_cell_mv of
           None \<Rightarrow> None
         | Some e \<Rightarrow>
             (case soc_estimator_get_percent_x2 rnd e of
                None \<Rightarrow> None
              | Some p \<Rightarrow> Some (ctx\<lparr>soc := e,
                  status := \<lparr>st_pack_voltage_mv = pack_mv, st_pack_current_ca = pack_current_ca reading,
                             st_soc_percent_x2 = p, st_state = bms_state_code (fm_state (fault_mgr ctx))\<rparr>,
                  hb_soc_ms := now\<rparr>)))"

text \<open>
  The fault task evaluates the latest reading with the tick it read before locking, and logs a state
  change: the new state and the active faults.
\<close>

definition task_fault_cycle ::
  "u32 \<Rightarrow> app_context_t \<times> bms_state_t \<Rightarrow> (app_context_t \<times> bms_state_t) \<times> (bms_state_t \<times> u16) list" where
  "task_fault_cycle now = (\<lambda>(ctx, last_logged_state).
     let reading = latest_reading ctx;
         fm = fault_manager_evaluate (fault_mgr ctx) reading now;
         ctx' = ctx\<lparr>fault_mgr := fm, hb_fault_ms := now\<rparr>;
         state = fm_state fm;
         faults = active_faults fm
     in if state \<noteq> last_logged_state then ((ctx', state), [(state, faults)])
        else ((ctx', last_logged_state), []))"

text \<open>The frames one round of the CAN task sends, in order, and its updated \<open>last_faults\<close>.\<close>

definition asil_u8 :: "bms_asil_t \<Rightarrow> u8" where
  "asil_u8 a = of_nat (asil_code a)"

definition task_can_cycle :: "app_context_t \<Rightarrow> u16 \<Rightarrow> can_frame_t list \<times> u16" where
  "task_can_cycle ctx last_faults =
     (let status = status ctx;
          reading = latest_reading ctx;
          faults = active_faults (fault_mgr ctx);
          severity = fm_severity (fault_mgr ctx);
          cv = \<lparr>cv_cell_mv = map (\<lambda>i. cell_mv reading ! i) [0..<BMS_CELL_COUNT]\<rparr>;
          frames = [can_protocol_pack_status status, can_protocol_pack_cell_voltages cv]
      in if faults \<noteq> last_faults
         then (frames @ [can_protocol_pack_fault \<lparr>fr_fault_bitmask = faults, fr_severity = asil_u8 severity\<rparr>],
               faults)
         else (frames, last_faults))"

text \<open>The callback the CAN task registers: what it logs, in amperes and tenths.\<close>

definition on_charge_command :: "can_frame_t \<Rightarrow> (u16 \<times> u16) list" where
  "on_charge_command frame =
     (case can_protocol_unpack_charge_command frame of
        None \<Rightarrow> []
      | Some cmd \<Rightarrow> [(requested_current_x10 cmd div 10, requested_current_x10 cmd mod 10)])"

definition watchdog_stale :: "u32 \<Rightarrow> app_context_t \<Rightarrow> bool" where
  "watchdog_stale now ctx \<longleftrightarrow>
     now - hb_sensor_ms ctx > WATCHDOG_STALE_MS \<or>
     now - hb_soc_ms ctx > WATCHDOG_STALE_MS \<or>
     now - hb_fault_ms ctx > WATCHDOG_STALE_MS"

definition watchdog_report :: "u32 \<Rightarrow> app_context_t \<Rightarrow> app_context_t" where
  "watchdog_report now ctx = ctx\<lparr>fault_mgr := fault_manager_report_watchdog_fault (fault_mgr ctx) now\<rparr>"

section \<open>Command line\<close>

definition parse_scenario :: "string option \<Rightarrow> cell_scenario_t" where
  "parse_scenario arg =
     (case arg of None \<Rightarrow> SCENARIO_NOMINAL
      | Some s \<Rightarrow>
          if s = ''overvoltage'' then SCENARIO_OVERVOLTAGE
          else if s = ''undervoltage'' then SCENARIO_UNDERVOLTAGE
          else if s = ''overtemp'' then SCENARIO_OVERTEMP
          else if s = ''imbalance'' then SCENARIO_CELL_IMBALANCE
          else SCENARIO_NOMINAL)"

section \<open>Lemmas\<close>

definition app_ok :: "app_context_t \<Rightarrow> bool" where
  "app_ok ctx \<longleftrightarrow> fm_ok (fault_mgr ctx) \<and> reading_ok (latest_reading ctx) \<and> soc_in_range (soc ctx) \<and>
     (\<forall>i<BMS_CELL_COUNT. uint (cell_mv (latest_reading ctx) ! i) \<le> BMS_CELL_OVERVOLTAGE_MV + 50) \<and>
     uint (st_soc_percent_x2 (status ctx)) \<le> 200 \<and> uint (st_state (status ctx)) \<le> 3"

lemma app_context_init_ok [simp]: "app_ok (fst (app_context_init rnd))"
  by (simp add: app_ok_def app_context_init_def seed_reading_def zero_status_def reading_ok_def config_defs
      nth_append)

lemma sensor_cycle_fields [simp]:
  "fault_mgr (fst (task_sensor_cycle now s)) = fault_mgr (fst s)"
  "soc (fst (task_sensor_cycle now s)) = soc (fst s)"
  "status (fst (task_sensor_cycle now s)) = status (fst s)"
  "latest_reading (fst (task_sensor_cycle now s)) = snd (cell_model_step TASK_PERIOD_SENSOR_MS (snd s))"
  "hb_sensor_ms (fst (task_sensor_cycle now s)) = now"
  "hb_soc_ms (fst (task_sensor_cycle now s)) = hb_soc_ms (fst s)"
  "hb_fault_ms (fst (task_sensor_cycle now s)) = hb_fault_ms (fst s)"
  "snd (task_sensor_cycle now s) = fst (cell_model_step TASK_PERIOD_SENSOR_MS (snd s))"
  by (simp_all add: task_sensor_cycle_def case_prod_unfold Let_def)

lemma sensor_cycle_ok:
  "app_ok (fst s) \<Longrightarrow> cell_model_ok (snd s) \<Longrightarrow> app_ok (fst (task_sensor_cycle now s))"
  using cell_mv_step_le [of "snd s" _ TASK_PERIOD_SENSOR_MS] by (simp add: app_ok_def)

lemma soc_cycle_Some:
  assumes "task_soc_cycle rnd now ctx = Some ctx'"
  obtains e p where
    "soc_estimator_update rnd (soc ctx) (pack_current_ca (latest_reading ctx)) TASK_PERIOD_SOC_MS
       (pack_voltage (latest_reading ctx) div of_nat BMS_CELL_COUNT) = Some e"
    "soc_estimator_get_percent_x2 rnd e = Some p"
    "ctx' = ctx\<lparr>soc := e, status := \<lparr>st_pack_voltage_mv = pack_voltage (latest_reading ctx),
        st_pack_current_ca = pack_current_ca (latest_reading ctx), st_soc_percent_x2 = p,
        st_state = bms_state_code (fm_state (fault_mgr ctx))\<rparr>, hb_soc_ms := now\<rparr>"
  using assms by (auto simp: task_soc_cycle_def Let_def split: option.splits)

lemma bms_state_code_le: "uint (bms_state_code st) \<le> 3"
  by (cases st) simp_all

lemma percent_x2_le_200:
  assumes "soc_in_range e" and "soc_estimator_get_percent_x2 round_f64 e = Some p"
  shows "uint p \<le> 200"
  using assms f64.percent_x2_value [of e] f64.uint_percent_x2 [of e] by (simp add: soc_in_range_def)

lemma soc_cycle_defined:
  assumes "filter_signs (soc ctx)"
  shows "\<exists>ctx'. task_soc_cycle round_f64 now ctx = Some ctx'"
proof -
  obtain e where e: "soc_estimator_update round_f64 (soc ctx) (pack_current_ca (latest_reading ctx))
      TASK_PERIOD_SOC_MS (pack_voltage (latest_reading ctx) div of_nat BMS_CELL_COUNT) = Some e"
    using f64.update_total [OF assms] by blast
  have "soc_in_range e" using e by (rule soc_in_range_update)
  then obtain p where "soc_estimator_get_percent_x2 round_f64 e = Some p"
    using f64.percent_x2_value(1) [of e] by (auto simp: soc_in_range_def)
  with e show ?thesis by (simp add: task_soc_cycle_def Let_def)
qed

lemma soc_cycle_fp_ok:
  assumes "task_soc_cycle round_f64 now ctx = Some ctx'" and "fp_ok n (soc ctx)" and "n < 10 ^ 8"
  shows "fp_ok (Suc n) (soc ctx')"
  using assms(1)
proof (rule soc_cycle_Some)
  fix e p
  assume "soc_estimator_update round_f64 (soc ctx) (pack_current_ca (latest_reading ctx)) TASK_PERIOD_SOC_MS
       (pack_voltage (latest_reading ctx) div of_nat BMS_CELL_COUNT) = Some e"
    and ctx': "ctx' = ctx\<lparr>soc := e, status := \<lparr>st_pack_voltage_mv = pack_voltage (latest_reading ctx),
        st_pack_current_ca = pack_current_ca (latest_reading ctx), st_soc_percent_x2 = p,
        st_state = bms_state_code (fm_state (fault_mgr ctx))\<rparr>, hb_soc_ms := now\<rparr>"
  then have "fp_ok (Suc n) e"
    using f64_update_ok [OF assms(2,3), of TASK_PERIOD_SOC_MS "pack_current_ca (latest_reading ctx)"
        "pack_voltage (latest_reading ctx) div of_nat BMS_CELL_COUNT"] by (simp add: TASK_PERIOD_SOC_MS_def)
  then show ?thesis by (simp add: ctx')
qed

lemma soc_cycle_without_overflow:
  assumes "fp_ok n (soc ctx)" and "n < 10 ^ 8"
  shows "task_soc_cycle (binary64 overflow) now ctx = task_soc_cycle round_f64 now ctx"
proof -
  let ?up = "\<lambda>rnd. soc_estimator_update rnd (soc ctx) (pack_current_ca (latest_reading ctx)) TASK_PERIOD_SOC_MS
       (pack_voltage (latest_reading ctx) div of_nat BMS_CELL_COUNT)"
  have "?up (binary64 overflow) = ?up round_f64"
    by (rule update_without_overflow [OF assms]) (simp add: TASK_PERIOD_SOC_MS_def)
  moreover have "soc_estimator_get_percent_x2 (binary64 overflow) e = soc_estimator_get_percent_x2 round_f64 e"
    if "?up round_f64 = Some e" for e
    using soc_in_range_update [OF that] by (intro percent_without_overflow) (simp_all add: soc_in_range_def)
  ultimately show ?thesis by (simp add: task_soc_cycle_def Let_def split: option.splits)
qed

lemma soc_cycle_frame:
  assumes "task_soc_cycle rnd now ctx = Some ctx'"
  shows "latest_reading ctx' = latest_reading ctx" "fault_mgr ctx' = fault_mgr ctx" "hb_soc_ms ctx' = now"
    "hb_sensor_ms ctx' = hb_sensor_ms ctx" "hb_fault_ms ctx' = hb_fault_ms ctx"
  using assms by (auto elim!: soc_cycle_Some)

lemma soc_cycle_ok:
  assumes "app_ok ctx" and "task_soc_cycle round_f64 now ctx = Some ctx'"
  shows "app_ok ctx'"
  using assms(2)
proof (rule soc_cycle_Some)
  fix e p
  assume e: "soc_estimator_update round_f64 (soc ctx) (pack_current_ca (latest_reading ctx)) TASK_PERIOD_SOC_MS
       (pack_voltage (latest_reading ctx) div of_nat BMS_CELL_COUNT) = Some e"
    and p: "soc_estimator_get_percent_x2 round_f64 e = Some p"
    and ctx': "ctx' = ctx\<lparr>soc := e, status := \<lparr>st_pack_voltage_mv = pack_voltage (latest_reading ctx),
        st_pack_current_ca = pack_current_ca (latest_reading ctx), st_soc_percent_x2 = p,
        st_state = bms_state_code (fm_state (fault_mgr ctx))\<rparr>, hb_soc_ms := now\<rparr>"
  have "soc_in_range e" using e by (rule soc_in_range_update)
  with assms(1) percent_x2_le_200 [OF this p] bms_state_code_le show "app_ok ctx'"
    by (simp add: ctx' app_ok_def)
qed

lemma fault_cycle_fields [simp]:
  "fst (fst (task_fault_cycle now (ctx, l))) =
     ctx\<lparr>fault_mgr := fault_manager_evaluate (fault_mgr ctx) (latest_reading ctx) now, hb_fault_ms := now\<rparr>"
  "snd (fst (task_fault_cycle now (ctx, l))) =
     fm_state (fault_manager_evaluate (fault_mgr ctx) (latest_reading ctx) now)"
  by (simp_all add: task_fault_cycle_def Let_def)

lemma fault_cycle_ok: "app_ok ctx \<Longrightarrow> app_ok (fst (fst (task_fault_cycle now (ctx, l))))"
  by (simp add: app_ok_def)

lemma watchdog_report_ok: "app_ok ctx \<Longrightarrow> app_ok (watchdog_report now ctx)"
  by (simp add: app_ok_def watchdog_report_def)

text \<open>The sum of the cell voltages fits 16 bits for every reading within the simulated range.\<close>

lemma pack_voltage_sum:
  assumes "\<forall>i<BMS_CELL_COUNT. uint (cell_mv r ! i) \<le> 4250"
  shows "uint (pack_voltage r) = (\<Sum>i<BMS_CELL_COUNT. uint (cell_mv r ! i))"
proof -
  have "n \<le> 5 \<Longrightarrow> uint (foldl (\<lambda>s i. s + cell_mv r ! i) 0 [0..<n]) = (\<Sum>i<n. uint (cell_mv r ! i))
      \<and> (\<Sum>i<n. uint (cell_mv r ! i)) \<le> 4250 * int n" for n
  proof (induction n)
    case (Suc n)
    then have IH: "uint (foldl (\<lambda>s i. s + cell_mv r ! i) 0 [0..<n]) = (\<Sum>i<n. uint (cell_mv r ! i))"
      "(\<Sum>i<n. uint (cell_mv r ! i)) \<le> 4250 * int n" by simp_all
    have c: "uint (cell_mv r ! n) \<le> 4250" using assms Suc.prems by (simp add: BMS_CELL_COUNT_def)
    have "uint (foldl (\<lambda>s i. s + cell_mv r ! i) 0 [0..<n]) + uint (cell_mv r ! n) < 2 ^ 16"
      using IH c Suc.prems by simp
    then have "uint (foldl (\<lambda>s i. s + cell_mv r ! i) 0 [0..<n] + cell_mv r ! n) =
        uint (foldl (\<lambda>s i. s + cell_mv r ! i) 0 [0..<n]) + uint (cell_mv r ! n)"
      by (intro uint_add_lem [THEN iffD1]) simp
    with IH c show ?case by simp
  qed simp
  then show ?thesis by (simp add: pack_voltage_def BMS_CELL_COUNT_def del: upt_rec_numeral)
qed

section \<open>What the CAN task sends\<close>

definition can_fault_masks :: "can_frame_t list \<Rightarrow> u16 list" where
  "can_fault_masks fs = List.map_filter (\<lambda>f. map_option fr_fault_bitmask (can_protocol_unpack_fault f)) fs"

text \<open>Consecutive rounds of the CAN task over the contexts it finds.\<close>

fun can_rounds :: "app_context_t list \<Rightarrow> u16 \<Rightarrow> can_frame_t list" where
  "can_rounds [] last_faults = []"
| "can_rounds (ctx # ctxs) last_faults =
     (let (frames, last') = task_can_cycle ctx last_faults in frames @ can_rounds ctxs last')"

lemma task_can_cycle_last [simp]: "snd (task_can_cycle ctx sent) = active_faults (fault_mgr ctx)"
  by (simp add: task_can_cycle_def Let_def)

lemma unpack_fault_other:
  "can_protocol_unpack_fault (can_protocol_pack_status s) = None"
  "can_protocol_unpack_fault (can_protocol_pack_cell_voltages cv) = None"
  using fault_msg.unpack_None_iff status_msg.pack_header(1) cells_msg.pack_header(1)
  by (simp_all add: frame_defs)

lemma can_fault_masks_append [simp]: "can_fault_masks (xs @ ys) = can_fault_masks xs @ can_fault_masks ys"
  by (simp add: can_fault_masks_def map_filter_def)

lemma can_fault_masks_cycle:
  "can_fault_masks (fst (task_can_cycle ctx sent)) =
     (if active_faults (fault_mgr ctx) = sent then [] else [active_faults (fault_mgr ctx)])"
  by (simp add: task_can_cycle_def Let_def can_fault_masks_def map_filter_simps unpack_fault_other
      fault_msg.unpack_pack)

lemma can_fault_masks_rounds:
  "can_fault_masks (can_rounds ctxs sent) =
     tl (remdups_adj (sent # map (\<lambda>c. active_faults (fault_mgr c)) ctxs))"
proof (induction ctxs arbitrary: sent)
  case Nil
  show ?case by (simp add: can_fault_masks_def map_filter_def)
next
  case (Cons c cs)
  let ?m = "active_faults (fault_mgr c)"
  have cons: "remdups_adj (?m # ms) = ?m # tl (remdups_adj (?m # ms))" for ms
    by (metis list.collapse list.distinct(1) remdups_adj_Nil_iff hd_remdups_adj list.sel(1))
  show ?case
    using Cons [of ?m] can_fault_masks_cycle [of c sent] cons
    by (simp add: case_prod_unfold Let_def)
qed

lemma unpack_status_other:
  "can_protocol_unpack_status (can_protocol_pack_cell_voltages cv) = None"
  "can_protocol_unpack_status (can_protocol_pack_fault r) = None"
  using status_msg.unpack_None_iff fault_msg.pack_header(1) cells_msg.pack_header(1)
  by (simp_all add: frame_defs)

lemma unpack_cells_other:
  "can_protocol_unpack_cell_voltages (can_protocol_pack_status s) = None"
  "can_protocol_unpack_cell_voltages (can_protocol_pack_fault r) = None"
  using cells_msg.unpack_None_iff fault_msg.pack_header(1) status_msg.pack_header(1)
  by (simp_all add: frame_defs)

lemma map_filter_append: "List.map_filter f (xs @ ys) = List.map_filter f xs @ List.map_filter f ys"
  by (simp add: map_filter_def)

definition reading_cells :: "cell_reading_t \<Rightarrow> cell_voltages_t" where
  "reading_cells r = \<lparr>cv_cell_mv = map (\<lambda>i. cell_mv r ! i) [0..<BMS_CELL_COUNT]\<rparr>"

lemma unpack_pack_reading_cells:
  "can_protocol_unpack_cell_voltages (can_protocol_pack_cell_voltages (reading_cells r)) = Some (reading_cells r)"
  by (rule cells_msg.unpack_pack) (simp add: cell_count_ok_def reading_cells_def)

lemma task_can_cycle_frames:
  "fst (task_can_cycle c sent) =
     [can_protocol_pack_status (status c), can_protocol_pack_cell_voltages (reading_cells (latest_reading c))]
     @ (if active_faults (fault_mgr c) = sent then [] else [can_protocol_pack_fault
          \<lparr>fr_fault_bitmask = active_faults (fault_mgr c), fr_severity = asil_u8 (fm_severity (fault_mgr c))\<rparr>])"
  by (simp add: task_can_cycle_def Let_def reading_cells_def)

lemma can_round_telemetry:
  "List.map_filter can_protocol_unpack_status (can_rounds ctxs sent) = map status ctxs"
  "List.map_filter can_protocol_unpack_cell_voltages (can_rounds ctxs sent) =
     map (\<lambda>c. reading_cells (latest_reading c)) ctxs"
proof (induction ctxs arbitrary: sent)
  case (Cons c cs)
  { case 1
    show ?case using Cons
      by (simp add: case_prod_unfold Let_def task_can_cycle_frames map_filter_append map_filter_simps
          status_msg.unpack_pack unpack_status_other) }
  { case 2
    show ?case using Cons
      by (simp add: case_prod_unfold Let_def task_can_cycle_frames map_filter_append map_filter_simps
          unpack_pack_reading_cells unpack_cells_other) }
qed (simp_all add: map_filter_def)

section \<open>Properties\<close>

text \<open>
  C24. What the CAN task puts on the bus over any number of rounds: one status and one cell-voltage
  frame per round that decode to the context of that round, and a fault report exactly when the mask
  of active faults differs from the one reported before, starting from an empty mask.
\<close>

theorem can_task_reports:
  "List.map_filter can_protocol_unpack_status (can_rounds ctxs 0) = map status ctxs \<and>
   List.map_filter can_protocol_unpack_cell_voltages (can_rounds ctxs 0) =
     map (\<lambda>c. \<lparr>cv_cell_mv = map (\<lambda>i. cell_mv (latest_reading c) ! i) [0..<BMS_CELL_COUNT]\<rparr>) ctxs \<and>
   List.map_filter (\<lambda>f. map_option fr_fault_bitmask (can_protocol_unpack_fault f)) (can_rounds ctxs 0) =
     tl (remdups_adj (0 # map (\<lambda>c. active_faults (fault_mgr c)) ctxs))"
  using can_round_telemetry [of ctxs 0] can_fault_masks_rounds [of ctxs 0]
  by (simp add: can_fault_masks_def reading_cells_def)

end
