(* ===== verification/Bms_System.thy ===== *)
theory Bms_System
  imports App_Tasks
begin

text \<open>
  The five tasks together, as \<open>src/main.c\<close> starts them. A step is one part of a task's loop
  body between two points where another task can run: a whole critical section, or the read of the
  tick that the fault and watchdog tasks make before they take the lock. The labels name the steps,
  so a run is a list of labels, in any order the scheduler chooses; time passes by its own label. The
  delays between two rounds, the watchdog's initial delay and the shutdown flag only restrict which
  runs happen, so what holds of every run here holds of the program's.
\<close>

section \<open>System state and steps\<close>

text \<open>Where the watchdog task is: asleep, with the tick read, or having found a stale heartbeat.\<close>

datatype watchdog_pc = Wd_Asleep | Wd_Tick_Read u32 | Wd_Found_Stale u32

record bms_system =
  s_ctx :: app_context_t
  s_cells :: cell_model_t
  s_tick :: u32
  s_fault_now :: "u32 option"
  s_last_logged :: bms_state_t
  s_last_faults :: u16
  s_watchdog :: watchdog_pc
  s_bus :: "can_frame_t list"

datatype sys_label =
  Time u32 | Sensor_Cycle | Soc_Cycle | Fault_Read_Tick | Fault_Cycle | Can_Cycle
| Watchdog_Read_Tick | Watchdog_Check | Watchdog_Report

definition sys_init :: "(real \<Rightarrow> real) \<Rightarrow> string option \<Rightarrow> bms_system" where
  "sys_init rnd arg =
     (let (ctx, cm) = app_context_init rnd
      in \<lparr>s_ctx = ctx, s_cells = cell_model_set_scenario (parse_scenario arg) cm, s_tick = 0,
          s_fault_now = None, s_last_logged = BMS_STATE_NORMAL, s_last_faults = 0,
          s_watchdog = Wd_Asleep, s_bus = []\<rparr>)"

text \<open>\<^const>\<open>None\<close> where the step is not possible in the state.\<close>

fun sys_do :: "(real \<Rightarrow> real) \<Rightarrow> sys_label \<Rightarrow> bms_system \<Rightarrow> bms_system option" where
  "sys_do rnd (Time d) s = Some (s\<lparr>s_tick := s_tick s + d\<rparr>)"
| "sys_do rnd Sensor_Cycle s =
     (let (ctx, cm) = task_sensor_cycle (s_tick s) (s_ctx s, s_cells s)
      in Some (s\<lparr>s_ctx := ctx, s_cells := cm\<rparr>))"
| "sys_do rnd Soc_Cycle s =
     map_option (\<lambda>ctx. s\<lparr>s_ctx := ctx\<rparr>) (task_soc_cycle rnd (s_tick s) (s_ctx s))"
| "sys_do rnd Fault_Read_Tick s =
     (if s_fault_now s = None then Some (s\<lparr>s_fault_now := Some (s_tick s)\<rparr>) else None)"
| "sys_do rnd Fault_Cycle s =
     (case s_fault_now s of None \<Rightarrow> None
      | Some now \<Rightarrow>
          let ((ctx, logged), _) = task_fault_cycle now (s_ctx s, s_last_logged s)
          in Some (s\<lparr>s_ctx := ctx, s_last_logged := logged, s_fault_now := None\<rparr>))"
| "sys_do rnd Can_Cycle s =
     (let (frames, faults) = task_can_cycle (s_ctx s) (s_last_faults s)
      in Some (s\<lparr>s_bus := s_bus s @ frames, s_last_faults := faults\<rparr>))"
| "sys_do rnd Watchdog_Read_Tick s =
     (if s_watchdog s = Wd_Asleep then Some (s\<lparr>s_watchdog := Wd_Tick_Read (s_tick s)\<rparr>) else None)"
| "sys_do rnd Watchdog_Check s =
     (case s_watchdog s of
        Wd_Tick_Read now \<Rightarrow>
          Some (s\<lparr>s_watchdog := (if watchdog_stale now (s_ctx s) then Wd_Found_Stale now else Wd_Asleep)\<rparr>)
      | _ \<Rightarrow> None)"
| "sys_do rnd Watchdog_Report s =
     (case s_watchdog s of
        Wd_Found_Stale now \<Rightarrow> Some (s\<lparr>s_ctx := watchdog_report now (s_ctx s), s_watchdog := Wd_Asleep\<rparr>)
      | _ \<Rightarrow> None)"

inductive sys_run :: "(real \<Rightarrow> real) \<Rightarrow> bms_system \<Rightarrow> sys_label list \<Rightarrow> bms_system \<Rightarrow> bool" for rnd where
  run_nil: "sys_run rnd s [] s"
| run_cons: "sys_do rnd l s = Some s' \<Longrightarrow> sys_run rnd s' ls s'' \<Longrightarrow> sys_run rnd s (l # ls) s''"

inductive_simps sys_run_Nil [simp]: "sys_run rnd s [] s'"
inductive_simps sys_run_Cons: "sys_run rnd s (l # ls) s''"

abbreviation sys_fault :: "bms_system \<Rightarrow> fault_manager_t" where
  "sys_fault s \<equiv> fault_mgr (s_ctx s)"

section \<open>Runs\<close>

lemma sys_run_append: "sys_run rnd s (xs @ ys) s'' \<longleftrightarrow> (\<exists>s'. sys_run rnd s xs s' \<and> sys_run rnd s' ys s'')"
  by (induction xs arbitrary: s) (auto simp: sys_run_Cons)

text \<open>An invariant of the steps is an invariant of the runs; also relative to a set of labels.\<close>

lemma sys_run_invariant:
  assumes "\<And>s l s'. P s \<Longrightarrow> l \<in> set ls \<Longrightarrow> sys_do rnd l s = Some s' \<Longrightarrow> P s'"
    and "sys_run rnd s ls s'" and "P s"
  shows "P s'"
  using assms(2,3,1)
proof (induction rule: sys_run.induct)
  case (run_cons l s s' ls s'')
  have "P s'" 
    by (rule run_cons.prems(2) [OF run_cons.prems(1) _ run_cons.hyps(1)]) simp
  then show ?case by (rule run_cons.IH) (rule run_cons.prems(2), simp_all)
qed simp

definition sys_ok :: "bms_system \<Rightarrow> bool" where
  "sys_ok s \<longleftrightarrow> app_ok (s_ctx s) \<and> cell_model_ok (s_cells s) \<and> (\<forall>f\<in>set (s_bus s). frame_ok f)"

lemma can_cycle_frames_ok: "\<forall>f\<in>set (fst (task_can_cycle ctx l)). frame_ok f"
  by (simp add: task_can_cycle_def Let_def status_msg.pack_header(3) cells_msg.pack_header(3)
      fault_msg.pack_header(3))

lemma sys_init_ok [simp]: "sys_ok (sys_init rnd arg)"
  using app_context_init_ok [of rnd]
  by (simp add: sys_ok_def sys_init_def app_context_init_def)

lemma sys_do_ok:
  assumes "sys_ok s" and "sys_do round_f64 l s = Some s'"
  shows "sys_ok s'"
proof (cases l)
  case Sensor_Cycle
  then show ?thesis
    using assms sensor_cycle_ok [of "(s_ctx s, s_cells s)" "s_tick s"]
    by (auto simp: sys_ok_def case_prod_unfold Let_def)
next
  case Soc_Cycle
  then show ?thesis using assms soc_cycle_ok by (auto simp: sys_ok_def)
next
  case Fault_Cycle
  then show ?thesis
    using assms fault_cycle_ok by (auto simp: sys_ok_def case_prod_unfold Let_def split: option.splits)
next
  case Can_Cycle
  then show ?thesis
    using assms can_cycle_frames_ok by (auto simp: sys_ok_def case_prod_unfold Let_def)
qed (use assms watchdog_report_ok in
  \<open>auto simp: sys_ok_def split: if_splits watchdog_pc.splits\<close>)

lemma sys_run_ok: "sys_run round_f64 s ls s' \<Longrightarrow> sys_ok s \<Longrightarrow> sys_ok s'"
  by (rule sys_run_invariant [of sys_ok]) (auto intro: sys_do_ok)

lemma sys_do_shutdown:
  assumes "fm_state (sys_fault s) = BMS_STATE_SHUTDOWN" and "sys_do rnd l s = Some s'"
  shows "sys_fault s' = sys_fault s"
  using assms
  by (cases l) (auto simp: case_prod_unfold Let_def watchdog_report_def task_soc_cycle_def
      split: if_splits option.splits watchdog_pc.splits)

lemma sys_run_shutdown:
  "sys_run rnd s ls s' \<Longrightarrow> fm_state (sys_fault s) = BMS_STATE_SHUTDOWN \<Longrightarrow> sys_fault s' = sys_fault s"
  by (induction rule: sys_run.induct) (simp, metis sys_do_shutdown)

section \<open>Readings at the highest level\<close>

definition hot_reading :: "cell_reading_t \<Rightarrow> bool" where
  "hot_reading r \<longleftrightarrow> (\<exists>i<BMS_CELL_COUNT. BMS_CELL_OVERVOLTAGE_MV \<le> uint (cell_mv r ! i)) \<or>
     (\<exists>i<BMS_CELL_COUNT. BMS_OVERTEMP_C \<le> sint (cell_temp_c r ! i))"

definition hot_scenario :: "bms_system \<Rightarrow> bool" where
  "hot_scenario s \<longleftrightarrow> g_scenario (s_cells s) = SCENARIO_OVERVOLTAGE \<or> g_scenario (s_cells s) = SCENARIO_OVERTEMP"

lemma hot_step_reading:
  assumes "cell_model_ok m" and "g_scenario m = SCENARIO_OVERVOLTAGE \<or> g_scenario m = SCENARIO_OVERTEMP"
  shows "hot_reading (snd (cell_model_step dt m))"
  using assms(2)
proof
  assume "g_scenario m = SCENARIO_OVERVOLTAGE"
  then have "BMS_CELL_OVERVOLTAGE_MV \<le> uint (cell_mv (snd (cell_model_step dt m)) ! 0)"
    using cell_mv_step [OF assms(1), of 0 dt] by (simp add: scenario_mv_def clamp_mv_def config_defs)
  then show ?thesis unfolding hot_reading_def by (intro disjI1 exI [of _ 0]) (simp add: config_defs)
next
  assume "g_scenario m = SCENARIO_OVERTEMP"
  then have "BMS_OVERTEMP_C \<le> sint (cell_temp_c (snd (cell_model_step dt m)) ! 1)"
    using cell_temp_step [of 1 dt m] by (simp add: scenario_temp_def config_defs)
  then show ?thesis unfolding hot_reading_def by (intro disjI2 exI [of _ 1]) (simp add: config_defs)
qed

lemma sys_do_reading:
  assumes "sys_do rnd l s = Some s'"
  shows "g_scenario (s_cells s') = g_scenario (s_cells s)"
    and "latest_reading (s_ctx s') =
      (if l = Sensor_Cycle then snd (cell_model_step TASK_PERIOD_SENSOR_MS (s_cells s))
       else latest_reading (s_ctx s))"
  using assms
  by (cases l; auto simp: case_prod_unfold Let_def watchdog_report_def task_soc_cycle_def
      split: if_splits option.splits watchdog_pc.splits)+

definition hot_state :: "bms_system \<Rightarrow> bool" where
  "hot_state s \<longleftrightarrow> sys_ok s \<and> hot_scenario s \<and> hot_reading (latest_reading (s_ctx s))"

lemma hot_state_do:
  assumes "sys_ok s" and "hot_scenario s" and "sys_do round_f64 l s = Some s'"
    and "l = Sensor_Cycle \<or> hot_reading (latest_reading (s_ctx s))"
  shows "hot_state s'"
  using assms sys_do_ok [OF assms(1,3)] sys_do_reading [OF assms(3)] hot_step_reading
  by (auto simp: hot_state_def hot_scenario_def sys_ok_def)

lemma hot_state_run: "sys_run round_f64 s ls s' \<Longrightarrow> hot_state s \<Longrightarrow> hot_state s'"
proof (rule sys_run_invariant [of hot_state])
  fix s l s' assume "hot_state s" "sys_do round_f64 l s = Some s'"
  then show "hot_state s'" by (intro hot_state_do [of s l s']) (simp_all add: hot_state_def)
qed

lemma hot_scenario_run: "sys_run rnd s ls s' \<Longrightarrow> hot_scenario s \<Longrightarrow> hot_scenario s'"
  by (rule sys_run_invariant [of hot_scenario]) (auto simp: hot_scenario_def sys_do_reading(1))

lemma hot_fault_cycle:
  assumes "hot_state s" and "sys_do rnd Fault_Cycle s = Some s'"
  shows "fm_state (sys_fault s') = BMS_STATE_SHUTDOWN"
  using assms evaluate_asil_d [of "sys_fault s" "latest_reading (s_ctx s)"]
  by (auto simp: hot_state_def hot_reading_def sys_ok_def app_ok_def case_prod_unfold Let_def
      split: option.splits)

lemma hot_scenario_init:
  "arg = ''overvoltage'' \<or> arg = ''overtemp'' \<Longrightarrow> hot_scenario (sys_init rnd (Some arg))"
  by (auto simp: hot_scenario_def sys_init_def app_context_init_def parse_scenario_def cell_model_set_scenario_def)

text \<open>
  A dangerous pack is shut down for good: in every interleaving in which the sensor task completes a cycle
  and the fault task completes one afterwards, the machine is in SHUTDOWN from then on, whatever the tasks
  do later.
\<close>

lemma dangerous_pack_is_shut_down:
  assumes "sys_run round_f64 s0 (xs @ Sensor_Cycle # ys @ Fault_Cycle # zs) s" and "sys_ok s0" and "hot_scenario s0"
  shows "fm_state (fault_mgr (s_ctx s)) = BMS_STATE_SHUTDOWN"
proof -
  obtain s1 s2 s3 s4 where
    r: "sys_run round_f64 s0 xs s1" "sys_do round_f64 Sensor_Cycle s1 = Some s2"
       "sys_run round_f64 s2 ys s3" "sys_do round_f64 Fault_Cycle s3 = Some s4" "sys_run round_f64 s4 zs s"
    using assms(1) by (auto simp: sys_run_Cons sys_run_append)
  have "hot_scenario s1" using hot_scenario_run [OF r(1) assms(3)] .
  then have "hot_state s2" using hot_state_do [OF _ _ r(2)] sys_run_ok [OF r(1) assms(2)] by simp
  then have "fm_state (sys_fault s4) = BMS_STATE_SHUTDOWN"
    using hot_fault_cycle [OF hot_state_run [OF r(3)] r(4)] by simp
  with sys_run_shutdown [OF r(5)] show ?thesis by simp
qed

section \<open>The filter in the running system\<close>

lemma sys_do_soc: "sys_do rnd l s = Some s' \<Longrightarrow> l \<noteq> Soc_Cycle \<Longrightarrow> soc (s_ctx s') = soc (s_ctx s)"
  by (cases l) (auto simp: case_prod_unfold Let_def watchdog_report_def split: if_splits option.splits watchdog_pc.splits)

lemma sys_run_fp_ok:
  assumes "sys_run round_f64 s ls s'" and "fp_ok n (soc (s_ctx s))" and "n + count_list ls Soc_Cycle \<le> 10 ^ 8"
  shows "fp_ok (n + count_list ls Soc_Cycle) (soc (s_ctx s'))"
  using assms
proof (induction arbitrary: n rule: sys_run.induct)
  case (run_cons l s s' ls s'')
  show ?case
  proof (cases "l = Soc_Cycle")
    case True
    obtain ctx where ctx: "task_soc_cycle round_f64 (s_tick s) (s_ctx s) = Some ctx" "s' = s\<lparr>s_ctx := ctx\<rparr>"
      using run_cons.hyps(1) True by auto
    have "fp_ok (Suc n) (soc (s_ctx s'))"
      using soc_cycle_fp_ok [OF ctx(1) run_cons.prems(1)] run_cons.prems(2) True by (simp add: ctx(2))
    from run_cons.IH [OF this] run_cons.prems(2) True show ?thesis by simp
  next
    case False
    with run_cons.IH [of n] run_cons.prems sys_do_soc [OF run_cons.hyps(1)] show ?thesis by simp
  qed
qed simp

text \<open>Overflow does not occur: with it the runs are the same.\<close>

lemma app_init_without_overflow: "app_context_init (binary64 overflow) = app_context_init round_f64"
  by (simp add: app_context_init_def init_without_overflow)

lemma sys_do_without_overflow:
  assumes "fp_ok n (soc (s_ctx s))" and "n < 10 ^ 8"
  shows "sys_do (binary64 overflow) l s = sys_do round_f64 l s"
  by (cases l) (simp_all add: soc_cycle_without_overflow [OF assms])

lemma sys_init_fp_ok: "fp_ok 0 (soc (s_ctx (sys_init round_f64 arg)))"
  using fp_ok_init by (simp add: sys_init_def app_context_init_def)

end
