(* ===== verification/Osal_Mutex.thy ===== *)
theory Osal_Mutex
  imports Bms_Prelude
begin

text \<open>
  The mutex of the OS abstraction (\<open>struct osal_mutex\<close> and the four functions of
  \<open>src/osal/osal_posix.c\<close>). A call has three outcomes: it returns, it blocks because another
  thread owns the mutex, or it is undefined: unlocking a mutex the caller does not own, destroying an
  owned one, using one that does not exist. That every call of the program is defined is a
  property to prove, not part of the model.
\<close>

section \<open>Outcomes of a call\<close>

datatype 'a outcome = Returns 'a | Blocks | Undefined

fun map_outcome :: "('a \<Rightarrow> 'b) \<Rightarrow> 'a outcome \<Rightarrow> 'b outcome" where
  "map_outcome f (Returns x) = Returns (f x)"
| "map_outcome f Blocks = Blocks"
| "map_outcome f Undefined = Undefined"

definition outcome_of :: "'a option \<Rightarrow> 'a outcome" where
  "outcome_of x = (case x of None \<Rightarrow> Undefined | Some y \<Rightarrow> Returns y)"

lemma map_outcome_Returns [simp]: "map_outcome f x = Returns y \<longleftrightarrow> (\<exists>z. x = Returns z \<and> y = f z)"
  by (cases x) auto

lemma map_outcome_others [simp]:
  "map_outcome f x = Blocks \<longleftrightarrow> x = Blocks" "map_outcome f x = Undefined \<longleftrightarrow> x = Undefined"
  by (cases x; simp)+

lemma outcome_of_simps [simp]:
  "outcome_of x = Returns y \<longleftrightarrow> x = Some y" "outcome_of x \<noteq> Blocks" "outcome_of x = Undefined \<longleftrightarrow> x = None"
  by (simp_all add: outcome_of_def split: option.splits)

section \<open>The mutex\<close>

text \<open>The constructor \<open>Mx_None\<close>: no object, before it is created and after it is destroyed.\<close>

datatype 't osal_mutex = Mx_None | Mx_Free | Mx_Held 't

text \<open>The allocation is not checked by the code: without memory the initialisation is undefined.\<close>

definition osal_mutex_create :: "bool \<Rightarrow> 't osal_mutex outcome" where
  "osal_mutex_create calloc_ok = (if calloc_ok then Returns Mx_Free else Undefined)"

fun osal_mutex_lock :: "'t \<Rightarrow> 't osal_mutex \<Rightarrow> 't osal_mutex outcome" where
  "osal_mutex_lock t Mx_Free = Returns (Mx_Held t)"
| "osal_mutex_lock t (Mx_Held t') = Blocks"
| "osal_mutex_lock t Mx_None = Undefined"

fun osal_mutex_unlock :: "'t \<Rightarrow> 't osal_mutex \<Rightarrow> 't osal_mutex outcome" where
  "osal_mutex_unlock t (Mx_Held t') = (if t' = t then Returns Mx_Free else Undefined)"
| "osal_mutex_unlock t _ = Undefined"

text \<open>The argument is a pointer: a null pointer is accepted and ignored.\<close>

fun osal_mutex_destroy :: "'t osal_mutex option \<Rightarrow> 't osal_mutex option outcome" where
  "osal_mutex_destroy None = Returns None"
| "osal_mutex_destroy (Some Mx_Free) = Returns (Some Mx_None)"
| "osal_mutex_destroy (Some _) = Undefined"

lemma osal_mutex_lock_iff [simp]:
  "osal_mutex_lock t m = Returns m' \<longleftrightarrow> m = Mx_Free \<and> m' = Mx_Held t"
  "osal_mutex_lock t m = Undefined \<longleftrightarrow> m = Mx_None"
  "osal_mutex_lock t m = Blocks \<longleftrightarrow> (\<exists>t'. m = Mx_Held t')"
  by (cases m; auto)+

lemma osal_mutex_unlock_iff [simp]:
  "osal_mutex_unlock t m = Returns m' \<longleftrightarrow> m = Mx_Held t \<and> m' = Mx_Free"
  "osal_mutex_unlock t m = Undefined \<longleftrightarrow> m \<noteq> Mx_Held t"
  "osal_mutex_unlock t m \<noteq> Blocks"
  by (cases m; auto)+

lemma osal_mutex_destroy_iff [simp]:
  "osal_mutex_destroy (Some m) = Returns p \<longleftrightarrow> m = Mx_Free \<and> p = Some Mx_None"
  "osal_mutex_destroy (Some m) = Undefined \<longleftrightarrow> m \<noteq> Mx_Free"
  by (cases m; auto)+

lemma osal_mutex_destroy_not_Blocks [simp]: "osal_mutex_destroy p \<noteq> Blocks"
  by (cases p rule: osal_mutex_destroy.cases) simp_all

section \<open>What a mutex promises\<close>

text \<open>
  The contract that both ports of the OS abstraction meet: \<open>owner\<close> reads the owning thread,
  \<open>alive\<close> says that the object exists. A trace of acquisitions (\<^const>\<open>True\<close>) and
  releases (\<^const>\<open>False\<close>) that runs through without blocking or undefined call consists
  of complete sections, one after the other, and at most one open section at the end.
\<close>

locale mutex_contract =
  fixes lock unlock :: "'t \<Rightarrow> 'm \<Rightarrow> 'm outcome"
    and owner :: "'m \<Rightarrow> 't option"
    and alive :: "'m \<Rightarrow> bool"
  assumes lock_returns: "lock t m = Returns m' \<Longrightarrow> owner m = None \<and> owner m' = Some t \<and> alive m'"
    and lock_free: "alive m \<Longrightarrow> owner m = None \<Longrightarrow> \<exists>m'. lock t m = Returns m'"
    and unlock_returns: "unlock t m = Returns m' \<Longrightarrow> owner m = Some t \<and> owner m' = None \<and> alive m'"
    and unlock_owner: "alive m \<Longrightarrow> owner m = Some t \<Longrightarrow> \<exists>m'. unlock t m = Returns m'"
begin

fun run_trace :: "('t \<times> bool) list \<Rightarrow> 'm \<Rightarrow> 'm outcome" where
  "run_trace [] m = Returns m"
| "run_trace ((t, acquire) # tr) m =
     (case (if acquire then lock t m else unlock t m) of Returns m' \<Rightarrow> run_trace tr m' | r \<Rightarrow> r)"

definition sections :: "'t list \<Rightarrow> ('t \<times> bool) list" where
  "sections ts = concat (map (\<lambda>t. [(t, True), (t, False)]) ts)"

definition open_section :: "'t option \<Rightarrow> ('t \<times> bool) list" where
  "open_section o' = (case o' of None \<Rightarrow> [] | Some t \<Rightarrow> [(t, True)])"

lemma trace_is_sections:
  assumes "run_trace tr m = Returns m'"
  shows "\<exists>ts. open_section (owner m) @ tr = sections ts @ open_section (owner m')"
  using assms
proof (induction tr arbitrary: m)
  case Nil
  then show ?case by (intro exI [of _ "[]"]) (simp add: sections_def)
next
  case (Cons ev tr)
  obtain t a where ev: "ev = (t, a)" by (cases ev)
  obtain m1 where m1: "(if a then lock t m else unlock t m) = Returns m1" "run_trace tr m1 = Returns m'"
    using Cons.prems by (auto simp: ev split: outcome.splits)
  obtain ts where ts: "open_section (owner m1) @ tr = sections ts @ open_section (owner m')"
    using Cons.IH [OF m1(2)] by blast
  show ?case
  proof (cases a)
    case True
    then have "owner m = None" "owner m1 = Some t" using m1(1) lock_returns by auto
    with ts True show ?thesis by (auto simp: ev open_section_def intro: exI [of _ ts])
  next
    case False
    then have "owner m = Some t" "owner m1 = None" using m1(1) unlock_returns by auto
    with ts False show ?thesis by (auto simp: ev open_section_def sections_def intro: exI [of _ "t # ts"])
  qed
qed

end

fun mutex_owner :: "'t osal_mutex \<Rightarrow> 't option" where
  "mutex_owner (Mx_Held t) = Some t"
| "mutex_owner _ = None"

interpretation posix_mutex: mutex_contract osal_mutex_lock osal_mutex_unlock mutex_owner "\<lambda>m. m \<noteq> Mx_None"
proof
  show "alive \<noteq> Mx_None \<Longrightarrow> mutex_owner alive = None \<Longrightarrow> \<exists>m'. osal_mutex_lock t alive = Returns m'"
    for t and alive :: "'a osal_mutex" by (cases alive) auto
  show "alive \<noteq> Mx_None \<Longrightarrow> mutex_owner alive = Some t \<Longrightarrow> \<exists>m'. osal_mutex_unlock t alive = Returns m'"
    for t and alive :: "'a osal_mutex" by (cases alive) auto
qed auto

end
