(* ===== verification/Bms_Threads.thy ===== *)
theory Bms_Threads
  imports Bms_System Osal_Mutex
begin

text \<open>
  The program at the granularity of its statements. \<open>Bms_System\<close> runs each critical section as one
  step; here the six threads of \<open>src/main.c\<close> have a program counter each, the context's mutex is
  an object with an owner, and a step executes one statement of one thread: the test of the shutdown
  flag, a lock or unlock call, one read or write of the shared context, one send. \<open>main\<close> creates the
  tasks, sleeps, requests the shutdown, joins the tasks in order, prints the final status under the
  lock and destroys the mutex. A delay is a step that may come at any time. The logger, the bus and their
  mutexes are in \<open>Bms_Io\<close>: no thread holds the context's mutex while it logs or sends.
\<close>

section \<open>Threads and their program counters\<close>

datatype task_id = T_Sensor | T_Soc | T_Fault | T_Can | T_Watchdog | T_Main

datatype sensor_pc =
  Se_Test | Se_Step | Se_Lock cell_reading_t | Se_Publish cell_reading_t | Se_Stamp | Se_Unlock | Se_Delay | Se_Exit

datatype soc_pc =
  So_Test | So_Lock | So_Read | So_Update cell_reading_t | So_Voltage cell_reading_t | So_Current cell_reading_t
| So_Percent | So_State | So_Stamp | So_Unlock | So_Delay | So_Exit

datatype fault_pc =
  Fa_Test | Fa_Tick | Fa_Lock u32 | Fa_Read u32 | Fa_Evaluate u32 cell_reading_t | Fa_State u32
| Fa_Faults u32 bms_state_t | Fa_Stamp u32 bms_state_t u16 | Fa_Unlock bms_state_t u16 | Fa_Log bms_state_t u16
| Fa_Delay | Fa_Exit

datatype can_pc =
  Ca_Test | Ca_Lock | Ca_Status | Ca_Reading bms_status_t | Ca_Faults bms_status_t cell_reading_t
| Ca_Severity bms_status_t cell_reading_t u16 | Ca_Unlock bms_status_t cell_reading_t u16 bms_asil_t
| Ca_Send_Status bms_status_t cell_reading_t u16 bms_asil_t | Ca_Send_Cells cell_reading_t u16 bms_asil_t
| Ca_Send_Fault u16 bms_asil_t | Ca_Delay | Ca_Exit

datatype watchdog_thread_pc =
  Wa_Start | Wa_Test | Wa_Tick | Wa_Lock u32 | Wa_Sensor u32 | Wa_Soc u32 u32 | Wa_Fault u32 u32 u32
| Wa_Unlock u32 u32 u32 u32 | Wa_Decide u32 u32 u32 u32 | Wa_Log u32 | Wa_Lock_Report u32 | Wa_Report u32
| Wa_Unlock_Report | Wa_Delay | Wa_Exit

datatype main_pc =
  Ma_Create "task_id list" | Ma_Sleep | Ma_Request | Ma_Join "task_id list" | Ma_Lock | Ma_Print | Ma_Unlock
| Ma_Destroy | Ma_Exit

text \<open>The list \<open>th_handles\<close> holds the tasks whose creation returned a handle.\<close>

record bms_threads =
  th_ctx :: app_context_t
  th_cells :: cell_model_t
  th_tick :: u32
  th_lock :: "task_id osal_mutex"
  th_shutdown :: bool
  th_bus :: "can_frame_t list"
  th_handles :: "task_id list"
  th_sensor :: sensor_pc
  th_soc :: soc_pc
  th_fault :: fault_pc
  th_logged :: bms_state_t
  th_can :: can_pc
  th_faults :: u16
  th_watchdog :: watchdog_thread_pc
  th_main :: main_pc
  th_printed :: "(bms_status_t \<times> u16) option"

section \<open>The statements of each thread\<close>

definition task_sensor_main :: "bms_threads \<Rightarrow> bms_threads outcome" where
  "task_sensor_main c = (case th_sensor c of
     Se_Test \<Rightarrow> Returns (c\<lparr>th_sensor := if th_shutdown c then Se_Exit else Se_Step\<rparr>)
   | Se_Step \<Rightarrow>
       let (cm, reading) = cell_model_step TASK_PERIOD_SENSOR_MS (th_cells c)
       in Returns (c\<lparr>th_cells := cm, th_sensor := Se_Lock reading\<rparr>)
   | Se_Lock reading \<Rightarrow>
       map_outcome (\<lambda>m. c\<lparr>th_lock := m, th_sensor := Se_Publish reading\<rparr>) (osal_mutex_lock T_Sensor (th_lock c))
   | Se_Publish reading \<Rightarrow> Returns (c\<lparr>th_ctx := (th_ctx c)\<lparr>latest_reading := reading\<rparr>, th_sensor := Se_Stamp\<rparr>)
   | Se_Stamp \<Rightarrow> Returns (c\<lparr>th_ctx := (th_ctx c)\<lparr>hb_sensor_ms := th_tick c\<rparr>, th_sensor := Se_Unlock\<rparr>)
   | Se_Unlock \<Rightarrow>
       map_outcome (\<lambda>m. c\<lparr>th_lock := m, th_sensor := Se_Delay\<rparr>) (osal_mutex_unlock T_Sensor (th_lock c))
   | Se_Delay \<Rightarrow> Returns (c\<lparr>th_sensor := Se_Test\<rparr>)
   | Se_Exit \<Rightarrow> Blocks)"

definition task_soc_main :: "(real \<Rightarrow> real) \<Rightarrow> bms_threads \<Rightarrow> bms_threads outcome" where
  "task_soc_main rnd c = (case th_soc c of
     So_Test \<Rightarrow> Returns (c\<lparr>th_soc := if th_shutdown c then So_Exit else So_Lock\<rparr>)
   | So_Lock \<Rightarrow> map_outcome (\<lambda>m. c\<lparr>th_lock := m, th_soc := So_Read\<rparr>) (osal_mutex_lock T_Soc (th_lock c))
   | So_Read \<Rightarrow> Returns (c\<lparr>th_soc := So_Update (latest_reading (th_ctx c))\<rparr>)
   | So_Update reading \<Rightarrow>
       map_outcome (\<lambda>e. c\<lparr>th_ctx := (th_ctx c)\<lparr>soc := e\<rparr>, th_soc := So_Voltage reading\<rparr>)
         (outcome_of (soc_estimator_update rnd (soc (th_ctx c)) (pack_current_ca reading) TASK_PERIOD_SOC_MS
            (pack_voltage reading div of_nat BMS_CELL_COUNT)))
   | So_Voltage reading \<Rightarrow>
       Returns (c\<lparr>th_ctx := (th_ctx c)\<lparr>status := (status (th_ctx c))\<lparr>st_pack_voltage_mv := pack_voltage reading\<rparr>\<rparr>,
                 th_soc := So_Current reading\<rparr>)
   | So_Current reading \<Rightarrow>
       Returns (c\<lparr>th_ctx := (th_ctx c)\<lparr>status := (status (th_ctx c))\<lparr>st_pack_current_ca := pack_current_ca reading\<rparr>\<rparr>,
                 th_soc := So_Percent\<rparr>)
   | So_Percent \<Rightarrow>
       map_outcome (\<lambda>p. c\<lparr>th_ctx := (th_ctx c)\<lparr>status := (status (th_ctx c))\<lparr>st_soc_percent_x2 := p\<rparr>\<rparr>,
                         th_soc := So_State\<rparr>)
         (outcome_of (soc_estimator_get_percent_x2 rnd (soc (th_ctx c))))
   | So_State \<Rightarrow>
       Returns (c\<lparr>th_ctx := (th_ctx c)\<lparr>status := (status (th_ctx c))\<lparr>st_state :=
                   bms_state_code (fm_state (fault_mgr (th_ctx c)))\<rparr>\<rparr>, th_soc := So_Stamp\<rparr>)
   | So_Stamp \<Rightarrow> Returns (c\<lparr>th_ctx := (th_ctx c)\<lparr>hb_soc_ms := th_tick c\<rparr>, th_soc := So_Unlock\<rparr>)
   | So_Unlock \<Rightarrow> map_outcome (\<lambda>m. c\<lparr>th_lock := m, th_soc := So_Delay\<rparr>) (osal_mutex_unlock T_Soc (th_lock c))
   | So_Delay \<Rightarrow> Returns (c\<lparr>th_soc := So_Test\<rparr>)
   | So_Exit \<Rightarrow> Blocks)"

definition task_fault_main :: "bms_threads \<Rightarrow> bms_threads outcome" where
  "task_fault_main c = (case th_fault c of
     Fa_Test \<Rightarrow> Returns (c\<lparr>th_fault := if th_shutdown c then Fa_Exit else Fa_Tick\<rparr>)
   | Fa_Tick \<Rightarrow> Returns (c\<lparr>th_fault := Fa_Lock (th_tick c)\<rparr>)
   | Fa_Lock now \<Rightarrow> map_outcome (\<lambda>m. c\<lparr>th_lock := m, th_fault := Fa_Read now\<rparr>) (osal_mutex_lock T_Fault (th_lock c))
   | Fa_Read now \<Rightarrow> Returns (c\<lparr>th_fault := Fa_Evaluate now (latest_reading (th_ctx c))\<rparr>)
   | Fa_Evaluate now reading \<Rightarrow>
       Returns (c\<lparr>th_ctx := (th_ctx c)\<lparr>fault_mgr := fault_manager_evaluate (fault_mgr (th_ctx c)) reading now\<rparr>,
                 th_fault := Fa_State now\<rparr>)
   | Fa_State now \<Rightarrow> Returns (c\<lparr>th_fault := Fa_Faults now (fm_state (fault_mgr (th_ctx c)))\<rparr>)
   | Fa_Faults now state \<Rightarrow> Returns (c\<lparr>th_fault := Fa_Stamp now state (active_faults (fault_mgr (th_ctx c)))\<rparr>)
   | Fa_Stamp now state faults \<Rightarrow>
       Returns (c\<lparr>th_ctx := (th_ctx c)\<lparr>hb_fault_ms := now\<rparr>, th_fault := Fa_Unlock state faults\<rparr>)
   | Fa_Unlock state faults \<Rightarrow>
       map_outcome (\<lambda>m. c\<lparr>th_lock := m, th_fault := Fa_Log state faults\<rparr>) (osal_mutex_unlock T_Fault (th_lock c))
   | Fa_Log state faults \<Rightarrow>
       Returns (c\<lparr>th_logged := if state \<noteq> th_logged c then state else th_logged c, th_fault := Fa_Delay\<rparr>)
   | Fa_Delay \<Rightarrow> Returns (c\<lparr>th_fault := Fa_Test\<rparr>)
   | Fa_Exit \<Rightarrow> Blocks)"

definition task_can_main :: "bms_threads \<Rightarrow> bms_threads outcome" where
  "task_can_main c = (case th_can c of
     Ca_Test \<Rightarrow> Returns (c\<lparr>th_can := if th_shutdown c then Ca_Exit else Ca_Lock\<rparr>)
   | Ca_Lock \<Rightarrow> map_outcome (\<lambda>m. c\<lparr>th_lock := m, th_can := Ca_Status\<rparr>) (osal_mutex_lock T_Can (th_lock c))
   | Ca_Status \<Rightarrow> Returns (c\<lparr>th_can := Ca_Reading (status (th_ctx c))\<rparr>)
   | Ca_Reading st \<Rightarrow> Returns (c\<lparr>th_can := Ca_Faults st (latest_reading (th_ctx c))\<rparr>)
   | Ca_Faults st r \<Rightarrow> Returns (c\<lparr>th_can := Ca_Severity st r (active_faults (fault_mgr (th_ctx c)))\<rparr>)
   | Ca_Severity st r faults \<Rightarrow> Returns (c\<lparr>th_can := Ca_Unlock st r faults (fm_severity (fault_mgr (th_ctx c)))\<rparr>)
   | Ca_Unlock st r faults severity \<Rightarrow>
       map_outcome (\<lambda>m. c\<lparr>th_lock := m, th_can := Ca_Send_Status st r faults severity\<rparr>)
         (osal_mutex_unlock T_Can (th_lock c))
   | Ca_Send_Status st r faults severity \<Rightarrow>
       Returns (c\<lparr>th_bus := th_bus c @ [can_protocol_pack_status st], th_can := Ca_Send_Cells r faults severity\<rparr>)
   | Ca_Send_Cells r faults severity \<Rightarrow>
       Returns (c\<lparr>th_bus := th_bus c @ [can_protocol_pack_cell_voltages
                   \<lparr>cv_cell_mv = map (\<lambda>i. cell_mv r ! i) [0..<BMS_CELL_COUNT]\<rparr>],
                 th_can := Ca_Send_Fault faults severity\<rparr>)
   | Ca_Send_Fault faults severity \<Rightarrow>
       Returns (if faults \<noteq> th_faults c
                then c\<lparr>th_bus := th_bus c @ [can_protocol_pack_fault
                          \<lparr>fr_fault_bitmask = faults, fr_severity = asil_u8 severity\<rparr>],
                       th_faults := faults, th_can := Ca_Delay\<rparr>
                else c\<lparr>th_can := Ca_Delay\<rparr>)
   | Ca_Delay \<Rightarrow> Returns (c\<lparr>th_can := Ca_Test\<rparr>)
   | Ca_Exit \<Rightarrow> Blocks)"

definition heartbeats_stale :: "u32 \<Rightarrow> u32 \<Rightarrow> u32 \<Rightarrow> u32 \<Rightarrow> bool" where
  "heartbeats_stale now hb_sensor hb_soc hb_fault \<longleftrightarrow>
     now - hb_sensor > WATCHDOG_STALE_MS \<or> now - hb_soc > WATCHDOG_STALE_MS \<or> now - hb_fault > WATCHDOG_STALE_MS"

definition task_watchdog_main :: "bms_threads \<Rightarrow> bms_threads outcome" where
  "task_watchdog_main c = (case th_watchdog c of
     Wa_Start \<Rightarrow> Returns (c\<lparr>th_watchdog := Wa_Test\<rparr>)
   | Wa_Test \<Rightarrow> Returns (c\<lparr>th_watchdog := if th_shutdown c then Wa_Exit else Wa_Tick\<rparr>)
   | Wa_Tick \<Rightarrow> Returns (c\<lparr>th_watchdog := Wa_Lock (th_tick c)\<rparr>)
   | Wa_Lock now \<Rightarrow>
       map_outcome (\<lambda>m. c\<lparr>th_lock := m, th_watchdog := Wa_Sensor now\<rparr>) (osal_mutex_lock T_Watchdog (th_lock c))
   | Wa_Sensor now \<Rightarrow> Returns (c\<lparr>th_watchdog := Wa_Soc now (hb_sensor_ms (th_ctx c))\<rparr>)
   | Wa_Soc now h1 \<Rightarrow> Returns (c\<lparr>th_watchdog := Wa_Fault now h1 (hb_soc_ms (th_ctx c))\<rparr>)
   | Wa_Fault now h1 h2 \<Rightarrow> Returns (c\<lparr>th_watchdog := Wa_Unlock now h1 h2 (hb_fault_ms (th_ctx c))\<rparr>)
   | Wa_Unlock now h1 h2 h3 \<Rightarrow>
       map_outcome (\<lambda>m. c\<lparr>th_lock := m, th_watchdog := Wa_Decide now h1 h2 h3\<rparr>)
         (osal_mutex_unlock T_Watchdog (th_lock c))
   | Wa_Decide now h1 h2 h3 \<Rightarrow>
       Returns (c\<lparr>th_watchdog := if heartbeats_stale now h1 h2 h3 then Wa_Log now else Wa_Delay\<rparr>)
   | Wa_Log now \<Rightarrow> Returns (c\<lparr>th_watchdog := Wa_Lock_Report now\<rparr>)
   | Wa_Lock_Report now \<Rightarrow>
       map_outcome (\<lambda>m. c\<lparr>th_lock := m, th_watchdog := Wa_Report now\<rparr>) (osal_mutex_lock T_Watchdog (th_lock c))
   | Wa_Report now \<Rightarrow>
       Returns (c\<lparr>th_ctx := (th_ctx c)\<lparr>fault_mgr := fault_manager_report_watchdog_fault (fault_mgr (th_ctx c)) now\<rparr>,
                 th_watchdog := Wa_Unlock_Report\<rparr>)
   | Wa_Unlock_Report \<Rightarrow>
       map_outcome (\<lambda>m. c\<lparr>th_lock := m, th_watchdog := Wa_Delay\<rparr>) (osal_mutex_unlock T_Watchdog (th_lock c))
   | Wa_Delay \<Rightarrow> Returns (c\<lparr>th_watchdog := Wa_Test\<rparr>)
   | Wa_Exit \<Rightarrow> Blocks)"

section \<open>The main thread\<close>

definition task_exited :: "bms_threads \<Rightarrow> task_id \<Rightarrow> bool" where
  "task_exited c t = (case t of
     T_Sensor \<Rightarrow> th_sensor c = Se_Exit | T_Soc \<Rightarrow> th_soc c = So_Exit | T_Fault \<Rightarrow> th_fault c = Fa_Exit
   | T_Can \<Rightarrow> th_can c = Ca_Exit | T_Watchdog \<Rightarrow> th_watchdog c = Wa_Exit | T_Main \<Rightarrow> th_main c = Ma_Exit)"

definition app_tasks :: "task_id list" where
  "app_tasks = [T_Sensor, T_Soc, T_Fault, T_Can, T_Watchdog]"

text \<open>\<open>main\<close> after the initialisation: creating the tasks to the end of the program.\<close>

definition main_thread :: "bms_threads \<Rightarrow> bms_threads outcome" where
  "main_thread c = (case th_main c of
     Ma_Create [] \<Rightarrow> Returns (c\<lparr>th_main := Ma_Sleep\<rparr>)
   | Ma_Create (t # ts) \<Rightarrow> Returns (c\<lparr>th_handles := th_handles c @ [t], th_main := Ma_Create ts\<rparr>)
   | Ma_Sleep \<Rightarrow> Returns (c\<lparr>th_main := Ma_Request\<rparr>)
   | Ma_Request \<Rightarrow> Returns (c\<lparr>th_shutdown := True, th_main := Ma_Join app_tasks\<rparr>)
   | Ma_Join [] \<Rightarrow> Returns (c\<lparr>th_main := Ma_Lock\<rparr>)
   | Ma_Join (t # ts) \<Rightarrow>
       if t \<in> set (th_handles c) \<and> \<not> task_exited c t then Blocks else Returns (c\<lparr>th_main := Ma_Join ts\<rparr>)
   | Ma_Lock \<Rightarrow> map_outcome (\<lambda>m. c\<lparr>th_lock := m, th_main := Ma_Print\<rparr>) (osal_mutex_lock T_Main (th_lock c))
   | Ma_Print \<Rightarrow>
       Returns (c\<lparr>th_printed := Some (status (th_ctx c), active_faults (fault_mgr (th_ctx c))), th_main := Ma_Unlock\<rparr>)
   | Ma_Unlock \<Rightarrow> map_outcome (\<lambda>m. c\<lparr>th_lock := m, th_main := Ma_Destroy\<rparr>) (osal_mutex_unlock T_Main (th_lock c))
   | Ma_Destroy \<Rightarrow>
       map_outcome (\<lambda>m. c\<lparr>th_lock := the m, th_main := Ma_Exit\<rparr>) (osal_mutex_destroy (Some (th_lock c)))
   | Ma_Exit \<Rightarrow> Blocks)"

text \<open>The labels: time passes, a thread executes a statement, the creation of a task fails for lack of memory.\<close>

datatype thread_label = Elapse u32 | Run task_id | Create_Fails

fun thread_do :: "(real \<Rightarrow> real) \<Rightarrow> thread_label \<Rightarrow> bms_threads \<Rightarrow> bms_threads outcome" where
  "thread_do rnd (Elapse d) c = Returns (c\<lparr>th_tick := th_tick c + d\<rparr>)"
| "thread_do rnd Create_Fails c =
     (case th_main c of Ma_Create (t # ts) \<Rightarrow> Returns (c\<lparr>th_main := Ma_Create ts\<rparr>) | _ \<Rightarrow> Blocks)"
| "thread_do rnd (Run T_Main) c = main_thread c"
| "thread_do rnd (Run t) c =
     (if t \<notin> set (th_handles c) then Blocks
      else case t of T_Sensor \<Rightarrow> task_sensor_main c | T_Soc \<Rightarrow> task_soc_main rnd c | T_Fault \<Rightarrow> task_fault_main c
                   | T_Can \<Rightarrow> task_can_main c | _ \<Rightarrow> task_watchdog_main c)"

definition thread_init :: "(real \<Rightarrow> real) \<Rightarrow> string option \<Rightarrow> bms_threads" where
  "thread_init rnd arg =
     (let (ctx, cm) = app_context_init rnd
      in \<lparr>th_ctx = ctx, th_cells = cell_model_set_scenario (parse_scenario arg) cm, th_tick = 0, th_lock = Mx_Free,
          th_shutdown = False, th_bus = [], th_handles = [], th_sensor = Se_Test, th_soc = So_Test,
          th_fault = Fa_Test, th_logged = BMS_STATE_NORMAL, th_can = Ca_Test, th_faults = 0,
          th_watchdog = Wa_Start, th_main = Ma_Create app_tasks, th_printed = None\<rparr>)"

inductive thread_run :: "(real \<Rightarrow> real) \<Rightarrow> bms_threads \<Rightarrow> thread_label list \<Rightarrow> bms_threads \<Rightarrow> bool" for rnd where
  thread_nil: "thread_run rnd c [] c"
| thread_snoc: "thread_run rnd c ls c' \<Longrightarrow> thread_do rnd l c' = Returns c'' \<Longrightarrow> thread_run rnd c (ls @ [l]) c''"

lemmas thread_defs =
  task_sensor_main_def task_soc_main_def task_fault_main_def task_can_main_def task_watchdog_main_def main_thread_def

section \<open>Mutual exclusion\<close>

text \<open>Where a thread is between its lock and its unlock call.\<close>

fun sensor_section :: "sensor_pc \<Rightarrow> bool" where
  "sensor_section (Se_Publish _) = True" | "sensor_section Se_Stamp = True" | "sensor_section Se_Unlock = True"
| "sensor_section _ = False"

fun soc_section :: "soc_pc \<Rightarrow> bool" where
  "soc_section So_Test = False" | "soc_section So_Lock = False" | "soc_section So_Delay = False"
| "soc_section So_Exit = False" | "soc_section _ = True"

fun fault_section :: "fault_pc \<Rightarrow> bool" where
  "fault_section (Fa_Read _) = True" | "fault_section (Fa_Evaluate _ _) = True" | "fault_section (Fa_State _) = True"
| "fault_section (Fa_Faults _ _) = True" | "fault_section (Fa_Stamp _ _ _) = True"
| "fault_section (Fa_Unlock _ _) = True" | "fault_section _ = False"

fun can_section :: "can_pc \<Rightarrow> bool" where
  "can_section Ca_Status = True" | "can_section (Ca_Reading _) = True" | "can_section (Ca_Faults _ _) = True"
| "can_section (Ca_Severity _ _ _) = True" | "can_section (Ca_Unlock _ _ _ _) = True" | "can_section _ = False"

fun watchdog_section :: "watchdog_thread_pc \<Rightarrow> bool" where
  "watchdog_section (Wa_Sensor _) = True" | "watchdog_section (Wa_Soc _ _) = True"
| "watchdog_section (Wa_Fault _ _ _) = True" | "watchdog_section (Wa_Unlock _ _ _ _) = True"
| "watchdog_section (Wa_Report _) = True" | "watchdog_section Wa_Unlock_Report = True" | "watchdog_section _ = False"

fun in_section :: "bms_threads \<Rightarrow> task_id \<Rightarrow> bool" where
  "in_section c T_Sensor = sensor_section (th_sensor c)"
| "in_section c T_Soc = soc_section (th_soc c)"
| "in_section c T_Fault = fault_section (th_fault c)"
| "in_section c T_Can = can_section (th_can c)"
| "in_section c T_Watchdog = watchdog_section (th_watchdog c)"
| "in_section c T_Main \<longleftrightarrow> th_main c = Ma_Print \<or> th_main c = Ma_Unlock"

fun joined :: "main_pc \<Rightarrow> task_id list" where
  "joined (Ma_Create _) = []" | "joined Ma_Sleep = []" | "joined Ma_Request = []"
| "joined (Ma_Join ts) = filter (\<lambda>t. t \<notin> set ts) app_tasks"
| "joined _ = app_tasks"

fun main_pc_ok :: "main_pc \<Rightarrow> bool" where
  "main_pc_ok (Ma_Create ts) \<longleftrightarrow> set ts \<subseteq> set app_tasks"
| "main_pc_ok (Ma_Join ts) \<longleftrightarrow> set ts \<subseteq> set app_tasks"
| "main_pc_ok _ \<longleftrightarrow> True"

text \<open>
  The invariant of the locking: the owner of the mutex is the thread inside its section, the mutex is
  gone exactly when \<open>main\<close> has returned, and \<open>main\<close> is past the join of a task only when that
  task has exited or was never created.
\<close>

definition thread_ok :: "bms_threads \<Rightarrow> bool" where
  "thread_ok c \<longleftrightarrow>
     (\<forall>t. in_section c t \<longleftrightarrow> th_lock c = Mx_Held t) \<and> (th_lock c = Mx_None \<longleftrightarrow> th_main c = Ma_Exit) \<and>
     set (th_handles c) \<subseteq> set app_tasks \<and> main_pc_ok (th_main c) \<and>
     (\<forall>t. in_section c t \<longrightarrow> t = T_Main \<or> t \<in> set (th_handles c)) \<and>
     (\<forall>t\<in>set (joined (th_main c)). t \<in> set (th_handles c) \<longrightarrow> task_exited c t)"

lemma thread_init_ok: "thread_ok (thread_init rnd arg)"
proof -
  have "\<not> in_section (thread_init rnd arg) t" for t
    by (cases t) (simp_all add: thread_init_def Let_def app_context_init_def)
  then show ?thesis by (simp add: thread_ok_def thread_init_def Let_def app_context_init_def)
qed

text \<open>What one statement of a thread can do to the lock, and what it leaves alone.\<close>

definition lock_move :: "task_id \<Rightarrow> bms_threads \<Rightarrow> bms_threads \<Rightarrow> bool" where
  "lock_move t c c' \<longleftrightarrow>
     (th_lock c' = th_lock c \<and> in_section c' t = in_section c t) \<or>
     (th_lock c = Mx_Free \<and> th_lock c' = Mx_Held t \<and> in_section c' t) \<or>
     (th_lock c = Mx_Held t \<and> th_lock c' = Mx_Free \<and> \<not> in_section c' t)"

definition others_kept :: "task_id \<Rightarrow> bms_threads \<Rightarrow> bms_threads \<Rightarrow> bool" where
  "others_kept t c c' \<longleftrightarrow>
     (\<forall>t'. t' \<noteq> t \<longrightarrow> in_section c' t' = in_section c t' \<and> task_exited c' t' = task_exited c t') \<and>
     \<not> task_exited c t \<and> (t \<noteq> T_Main \<longrightarrow> th_main c' = th_main c \<and> th_handles c' = th_handles c)"

text \<open>A statement of a task leaves the program counters of the other threads and the handles alone.\<close>

definition pcs_kept :: "task_id \<Rightarrow> bms_threads \<Rightarrow> bms_threads \<Rightarrow> bool" where
  "pcs_kept t c c' \<longleftrightarrow>
     (t \<noteq> T_Sensor \<longrightarrow> th_sensor c' = th_sensor c) \<and> (t \<noteq> T_Soc \<longrightarrow> th_soc c' = th_soc c) \<and>
     (t \<noteq> T_Fault \<longrightarrow> th_fault c' = th_fault c) \<and> (t \<noteq> T_Can \<longrightarrow> th_can c' = th_can c) \<and>
     (t \<noteq> T_Watchdog \<longrightarrow> th_watchdog c' = th_watchdog c) \<and>
     (t \<noteq> T_Main \<longrightarrow> th_main c' = th_main c \<and> th_handles c' = th_handles c)"

lemma others_keptI: "pcs_kept t c c' \<Longrightarrow> \<not> task_exited c t \<Longrightarrow> others_kept t c c'"
  unfolding others_kept_def
proof (intro conjI allI impI)
  fix t' assume "pcs_kept t c c'" and t': "t' \<noteq> t"
  then show "in_section c' t' = in_section c t'" "task_exited c' t' = task_exited c t'"
    by (cases t'; auto simp: pcs_kept_def task_exited_def)+
qed (simp_all add: pcs_kept_def)

lemma sensor_moves:
  "task_sensor_main c = Returns c' \<Longrightarrow> lock_move T_Sensor c c' \<and> pcs_kept T_Sensor c c' \<and> \<not> task_exited c T_Sensor"
  by (cases "th_sensor c") (auto simp: task_sensor_main_def lock_move_def pcs_kept_def task_exited_def Let_def case_prod_unfold split: if_splits)

lemma soc_moves:
  "task_soc_main rnd c = Returns c' \<Longrightarrow> lock_move T_Soc c c' \<and> pcs_kept T_Soc c c' \<and> \<not> task_exited c T_Soc"
  by (cases "th_soc c") (auto simp: task_soc_main_def lock_move_def pcs_kept_def task_exited_def Let_def case_prod_unfold split: if_splits)

lemma fault_moves:
  "task_fault_main c = Returns c' \<Longrightarrow> lock_move T_Fault c c' \<and> pcs_kept T_Fault c c' \<and> \<not> task_exited c T_Fault"
  by (cases "th_fault c") (auto simp: task_fault_main_def lock_move_def pcs_kept_def task_exited_def Let_def case_prod_unfold split: if_splits)

lemma can_moves:
  "task_can_main c = Returns c' \<Longrightarrow> lock_move T_Can c c' \<and> pcs_kept T_Can c c' \<and> \<not> task_exited c T_Can"
  by (cases "th_can c") (auto simp: task_can_main_def lock_move_def pcs_kept_def task_exited_def Let_def case_prod_unfold split: if_splits)

lemma watchdog_moves:
  "task_watchdog_main c = Returns c' \<Longrightarrow> lock_move T_Watchdog c c' \<and> pcs_kept T_Watchdog c c' \<and> \<not> task_exited c T_Watchdog"
  by (cases "th_watchdog c") (auto simp: task_watchdog_main_def lock_move_def pcs_kept_def task_exited_def Let_def case_prod_unfold split: if_splits)

lemma task_statement_ok:
  assumes ok: "thread_ok c" and t: "t \<noteq> T_Main" "t \<in> set (th_handles c)"
    and mv: "lock_move t c c'" "pcs_kept t c c'" "\<not> task_exited c t"
  shows "thread_ok c'"
proof -
  have others: "t' \<noteq> t \<Longrightarrow> in_section c' t' = in_section c t' \<and> task_exited c' t' = task_exited c t'" for t'
    using others_keptI [OF mv(2,3)] by (simp add: others_kept_def)
  have main: "th_main c' = th_main c" "th_handles c' = th_handles c" using mv(2) t(1) by (simp_all add: pcs_kept_def)
  have "t \<notin> set (joined (th_main c))" using ok t(2) mv(3) by (auto simp: thread_ok_def)
  moreover have "t \<in> set app_tasks" using ok t(2) by (auto simp: thread_ok_def)
  ultimately have "th_main c \<noteq> Ma_Exit" by auto
  then have alive: "th_lock c \<noteq> Mx_None" using ok by (simp add: thread_ok_def)
  have sec: "in_section c t' \<longleftrightarrow> th_lock c = Mx_Held t'" for t' using ok by (simp add: thread_ok_def)
  have "in_section c' t' \<longleftrightarrow> th_lock c' = Mx_Held t'" for t'
    using mv(1) sec [of t'] sec [of t] others [of t'] unfolding lock_move_def by (cases "t' = t") auto
  moreover have "in_section c' t' \<Longrightarrow> t' = T_Main \<or> t' \<in> set (th_handles c)" for t'
    using ok others [of t'] t(2) by (cases "t' = t") (auto simp: thread_ok_def)
  moreover have "th_lock c' \<noteq> Mx_None" using mv(1) alive by (auto simp: lock_move_def)
  moreover have "\<forall>t'\<in>set (joined (th_main c)). t' \<in> set (th_handles c) \<longrightarrow> task_exited c' t'"
    using ok others mv(3) by (metis thread_ok_def)
  ultimately show ?thesis
    using ok \<open>th_main c \<noteq> Ma_Exit\<close> unfolding thread_ok_def main by blast
qed

lemma main_sections:
  assumes "main_thread c = Returns c'" and "t \<noteq> T_Main"
  shows "in_section c' t = in_section c t" and "task_exited c' t = task_exited c t"
proof -
  have "th_sensor c' = th_sensor c \<and> th_soc c' = th_soc c \<and> th_fault c' = th_fault c \<and> th_can c' = th_can c \<and>
      th_watchdog c' = th_watchdog c"
    using assms(1) by (auto simp: main_thread_def split: main_pc.splits list.splits if_splits)
  then show "in_section c' t = in_section c t" "task_exited c' t = task_exited c t"
    using assms(2) by (cases t; simp add: task_exited_def)+
qed

lemma main_lock_move: "main_thread c = Returns c' \<Longrightarrow> th_main c \<noteq> Ma_Destroy \<Longrightarrow> lock_move T_Main c c'"
  by (auto simp: main_thread_def lock_move_def split: main_pc.splits list.splits if_splits)

lemma main_joins:
  assumes "thread_ok c" and "main_thread c = Returns c'"
  shows "set (th_handles c') \<subseteq> set app_tasks" and "main_pc_ok (th_main c')"
    and "t \<in> set (joined (th_main c')) \<Longrightarrow> t \<in> set (th_handles c') \<Longrightarrow> task_exited c t"
proof -
  show "set (th_handles c') \<subseteq> set app_tasks" "main_pc_ok (th_main c')"
    using assms by (auto simp: main_thread_def thread_ok_def split: main_pc.splits list.splits if_splits)
  show "t \<in> set (joined (th_main c')) \<Longrightarrow> t \<in> set (th_handles c') \<Longrightarrow> task_exited c t"
    using assms by (auto simp: main_thread_def thread_ok_def split: main_pc.splits list.splits if_splits)
qed

lemma main_statement_ok:
  assumes ok: "thread_ok c" and step: "main_thread c = Returns c'"
  shows "thread_ok c'"
proof -
  have sec: "in_section c t \<longleftrightarrow> th_lock c = Mx_Held t" for t using ok by (simp add: thread_ok_def)
  have "in_section c' t \<longleftrightarrow> th_lock c' = Mx_Held t" for t
  proof (cases "th_main c = Ma_Destroy")
    case True
    then show ?thesis using step sec [of t] main_sections(1) [OF step, of t] by (cases "t = T_Main") (auto simp: main_thread_def)
  next
    case False
    from main_lock_move [OF step this] show ?thesis
      using sec [of t] sec [of T_Main] main_sections(1) [OF step, of t] unfolding lock_move_def
      by (cases "t = T_Main") auto
  qed
  moreover have "th_lock c' = Mx_None \<longleftrightarrow> th_main c' = Ma_Exit"
    using step ok by (auto simp: main_thread_def thread_ok_def split: main_pc.splits list.splits if_splits)
  moreover have "task_exited c' t" if "t \<in> set (joined (th_main c'))" "t \<in> set (th_handles c')" for t
    using main_joins [OF ok step] that main_sections(2) [OF step, of t] by (auto simp: app_tasks_def)
  moreover have "set (th_handles c) \<subseteq> set (th_handles c')"
    using step by (auto simp: main_thread_def split: main_pc.splits list.splits if_splits)
  then have "in_section c' t \<Longrightarrow> t = T_Main \<or> t \<in> set (th_handles c')" for t
    using ok main_sections(1) [OF step, of t] by (cases "t = T_Main") (auto simp: thread_ok_def)
  ultimately show ?thesis using main_joins(1,2) [OF ok step] unfolding thread_ok_def by blast
qed

lemma Run_cases:
  assumes "thread_do rnd (Run t) c = Returns c'" and "t \<noteq> T_Main"
  shows "t \<in> set (th_handles c)" and "lock_move t c c'" and "pcs_kept t c c'" and "\<not> task_exited c t"
proof -
  show "t \<in> set (th_handles c)" using assms by (cases t) (simp_all split: if_splits)
  have "lock_move t c c' \<and> pcs_kept t c c' \<and> \<not> task_exited c t"
    using assms sensor_moves soc_moves fault_moves can_moves watchdog_moves
    by (cases t) (auto split: if_splits)
  then show "lock_move t c c'" "pcs_kept t c c'" "\<not> task_exited c t" by simp_all
qed

lemma thread_do_ok:
  assumes "thread_ok c" and "thread_do rnd l c = Returns c'"
  shows "thread_ok c'"
proof (cases l)
  case (Elapse d)
  have "in_section (c\<lparr>th_tick := th_tick c + d\<rparr>) t = in_section c t"
    "task_exited (c\<lparr>th_tick := th_tick c + d\<rparr>) t = task_exited c t" for t
    by (cases t; simp add: task_exited_def)+
  with assms Elapse show ?thesis by (auto simp: thread_ok_def)
next
  case (Run t)
  show ?thesis
  proof (cases "t = T_Main")
    case True
    with assms Run show ?thesis using main_statement_ok by simp
  next
    case False
    with assms Run show ?thesis using task_statement_ok [OF assms(1) False] Run_cases [of rnd t c c'] by simp
  qed
next
  case Create_Fails
  then obtain t ts where ts: "th_main c = Ma_Create (t # ts)" "c' = c\<lparr>th_main := Ma_Create ts\<rparr>"
    using assms(2) by (auto split: main_pc.splits list.splits)
  have "in_section c' t = in_section c t" for t by (cases t) (simp_all add: ts)
  with assms(1) show ?thesis by (auto simp: thread_ok_def ts)
qed

lemma thread_run_ok: "thread_run rnd c ls c' \<Longrightarrow> thread_ok c \<Longrightarrow> thread_ok c'"
  by (induction rule: thread_run.induct) (auto intro: thread_do_ok)

end
