(* ===== verification/Thread_Refinement.thy ===== *)
theory Thread_Refinement
  imports Bms_Threads
begin

text \<open>
  The statement-level program refines the system of atomic sections. Each step of a thread either
  changes nothing of the abstract system or is one of its steps: a critical section takes effect at its
  last access to the shared context, the frames of a round appear on the abstract bus when the round's
  snapshot is complete. The relation says what the context looks like in the middle of a section.
\<close>

section \<open>In the middle of a section\<close>

abbreviation next_reading :: "bms_system \<Rightarrow> cell_reading_t" where
  "next_reading a \<equiv> snd (cell_model_step TASK_PERIOD_SENSOR_MS (s_cells a))"

fun sensor_rel :: "sensor_pc \<Rightarrow> cell_model_t \<Rightarrow> cell_model_t \<Rightarrow> bool" where
  "sensor_rel (Se_Lock r) cells cm \<longleftrightarrow>
     cm = fst (cell_model_step TASK_PERIOD_SENSOR_MS cells) \<and> r = snd (cell_model_step TASK_PERIOD_SENSOR_MS cells)"
| "sensor_rel (Se_Publish r) cells cm \<longleftrightarrow>
     cm = fst (cell_model_step TASK_PERIOD_SENSOR_MS cells) \<and> r = snd (cell_model_step TASK_PERIOD_SENSOR_MS cells)"
| "sensor_rel Se_Stamp cells cm \<longleftrightarrow> cm = fst (cell_model_step TASK_PERIOD_SENSOR_MS cells)"
| "sensor_rel _ cells cm \<longleftrightarrow> cm = cells"

fun sensor_ctx :: "sensor_pc \<Rightarrow> bms_system \<Rightarrow> app_context_t" where
  "sensor_ctx Se_Stamp a = (s_ctx a)\<lparr>latest_reading := next_reading a\<rparr>"
| "sensor_ctx _ a = s_ctx a"

definition soc_updated :: "(real \<Rightarrow> real) \<Rightarrow> app_context_t \<Rightarrow> soc_estimator_t option" where
  "soc_updated rnd ctx =
     soc_estimator_update rnd (soc ctx) (pack_current_ca (latest_reading ctx)) TASK_PERIOD_SOC_MS
       (pack_voltage (latest_reading ctx) div of_nat BMS_CELL_COUNT)"

fun soc_rel :: "(real \<Rightarrow> real) \<Rightarrow> soc_pc \<Rightarrow> app_context_t \<Rightarrow> app_context_t \<Rightarrow> bool" where
  "soc_rel rnd (So_Update r) A C \<longleftrightarrow> C = A \<and> r = latest_reading A"
| "soc_rel rnd (So_Voltage r) A C \<longleftrightarrow>
     r = latest_reading A \<and> (\<exists>e. soc_updated rnd A = Some e \<and> C = A\<lparr>soc := e\<rparr>)"
| "soc_rel rnd (So_Current r) A C \<longleftrightarrow>
     r = latest_reading A \<and> (\<exists>e. soc_updated rnd A = Some e \<and>
       C = A\<lparr>soc := e, status := (status A)\<lparr>st_pack_voltage_mv := pack_voltage r\<rparr>\<rparr>)"
| "soc_rel rnd So_Percent A C \<longleftrightarrow>
     (\<exists>e. soc_updated rnd A = Some e \<and>
       C = A\<lparr>soc := e, status := (status A)\<lparr>st_pack_voltage_mv := pack_voltage (latest_reading A),
              st_pack_current_ca := pack_current_ca (latest_reading A)\<rparr>\<rparr>)"
| "soc_rel rnd So_State A C \<longleftrightarrow>
     (\<exists>e p. soc_updated rnd A = Some e \<and> soc_estimator_get_percent_x2 rnd e = Some p \<and>
       C = A\<lparr>soc := e, status := (status A)\<lparr>st_pack_voltage_mv := pack_voltage (latest_reading A),
              st_pack_current_ca := pack_current_ca (latest_reading A), st_soc_percent_x2 := p\<rparr>\<rparr>)"
| "soc_rel rnd So_Stamp A C \<longleftrightarrow>
     (\<exists>e p. soc_updated rnd A = Some e \<and> soc_estimator_get_percent_x2 rnd e = Some p \<and>
       C = A\<lparr>soc := e, status := \<lparr>st_pack_voltage_mv = pack_voltage (latest_reading A),
              st_pack_current_ca = pack_current_ca (latest_reading A), st_soc_percent_x2 = p,
              st_state = bms_state_code (fm_state (fault_mgr A))\<rparr>\<rparr>)"
| "soc_rel rnd _ A C \<longleftrightarrow> C = A"

definition evaluated :: "u32 \<Rightarrow> app_context_t \<Rightarrow> fault_manager_t" where
  "evaluated now ctx = fault_manager_evaluate (fault_mgr ctx) (latest_reading ctx) now"

fun fault_rel :: "fault_pc \<Rightarrow> app_context_t \<Rightarrow> app_context_t \<Rightarrow> bool" where
  "fault_rel (Fa_Evaluate now r) A C \<longleftrightarrow> C = A \<and> r = latest_reading A"
| "fault_rel (Fa_State now) A C \<longleftrightarrow> C = A\<lparr>fault_mgr := evaluated now A\<rparr>"
| "fault_rel (Fa_Faults now st) A C \<longleftrightarrow> C = A\<lparr>fault_mgr := evaluated now A\<rparr> \<and> st = fm_state (evaluated now A)"
| "fault_rel (Fa_Stamp now st faults) A C \<longleftrightarrow>
     C = A\<lparr>fault_mgr := evaluated now A\<rparr> \<and> st = fm_state (evaluated now A) \<and> faults = active_faults (evaluated now A)"
| "fault_rel _ A C \<longleftrightarrow> C = A"

text \<open>The shared context, by the owner of the mutex.\<close>

fun ctx_rel ::
  "(real \<Rightarrow> real) \<Rightarrow> task_id osal_mutex \<Rightarrow> sensor_pc \<Rightarrow> soc_pc \<Rightarrow> fault_pc \<Rightarrow> app_context_t \<Rightarrow> bms_system \<Rightarrow> bool" where
  "ctx_rel rnd (Mx_Held T_Sensor) se so fa C a \<longleftrightarrow> C = sensor_ctx se a"
| "ctx_rel rnd (Mx_Held T_Soc) se so fa C a \<longleftrightarrow> soc_rel rnd so (s_ctx a) C"
| "ctx_rel rnd (Mx_Held T_Fault) se so fa C a \<longleftrightarrow> fault_rel fa (s_ctx a) C"
| "ctx_rel rnd m se so fa C a \<longleftrightarrow> C = s_ctx a"

lemma sensor_ctx_cong: "s_ctx a' = s_ctx a \<Longrightarrow> s_cells a' = s_cells a \<Longrightarrow> sensor_ctx se a' = sensor_ctx se a"
  by (cases se) simp_all

lemma ctx_rel_cong:
  "s_ctx a' = s_ctx a \<Longrightarrow> s_cells a' = s_cells a \<Longrightarrow> ctx_rel rnd m se so fa C a' = ctx_rel rnd m se so fa C a"
  by (cases "(rnd, m, se, so, fa, C, a)" rule: ctx_rel.cases) (simp_all add: sensor_ctx_cong [of a' a])

lemma ctx_rel_fields [simp]:
  "ctx_rel rnd m se so fa C (a\<lparr>s_fault_now := x\<rparr>) = ctx_rel rnd m se so fa C a"
  "ctx_rel rnd m se so fa C (a\<lparr>s_tick := y\<rparr>) = ctx_rel rnd m se so fa C a"
  "ctx_rel rnd m se so fa C (a\<lparr>s_watchdog := z\<rparr>) = ctx_rel rnd m se so fa C a"
  by (rule ctx_rel_cong; simp)+

lemma ctx_rel_outside:
  "m \<noteq> Mx_Held T_Sensor \<Longrightarrow> ctx_rel rnd m se so fa C a \<Longrightarrow> ctx_rel rnd m se' so fa C a"
  "m \<noteq> Mx_Held T_Soc \<Longrightarrow> ctx_rel rnd m se so fa C a \<Longrightarrow> ctx_rel rnd m se so' fa C a"
  "m \<noteq> Mx_Held T_Fault \<Longrightarrow> ctx_rel rnd m se so fa C a \<Longrightarrow> ctx_rel rnd m se so fa' C a"
  by (cases "(rnd, m, se, so, fa, C, a)" rule: ctx_rel.cases; simp)+

section \<open>What the threads hold outside their sections\<close>

fun fault_now :: "fault_pc \<Rightarrow> u32 option" where
  "fault_now (Fa_Lock now) = Some now" | "fault_now (Fa_Read now) = Some now"
| "fault_now (Fa_Evaluate now _) = Some now" | "fault_now (Fa_State now) = Some now"
| "fault_now (Fa_Faults now _) = Some now" | "fault_now (Fa_Stamp now _ _) = Some now" | "fault_now _ = None"

fun fault_logged :: "fault_pc \<Rightarrow> bms_state_t \<Rightarrow> bms_state_t" where
  "fault_logged (Fa_Unlock st _) l = st" | "fault_logged (Fa_Log st _) l = st" | "fault_logged _ l = l"

definition fault_frames :: "u16 \<Rightarrow> bms_asil_t \<Rightarrow> u16 \<Rightarrow> can_frame_t list" where
  "fault_frames faults severity sent =
     (if faults = sent then [] else [can_protocol_pack_fault
        \<lparr>fr_fault_bitmask = faults, fr_severity = asil_u8 severity\<rparr>])"

definition cell_frame :: "cell_reading_t \<Rightarrow> can_frame_t" where
  "cell_frame r = can_protocol_pack_cell_voltages \<lparr>cv_cell_mv = map (\<lambda>i. cell_mv r ! i) [0..<BMS_CELL_COUNT]\<rparr>"

text \<open>The frames a round has still to send, and the fault mask it will remember.\<close>

fun can_pending :: "can_pc \<Rightarrow> u16 \<Rightarrow> can_frame_t list" where
  "can_pending (Ca_Unlock st r faults sv) sent =
     can_protocol_pack_status st # cell_frame r # fault_frames faults sv sent"
| "can_pending (Ca_Send_Status st r faults sv) sent =
     can_protocol_pack_status st # cell_frame r # fault_frames faults sv sent"
| "can_pending (Ca_Send_Cells r faults sv) sent = cell_frame r # fault_frames faults sv sent"
| "can_pending (Ca_Send_Fault faults sv) sent = fault_frames faults sv sent"
| "can_pending _ sent = []"

fun can_sent :: "can_pc \<Rightarrow> u16 \<Rightarrow> u16" where
  "can_sent (Ca_Unlock st r faults sv) sent = faults" | "can_sent (Ca_Send_Status st r faults sv) sent = faults"
| "can_sent (Ca_Send_Cells r faults sv) sent = faults" | "can_sent (Ca_Send_Fault faults sv) sent = faults"
| "can_sent _ sent = sent"

fun can_locals :: "can_pc \<Rightarrow> app_context_t \<Rightarrow> bool" where
  "can_locals (Ca_Reading st) A \<longleftrightarrow> st = status A"
| "can_locals (Ca_Faults st r) A \<longleftrightarrow> st = status A \<and> r = latest_reading A"
| "can_locals (Ca_Severity st r faults) A \<longleftrightarrow>
     st = status A \<and> r = latest_reading A \<and> faults = active_faults (fault_mgr A)"
| "can_locals _ A \<longleftrightarrow> True"

definition wd_verdict :: "u32 \<Rightarrow> u32 \<Rightarrow> u32 \<Rightarrow> u32 \<Rightarrow> watchdog_pc" where
  "wd_verdict now h1 h2 h3 = (if heartbeats_stale now h1 h2 h3 then Wd_Found_Stale now else Wd_Asleep)"

fun wd_abs :: "watchdog_thread_pc \<Rightarrow> watchdog_pc" where
  "wd_abs (Wa_Lock now) = Wd_Tick_Read now" | "wd_abs (Wa_Sensor now) = Wd_Tick_Read now"
| "wd_abs (Wa_Soc now _) = Wd_Tick_Read now" | "wd_abs (Wa_Fault now _ _) = Wd_Tick_Read now"
| "wd_abs (Wa_Unlock now h1 h2 h3) = wd_verdict now h1 h2 h3"
| "wd_abs (Wa_Decide now h1 h2 h3) = wd_verdict now h1 h2 h3"
| "wd_abs (Wa_Log now) = Wd_Found_Stale now" | "wd_abs (Wa_Lock_Report now) = Wd_Found_Stale now"
| "wd_abs (Wa_Report now) = Wd_Found_Stale now" | "wd_abs _ = Wd_Asleep"

fun wd_locals :: "watchdog_thread_pc \<Rightarrow> app_context_t \<Rightarrow> bool" where
  "wd_locals (Wa_Soc now h1) A \<longleftrightarrow> h1 = hb_sensor_ms A"
| "wd_locals (Wa_Fault now h1 h2) A \<longleftrightarrow> h1 = hb_sensor_ms A \<and> h2 = hb_soc_ms A"
| "wd_locals _ A \<longleftrightarrow> True"

definition thread_rel :: "(real \<Rightarrow> real) \<Rightarrow> bms_threads \<Rightarrow> bms_system \<Rightarrow> bool" where
  "thread_rel rnd c a \<longleftrightarrow>
     ctx_rel rnd (th_lock c) (th_sensor c) (th_soc c) (th_fault c) (th_ctx c) a \<and> sensor_rel (th_sensor c) (s_cells a) (th_cells c) \<and> s_tick a = th_tick c \<and>
     s_fault_now a = fault_now (th_fault c) \<and> s_last_logged a = fault_logged (th_fault c) (th_logged c) \<and>
     s_bus a = th_bus c @ can_pending (th_can c) (th_faults c) \<and> s_last_faults a = can_sent (th_can c) (th_faults c) \<and>
     can_locals (th_can c) (s_ctx a) \<and> s_watchdog a = wd_abs (th_watchdog c) \<and> wd_locals (th_watchdog c) (s_ctx a)"

section \<open>The steps of the abstract system\<close>

text \<open>Which abstract step, if any, a statement stands for.\<close>

fun commits :: "thread_label \<Rightarrow> bms_threads \<Rightarrow> sys_label list" where
  "commits (Elapse d) c = [Time d]"
| "commits (Run T_Sensor) c = (if th_sensor c = Se_Stamp then [Sensor_Cycle] else [])"
| "commits (Run T_Soc) c = (if th_soc c = So_Stamp then [Soc_Cycle] else [])"
| "commits (Run T_Fault) c =
     (case th_fault c of Fa_Tick \<Rightarrow> [Fault_Read_Tick] | Fa_Stamp _ _ _ \<Rightarrow> [Fault_Cycle] | _ \<Rightarrow> [])"
| "commits (Run T_Can) c = (case th_can c of Ca_Severity _ _ _ \<Rightarrow> [Can_Cycle] | _ \<Rightarrow> [])"
| "commits (Run T_Watchdog) c =
     (case th_watchdog c of Wa_Tick \<Rightarrow> [Watchdog_Read_Tick] | Wa_Fault _ _ _ \<Rightarrow> [Watchdog_Check]
      | Wa_Report _ \<Rightarrow> [Watchdog_Report] | _ \<Rightarrow> [])"
| "commits _ c = []"

definition simulates :: "(real \<Rightarrow> real) \<Rightarrow> thread_label \<Rightarrow> bms_threads \<Rightarrow> bms_threads \<Rightarrow> bms_system \<Rightarrow> bool" where
  "simulates rnd l c c' a \<longleftrightarrow> (\<exists>a'. sys_run rnd a (commits l c) a' \<and> thread_rel rnd c' a')"

lemma section_owner: "thread_ok c \<Longrightarrow> in_section c t \<longleftrightarrow> th_lock c = Mx_Held t"
  by (simp add: thread_ok_def)

lemma locals_outside:
  "\<not> can_section pc \<Longrightarrow> can_locals pc A" "\<not> watchdog_section pc' \<Longrightarrow> wd_locals pc' A"
  by (cases pc; simp) (cases pc'; simp)

lemma section_locals:
  assumes "thread_ok c" and "th_lock c = Mx_Held t"
  shows "t \<noteq> T_Can \<Longrightarrow> can_locals (th_can c) A" and "t \<noteq> T_Watchdog \<Longrightarrow> wd_locals (th_watchdog c) A"
  using assms(2) section_owner [OF assms(1), of T_Can] section_owner [OF assms(1), of T_Watchdog]
  by (auto intro!: locals_outside)

lemma simulates_silent: "commits l c = [] \<Longrightarrow> thread_rel rnd c' a \<Longrightarrow> simulates rnd l c c' a"
  by (simp add: simulates_def)

lemma sensor_simulates:
  assumes ok: "thread_ok c" and rel: "thread_rel rnd c a" and step: "task_sensor_main c = Returns c'"
  shows "simulates rnd (Run T_Sensor) c c' a"
proof (cases "in_section c T_Sensor")
  case True
  then have lock: "th_lock c = Mx_Held T_Sensor" using section_owner [OF ok, of T_Sensor] by simp
  note locals = section_locals [OF ok lock]
  show ?thesis
    using True step rel locals unfolding thread_rel_def simulates_def
    by (cases "th_sensor c") (auto simp: lock task_sensor_main_def task_sensor_cycle_def sys_run_Cons
        case_prod_unfold Let_def)
next
  case False
  then have lock: "th_lock c \<noteq> Mx_Held T_Sensor" using section_owner [OF ok, of T_Sensor] by simp
  show ?thesis
  proof (rule simulates_silent)
    show "commits (Run T_Sensor) c = []" using False by auto
    show "thread_rel rnd c' a"
      using False step rel ctx_rel_outside(1) [OF lock] unfolding thread_rel_def
      by (cases "th_sensor c") (auto simp: task_sensor_main_def case_prod_unfold Let_def)
  qed
qed

lemma soc_cycle_commits:
  assumes "soc_rel rnd So_Stamp A C"
  shows "task_soc_cycle rnd now A = Some (C\<lparr>hb_soc_ms := now\<rparr>)"
  using assms by (auto simp: task_soc_cycle_def soc_updated_def Let_def)

lemma soc_simulates:
  assumes ok: "thread_ok c" and rel: "thread_rel rnd c a" and step: "task_soc_main rnd c = Returns c'"
  shows "simulates rnd (Run T_Soc) c c' a"
proof (cases "in_section c T_Soc")
  case True
  then have lock: "th_lock c = Mx_Held T_Soc" using section_owner [OF ok, of T_Soc] by simp
  note locals = section_locals [OF ok lock]
  show ?thesis
  proof (cases "th_soc c = So_Stamp")
    case stamp: True
    then have "soc_rel rnd So_Stamp (s_ctx a) (th_ctx c)" using rel lock by (simp add: thread_rel_def del: soc_rel.simps)
    from soc_cycle_commits [OF this] show ?thesis
      using step rel stamp locals unfolding thread_rel_def simulates_def
      by (auto simp: lock task_soc_main_def sys_run_Cons)
  next
    case False
    with True have "commits (Run T_Soc) c = []" by simp
    moreover have "thread_rel rnd c' a"
      using True False step rel locals unfolding thread_rel_def
      by (cases "th_soc c") (auto simp: lock task_soc_main_def soc_updated_def)
    ultimately show ?thesis by (rule simulates_silent)
  qed
next
  case False
  then have lock: "th_lock c \<noteq> Mx_Held T_Soc" using section_owner [OF ok, of T_Soc] by simp
  show ?thesis
  proof (rule simulates_silent)
    show "commits (Run T_Soc) c = []" using False by auto
    show "thread_rel rnd c' a"
      using False step rel ctx_rel_outside(2) [OF lock] unfolding thread_rel_def
      by (cases "th_soc c") (auto simp: task_soc_main_def)
  qed
qed

lemma fault_simulates:
  assumes ok: "thread_ok c" and rel: "thread_rel rnd c a" and step: "task_fault_main c = Returns c'"
  shows "simulates rnd (Run T_Fault) c c' a"
proof (cases "in_section c T_Fault")
  case True
  then have lock: "th_lock c = Mx_Held T_Fault" using section_owner [OF ok, of T_Fault] by simp
  note locals = section_locals [OF ok lock]
  show ?thesis
    using True step rel locals unfolding thread_rel_def simulates_def
    by (cases "th_fault c") (auto simp: lock task_fault_main_def evaluated_def sys_run_Cons case_prod_unfold Let_def)
next
  case False
  then have lock: "th_lock c \<noteq> Mx_Held T_Fault" using section_owner [OF ok, of T_Fault] by simp
  show ?thesis
    using False step rel ctx_rel_outside(3) [OF lock] unfolding thread_rel_def simulates_def
    by (cases "th_fault c") (auto simp: task_fault_main_def sys_run_Cons)
qed

lemma can_simulates:
  assumes ok: "thread_ok c" and rel: "thread_rel rnd c a" and step: "task_can_main c = Returns c'"
  shows "simulates rnd (Run T_Can) c c' a"
proof (cases "in_section c T_Can")
  case True
  then have lock: "th_lock c = Mx_Held T_Can" using section_owner [OF ok, of T_Can] by simp
  show ?thesis
    using True step rel unfolding thread_rel_def simulates_def
    by (cases "th_can c") (auto simp: lock task_can_main_def task_can_cycle_def sys_run_Cons fault_frames_def
        cell_frame_def Let_def)
next
  case False
  have lock: "th_lock c \<noteq> Mx_Held T_Can" using False section_owner [OF ok, of T_Can] by simp
  show ?thesis
  proof (rule simulates_silent)
    show "commits (Run T_Can) c = []" using False by (cases "th_can c") simp_all
    show "thread_rel rnd c' a"
      using False step rel unfolding thread_rel_def
      by (cases "th_can c") (auto simp: task_can_main_def fault_frames_def cell_frame_def)
  qed
qed

lemma watchdog_simulates:
  assumes ok: "thread_ok c" and rel: "thread_rel rnd c a" and step: "task_watchdog_main c = Returns c'"
  shows "simulates rnd (Run T_Watchdog) c c' a"
proof (cases "in_section c T_Watchdog")
  case True
  then have lock: "th_lock c = Mx_Held T_Watchdog" using section_owner [OF ok, of T_Watchdog] by simp
  note locals = section_locals(1) [OF ok lock]
  show ?thesis
    using True step rel locals unfolding thread_rel_def simulates_def
    by (cases "th_watchdog c") (auto simp: lock task_watchdog_main_def sys_run_Cons wd_verdict_def
        heartbeats_stale_def watchdog_stale_def watchdog_report_def)
next
  case False
  have lock: "th_lock c \<noteq> Mx_Held T_Watchdog" using False section_owner [OF ok, of T_Watchdog] by simp
  show ?thesis
    using False step rel unfolding thread_rel_def simulates_def
    by (cases "th_watchdog c") (auto simp: task_watchdog_main_def sys_run_Cons wd_verdict_def)
qed

lemma main_simulates:
  assumes rel: "thread_rel rnd c a" and step: "main_thread c = Returns c'"
  shows "simulates rnd (Run T_Main) c c' a"
proof (rule simulates_silent)
  show "thread_rel rnd c' a"
    using step rel unfolding thread_rel_def
    by (auto simp: main_thread_def split: main_pc.splits list.splits if_splits)
qed simp

lemma thread_do_simulates:
  assumes ok: "thread_ok c" and rel: "thread_rel rnd c a" and step: "thread_do rnd l c = Returns c'"
  shows "simulates rnd l c c' a"
proof (cases l)
  case (Elapse d)
  with rel step show ?thesis by (auto simp: simulates_def thread_rel_def sys_run_Cons)
next
  case (Run t)
  with step show ?thesis
    using sensor_simulates [OF ok rel] soc_simulates [OF ok rel] fault_simulates [OF ok rel] can_simulates [OF ok rel]
      watchdog_simulates [OF ok rel] main_simulates [OF rel]
    by (cases t) (auto split: if_splits)
next
  case Create_Fails
  with rel step show ?thesis by (auto simp: simulates_def thread_rel_def split: main_pc.splits list.splits)
qed

section \<open>Runs\<close>

lemma thread_init_rel: "thread_rel rnd (thread_init rnd arg) (sys_init rnd arg)"
  by (simp add: thread_rel_def thread_init_def sys_init_def case_prod_unfold Let_def)

text \<open>
  How far the SoC task is in its round, which has eleven statements and takes effect at the ninth: the
  number of its statements so far is eleven for each committed cycle, plus this.
\<close>

fun soc_phase :: "soc_pc \<Rightarrow> int" where
  "soc_phase So_Test = 0" | "soc_phase So_Lock = 1" | "soc_phase So_Read = 2" | "soc_phase (So_Update _) = 3"
| "soc_phase (So_Voltage _) = 4" | "soc_phase (So_Current _) = 5" | "soc_phase So_Percent = 6"
| "soc_phase So_State = 7" | "soc_phase So_Stamp = 8" | "soc_phase So_Unlock = - 2" | "soc_phase So_Delay = - 1"
| "soc_phase So_Exit = 1"

lemma soc_phase_ge: "- 2 \<le> soc_phase pc"
  by (cases pc) simp_all

lemma soc_phase_step:
  assumes "thread_do rnd l c = Returns c'"
  shows "11 * int (count_list (commits l c) Soc_Cycle) + soc_phase (th_soc c') =
    soc_phase (th_soc c) + (if l = Run T_Soc then 1 else 0)"
proof (cases "l = Run T_Soc")
  case True
  with assms show ?thesis by (cases "th_soc c") (auto simp: task_soc_main_def split: if_splits)
next
  case False
  have "th_soc c' = th_soc c"
  proof (cases l)
    case (Run t)
    then show ?thesis
      using assms False Run_cases(3) [of rnd t c c']
      by (cases "t = T_Main") (auto simp: pcs_kept_def main_thread_def split: main_pc.splits list.splits if_splits)
  qed (use assms in \<open>auto split: main_pc.splits list.splits\<close>)
  moreover have "count_list (commits l c) Soc_Cycle = 0"
    using False by (cases "(l, c)" rule: commits.cases)
      (auto split: fault_pc.splits can_pc.splits watchdog_thread_pc.splits)
  ultimately show ?thesis using False by simp
qed

text \<open>
  A run is matched by the commits of its statements, so whatever each statement keeps of the statements and
  the commits so far holds of the two runs.
\<close>

lemma thread_run_simulated:
  assumes "thread_run rnd c ls c'" and "thread_ok c" and "thread_rel rnd c a" and "R [] c []"
    and "\<And>ls c' l c'' as. R ls c' as \<Longrightarrow> thread_do rnd l c' = Returns c'' \<Longrightarrow> R (ls @ [l]) c'' (as @ commits l c')"
  shows "\<exists>as a'. sys_run rnd a as a' \<and> thread_rel rnd c' a' \<and> R ls c' as"
  using assms
proof (induction rule: thread_run.induct)
  case (thread_nil c)
  then show ?case by (intro exI [of _ "[]"] exI [of _ a]) simp
next
  case (thread_snoc c ls c' l c'')
  obtain as a' where IH: "sys_run rnd a as a'" "thread_rel rnd c' a'" "R ls c' as" using thread_snoc by blast
  have "thread_ok c'" using thread_run_ok [OF thread_snoc.hyps(1) thread_snoc.prems(1)] .
  from thread_do_simulates [OF this IH(2) thread_snoc.hyps(2)] obtain a''
    where a'': "sys_run rnd a' (commits l c') a''" "thread_rel rnd c'' a''" by (auto simp: simulates_def)
  moreover have "sys_run rnd a (as @ commits l c') a''" using IH(1) a''(1) by (auto simp: sys_run_append)
  ultimately show ?case using thread_snoc.prems(4) [OF IH(3) thread_snoc.hyps(2)] by blast
qed

lemma thread_run_refines:
  assumes "thread_run rnd c ls c'" and "thread_ok c" and "thread_rel rnd c a"
  shows "\<exists>as a'. sys_run rnd a as a' \<and> thread_rel rnd c' a' \<and>
    int (count_list ls (Run T_Soc)) = 11 * int (count_list as Soc_Cycle) + soc_phase (th_soc c') - soc_phase (th_soc c)"
proof (rule thread_run_simulated [OF assms])
  fix ls c' l c'' as
  assume "int (count_list ls (Run T_Soc)) = 11 * int (count_list as Soc_Cycle) + soc_phase (th_soc c') - soc_phase (th_soc c)"
    and "thread_do rnd l c' = Returns c''"
  with soc_phase_step [of rnd l c' c''] show "int (count_list (ls @ [l]) (Run T_Soc)) =
      11 * int (count_list (as @ commits l c') Soc_Cycle) + soc_phase (th_soc c'') - soc_phase (th_soc c)" by simp
qed simp

text \<open>The positions of the sensor and the fault task in a round that has not taken effect yet.\<close>

fun sensor_before :: "sensor_pc \<Rightarrow> bool" where
  "sensor_before Se_Unlock = False" | "sensor_before Se_Delay = False" | "sensor_before _ = True"

fun fault_before :: "fault_pc \<Rightarrow> bool" where
  "fault_before (Fa_Unlock _ _) = False" | "fault_before (Fa_Log _ _) = False" | "fault_before Fa_Delay = False"
| "fault_before _ = True"

lemma other_thread_pcs:
  assumes "thread_do rnd l c = Returns c'"
  shows "l \<noteq> Run T_Sensor \<Longrightarrow> th_sensor c' = th_sensor c" and "l \<noteq> Run T_Fault \<Longrightarrow> th_fault c' = th_fault c"
proof -
  have "(l \<noteq> Run T_Sensor \<longrightarrow> th_sensor c' = th_sensor c) \<and> (l \<noteq> Run T_Fault \<longrightarrow> th_fault c' = th_fault c)"
  proof (cases l)
    case (Run t)
    then show ?thesis
      using assms Run_cases(3) [of rnd t c c']
      by (cases "t = T_Main") (auto simp: pcs_kept_def main_thread_def split: main_pc.splits list.splits if_splits)
  qed (use assms in \<open>auto split: main_pc.splits list.splits\<close>)
  then show "l \<noteq> Run T_Sensor \<Longrightarrow> th_sensor c' = th_sensor c" "l \<noteq> Run T_Fault \<Longrightarrow> th_fault c' = th_fault c" by simp_all
qed

lemma sensor_round_commits:
  assumes "thread_do rnd l c = Returns c'" and "sensor_before (th_sensor c)"
  shows "sensor_before (th_sensor c') \<or> Sensor_Cycle \<in> set (commits l c)"
proof (cases "l = Run T_Sensor")
  case True
  with assms show ?thesis
    by (cases "th_sensor c") (auto simp: task_sensor_main_def case_prod_unfold Let_def split: if_splits)
qed (use assms other_thread_pcs(1) in auto)

lemma fault_round_commits:
  assumes "thread_do rnd l c = Returns c'" and "fault_before (th_fault c)"
  shows "fault_before (th_fault c') \<or> Fault_Cycle \<in> set (commits l c)"
proof (cases "l = Run T_Fault")
  case True
  with assms show ?thesis by (cases "th_fault c") (auto simp: task_fault_main_def split: if_splits)
qed (use assms other_thread_pcs(2) in auto)

lemma thread_run_rounds:
  assumes "thread_run rnd c ls c'" and "thread_ok c" and "thread_rel rnd c a"
  shows "\<exists>as a'. sys_run rnd a as a' \<and> thread_rel rnd c' a' \<and>
    (sensor_before (th_sensor c) \<longrightarrow> sensor_before (th_sensor c') \<or> Sensor_Cycle \<in> set as) \<and>
    (fault_before (th_fault c) \<longrightarrow> fault_before (th_fault c') \<or> Fault_Cycle \<in> set as)"
  by (rule thread_run_simulated [OF assms, where R = "\<lambda>_ c' as.
      (sensor_before (th_sensor c) \<longrightarrow> sensor_before (th_sensor c') \<or> Sensor_Cycle \<in> set as) \<and>
      (fault_before (th_fault c) \<longrightarrow> fault_before (th_fault c') \<or> Fault_Cycle \<in> set as)"])
    (auto dest: sensor_round_commits fault_round_commits)

text \<open>A SHUTDOWN of the atomic system is one of the program, also in the middle of a section.\<close>

lemma ctx_rel_shutdown:
  assumes "ctx_rel rnd m se so fa C a" and "fm_state (fault_mgr (s_ctx a)) = BMS_STATE_SHUTDOWN"
  shows "fm_state (fault_mgr C) = BMS_STATE_SHUTDOWN"
proof -
  have "sensor_ctx se a = C \<Longrightarrow> fault_mgr C = fault_mgr (s_ctx a)" by (cases se) auto
  moreover have "soc_rel rnd so (s_ctx a) C \<Longrightarrow> fault_mgr C = fault_mgr (s_ctx a)" by (cases so) auto
  moreover have "fault_rel fa (s_ctx a) C \<Longrightarrow> fm_state (fault_mgr C) = BMS_STATE_SHUTDOWN"
    using assms(2) by (cases fa) (auto simp: evaluated_def fault_manager_evaluate_def)
  ultimately show ?thesis using assms by (cases "(rnd, m, se, so, fa, C, a)" rule: ctx_rel.cases) auto
qed

lemma ctx_rel_free: "ctx_rel rnd m se so fa C a \<Longrightarrow> \<not> (\<exists>t. m = Mx_Held t) \<Longrightarrow> C = s_ctx a"
  by (cases m) simp_all

text \<open>The reachable states of the program with double arithmetic, for a billion statements of the SoC task.\<close>

lemma reachable_related:
  assumes "thread_run round_f64 (thread_init round_f64 arg) ls c" and "count_list ls (Run T_Soc) \<le> 10 ^ 9"
  obtains a n where "thread_ok c" and "thread_rel round_f64 c a" and "sys_ok a" and "fp_ok n (soc (s_ctx a))" and "n < 10 ^ 8"
proof -
  obtain as a where a: "sys_run round_f64 (sys_init round_f64 arg) as a" "thread_rel round_f64 c a"
    "int (count_list ls (Run T_Soc)) = 11 * int (count_list as Soc_Cycle) + soc_phase (th_soc c)
       - soc_phase (th_soc (thread_init round_f64 arg))"
    using thread_run_refines [OF assms(1) thread_init_ok thread_init_rel] by blast
  have "soc_phase (th_soc (thread_init round_f64 arg)) = 0" by (simp add: thread_init_def case_prod_unfold Let_def)
  then have n: "count_list as Soc_Cycle < 10 ^ 8" using a(3) assms(2) soc_phase_ge [of "th_soc c"] by simp
  have "fp_ok (count_list as Soc_Cycle) (soc (s_ctx a))" using sys_run_fp_ok [OF a(1) sys_init_fp_ok] n by simp
  moreover have "sys_ok a" by (rule sys_run_ok [OF a(1) sys_init_ok])
  ultimately show ?thesis using that thread_run_ok [OF assms(1) thread_init_ok] a(2) n by blast
qed

end
