(* ===== verification/Closing.thy ===== *)
theory Closing
  imports Osal_Mutex
begin

text \<open>
  Programs that wind down. The steps of a machine return, block or are undefined; \<open>exec_steps\<close>
  executes a schedule. The locale \<open>closing_machine\<close> states what a shutdown protocol has to promise
  about single steps, after the request every counted step uses up the measure and somebody can step
  until the end, and gives what follows for schedules: a bound, no deadlock, and an end.
\<close>

fun exec_steps :: "('l \<Rightarrow> 's \<Rightarrow> 's outcome) \<Rightarrow> 'l list \<Rightarrow> 's \<Rightarrow> 's outcome" where
  "exec_steps step [] s = Returns s"
| "exec_steps step (l # ls) s = (case step l s of Returns s' \<Rightarrow> exec_steps step ls s' | r \<Rightarrow> r)"

lemma exec_steps_Cons_iff:
  "exec_steps step (l # ls) s = Returns s'' \<longleftrightarrow> (\<exists>s'. step l s = Returns s' \<and> exec_steps step ls s' = Returns s'')"
  by (simp split: outcome.splits)

lemma exec_steps_append_iff:
  "exec_steps step (xs @ ys) s = Returns s'' \<longleftrightarrow> (\<exists>s'. exec_steps step xs s = Returns s' \<and> exec_steps step ys s' = Returns s'')"
  by (induction xs arbitrary: s) (auto split: outcome.splits)

lemma exec_steps_snoc_iff:
  "exec_steps step (ls @ [l]) s = Returns s'' \<longleftrightarrow> (\<exists>s'. exec_steps step ls s = Returns s' \<and> step l s' = Returns s'')"
  by (simp only: exec_steps_append_iff exec_steps_Cons_iff) simp

text \<open>The invariant carries the number of counted steps so far, of which at most \<open>budget\<close> are defined.\<close>

locale closing_machine =
  fixes step :: "'l \<Rightarrow> 's \<Rightarrow> 's outcome"
    and counted :: "'l \<Rightarrow> bool"
    and inv :: "nat \<Rightarrow> 's \<Rightarrow> bool"
    and closing finished :: "'s \<Rightarrow> bool"
    and left :: "'s \<Rightarrow> nat"
    and budget :: nat
  assumes step_inv: "inv n s \<Longrightarrow> step l s = Returns s' \<Longrightarrow> inv (n + of_bool (counted l)) s'"
    and step_closing: "inv n s \<Longrightarrow> closing s \<Longrightarrow> step l s = Returns s' \<Longrightarrow> closing s'"
    and step_left: "inv n s \<Longrightarrow> closing s \<Longrightarrow> step l s = Returns s' \<Longrightarrow> left s' + of_bool (counted l) \<le> left s"
    and step_enabled: "inv n s \<Longrightarrow> n \<le> budget \<Longrightarrow> closing s \<Longrightarrow> \<not> finished s \<Longrightarrow> \<exists>l s'. counted l \<and> step l s = Returns s'"
begin

lemma schedule_bound:
  assumes "exec_steps step ls s = Returns s'" and "inv n s" and "closing s"
  shows "length (filter counted ls) + left s' \<le> left s"
  using assms
proof (induction ls arbitrary: n s)
  case (Cons l ls)
  then obtain s1 where s1: "step l s = Returns s1" "exec_steps step ls s1 = Returns s'"
    by (auto simp: exec_steps_Cons_iff simp del: exec_steps.simps)
  from Cons.IH [OF s1(2) step_inv [OF Cons.prems(2) s1(1)] step_closing [OF Cons.prems(2,3) s1(1)]]
    step_left [OF Cons.prems(2,3) s1(1)] show ?case by auto
qed simp

lemma reaches_end:
  assumes "inv n s" and "closing s" and "n + left s \<le> budget"
  shows "\<exists>ls s'. exec_steps step ls s = Returns s' \<and> finished s'"
  using assms
proof (induction "left s" arbitrary: n s rule: less_induct)
  case less
  show ?case
  proof (cases "finished s")
    case True
    then show ?thesis by (intro exI [of _ "[]"]) simp
  next
    case False
    obtain l s1 where l: "counted l" and s1: "step l s = Returns s1" using step_enabled [OF less.prems(1) _ less.prems(2) False] less.prems(3) by auto
    have dec: "Suc (left s1) \<le> left s" using step_left [OF less.prems(1,2) s1] l by simp
    have "inv (Suc n) s1" using step_inv [OF less.prems(1) s1] l by simp
    then obtain ls s' where "exec_steps step ls s1 = Returns s'" "finished s'"
      using less.hyps [of s1 "Suc n"] step_closing [OF less.prems(1,2) s1] dec less.prems(3) by auto
    then show ?thesis using s1 by (intro exI [of _ "l # ls"]) simp
  qed
qed

lemma winds_down:
  assumes "inv n s" and "closing s" and "n + left s \<le> budget"
  shows "\<And>ls s'. exec_steps step ls s = Returns s' \<Longrightarrow> length (filter counted ls) \<le> left s"
    and "finished s \<or> (\<exists>l s'. counted l \<and> step l s = Returns s')"
    and "\<exists>ls s'. exec_steps step ls s = Returns s' \<and> finished s'"
  using schedule_bound [OF _ assms(1,2)] step_enabled [OF assms(1) _ assms(2)] reaches_end [OF assms] assms(3)
  by (force dest: add_leD1 add_leD2)+

end

end
