(* ===== verification/Thread_Progress.thy ===== *)
theory Thread_Progress
  imports Thread_Refinement Closing
begin

text \<open>
  What the statement-level program promises: no call on the mutex and no conversion is undefined, the
  sections exclude each other, some thread can always go on until \<open>main\<close> returns, and after the
  shutdown request the program ends within a bounded number of statements, printing a status that no
  thread changes any more.
\<close>

section \<open>No undefined call\<close>

lemma task_not_undefined:
  assumes ok: "thread_ok c" and t: "t \<noteq> T_Main" "t \<in> set (th_handles c)" "\<not> task_exited c t"
  shows "th_lock c \<noteq> Mx_None"
proof -
  have "t \<notin> set (joined (th_main c))" "t \<in> set app_tasks" using ok t by (auto simp: thread_ok_def)
  then have "th_main c \<noteq> Ma_Exit" by auto
  then show ?thesis using ok by (simp add: thread_ok_def)
qed

lemma sensor_defined: "thread_ok c \<Longrightarrow> T_Sensor \<in> set (th_handles c) \<Longrightarrow> task_sensor_main c \<noteq> Undefined"
  using task_not_undefined [of c T_Sensor] section_owner [of c T_Sensor]
  by (cases "th_sensor c") (auto simp: task_sensor_main_def task_exited_def case_prod_unfold Let_def)

lemma fault_defined: "thread_ok c \<Longrightarrow> T_Fault \<in> set (th_handles c) \<Longrightarrow> task_fault_main c \<noteq> Undefined"
  using task_not_undefined [of c T_Fault] section_owner [of c T_Fault]
  by (cases "th_fault c") (auto simp: task_fault_main_def task_exited_def)

lemma can_defined: "thread_ok c \<Longrightarrow> T_Can \<in> set (th_handles c) \<Longrightarrow> task_can_main c \<noteq> Undefined"
  using task_not_undefined [of c T_Can] section_owner [of c T_Can]
  by (cases "th_can c") (auto simp: task_can_main_def task_exited_def)

lemma watchdog_defined: "thread_ok c \<Longrightarrow> T_Watchdog \<in> set (th_handles c) \<Longrightarrow> task_watchdog_main c \<noteq> Undefined"
  using task_not_undefined [of c T_Watchdog] section_owner [of c T_Watchdog]
  by (cases "th_watchdog c") (auto simp: task_watchdog_main_def task_exited_def)

lemma exited_outside: "task_exited c t \<Longrightarrow> \<not> in_section c t"
  by (cases t) (simp_all add: task_exited_def)

text \<open>Once \<open>main\<close> is past the joins, nobody else owns the mutex.\<close>

lemma joined_lock:
  assumes ok: "thread_ok c" and main: "joined (th_main c) = app_tasks" and held: "th_lock c = Mx_Held t"
  shows "t = T_Main"
proof (rule ccontr)
  assume t: "t \<noteq> T_Main"
  have sec: "in_section c t" using section_owner [OF ok] held by simp
  with ok t have "t \<in> set (th_handles c)" by (auto simp: thread_ok_def)
  moreover from this have "t \<in> set app_tasks" using ok by (auto simp: thread_ok_def)
  ultimately have "task_exited c t" using ok main by (auto simp: thread_ok_def)
  with sec show False using exited_outside by blast
qed

lemma main_defined:
  assumes ok: "thread_ok c"
  shows "main_thread c \<noteq> Undefined"
proof (cases "th_main c")
  case Ma_Destroy
  then have "th_lock c \<noteq> Mx_None" using ok by (simp add: thread_ok_def)
  moreover have "th_lock c \<noteq> Mx_Held t" for t
    using joined_lock [OF ok, of t] section_owner [OF ok, of T_Main] Ma_Destroy by auto
  ultimately have "th_lock c = Mx_Free" by (cases "th_lock c") auto
  with Ma_Destroy show ?thesis by (simp add: main_thread_def)
next
  case Ma_Unlock
  then show ?thesis using section_owner [OF ok, of T_Main] by (simp add: main_thread_def)
next
  case Ma_Lock
  then show ?thesis using ok by (simp add: main_thread_def thread_ok_def)
qed (auto simp: main_thread_def split: list.splits if_splits)

lemma soc_update_defined:
  assumes "fp_ok n (soc A)"
  shows "\<exists>e. soc_updated round_f64 A = Some e"
  unfolding soc_updated_def by (rule f64.update_total [OF fp_ok_signs [OF assms]])

lemma soc_percent_defined:
  assumes "soc_updated round_f64 A = Some e"
  shows "\<exists>p. soc_estimator_get_percent_x2 round_f64 e = Some p"
  using soc_in_range_update [of round_f64] assms f64.percent_x2_value(1) [of e]
  by (auto simp: soc_updated_def soc_in_range_def)

lemma soc_defined:
  assumes ok: "thread_ok c" and t: "T_Soc \<in> set (th_handles c)"
    and rel: "thread_rel round_f64 c a" and fp: "fp_ok n (soc (s_ctx a))"
  shows "task_soc_main round_f64 c \<noteq> Undefined"
proof (cases "th_soc c")
  case (So_Update r)
  then have "th_lock c = Mx_Held T_Soc" using section_owner [OF ok, of T_Soc] by simp
  then have "th_ctx c = s_ctx a" "r = latest_reading (s_ctx a)" using rel So_Update by (simp_all add: thread_rel_def)
  with So_Update soc_update_defined [OF fp] show ?thesis by (auto simp: task_soc_main_def soc_updated_def)
next
  case So_Percent
  then have "th_lock c = Mx_Held T_Soc" using section_owner [OF ok, of T_Soc] by simp
  then obtain e where "soc_updated round_f64 (s_ctx a) = Some e" "soc (th_ctx c) = e"
    using rel So_Percent by (auto simp: thread_rel_def)
  with So_Percent soc_percent_defined show ?thesis by (auto simp: task_soc_main_def)
qed (use task_not_undefined [OF ok _ t] section_owner [OF ok, of T_Soc] in
  \<open>auto simp: task_soc_main_def task_exited_def\<close>)

lemma thread_do_defined:
  assumes "thread_ok c" and "thread_rel round_f64 c a" and "fp_ok n (soc (s_ctx a))"
  shows "thread_do round_f64 l c \<noteq> Undefined"
  using assms sensor_defined soc_defined fault_defined can_defined watchdog_defined main_defined
  by (cases "(round_f64, l, c)" rule: thread_do.cases) (auto split: main_pc.splits list.splits)

section \<open>No overflow\<close>

lemma soc_main_without_overflow:
  assumes ok: "thread_ok c" and rel: "thread_rel round_f64 c a" and fp: "fp_ok n (soc (s_ctx a))" and n: "n < 10 ^ 8"
  shows "task_soc_main (binary64 overflow) c = task_soc_main round_f64 c"
proof (cases "th_soc c")
  case (So_Update r)
  then have "th_lock c = Mx_Held T_Soc" using section_owner [OF ok, of T_Soc] by simp
  then have "th_ctx c = s_ctx a" using rel So_Update by (simp add: thread_rel_def)
  then show ?thesis
    using So_Update update_without_overflow [OF fp n, of TASK_PERIOD_SOC_MS] by (simp add: task_soc_main_def TASK_PERIOD_SOC_MS_def)
next
  case So_Percent
  then have "th_lock c = Mx_Held T_Soc" using section_owner [OF ok, of T_Soc] by simp
  then have "soc_updated round_f64 (s_ctx a) = Some (soc (th_ctx c))" using rel So_Percent by (auto simp: thread_rel_def)
  then have "soc_in_range (soc (th_ctx c))" using soc_in_range_update [of round_f64] by (auto simp: soc_updated_def)
  then show ?thesis
    using So_Percent percent_without_overflow [of "soc (th_ctx c)" overflow] by (simp add: task_soc_main_def soc_in_range_def)
qed (simp_all add: task_soc_main_def)

lemma thread_do_without_overflow:
  assumes "thread_ok c" "thread_rel round_f64 c a" "fp_ok n (soc (s_ctx a))" "n < 10 ^ 8"
  shows "thread_do (binary64 overflow) l c = thread_do round_f64 l c"
  by (cases "(round_f64, l, c)" rule: thread_do.cases) (simp_all add: soc_main_without_overflow [OF assms])

section \<open>No deadlock\<close>

text \<open>A thread blocks only at a lock call while another owns the mutex, at a join, or when it has exited.\<close>

lemma task_blocks:
  assumes "t \<in> set (th_handles c)" and "t \<noteq> T_Main" and "thread_do rnd (Run t) c = Blocks"
  shows "task_exited c t \<or> (\<not> in_section c t \<and> (\<exists>t'. th_lock c = Mx_Held t'))"
proof (cases t)
  case T_Sensor
  with assms show ?thesis by (cases "th_sensor c") (auto simp: task_sensor_main_def task_exited_def case_prod_unfold Let_def)
next
  case T_Soc
  with assms show ?thesis by (cases "th_soc c") (auto simp: task_soc_main_def task_exited_def)
next
  case T_Fault
  with assms show ?thesis by (cases "th_fault c") (auto simp: task_fault_main_def task_exited_def)
next
  case T_Can
  with assms show ?thesis by (cases "th_can c") (auto simp: task_can_main_def task_exited_def split: if_splits)
next
  case T_Watchdog
  with assms show ?thesis by (cases "th_watchdog c") (auto simp: task_watchdog_main_def task_exited_def)
qed (use assms in simp)

lemma main_blocks:
  assumes "main_thread c = Blocks"
  shows "th_main c = Ma_Exit \<or> (\<exists>t. th_lock c = Mx_Held t) \<or> (\<exists>t\<in>set (th_handles c). \<not> task_exited c t)"
  using assms by (cases "th_main c") (auto simp: main_thread_def split: list.splits if_splits)

lemma some_thread_runs:
  assumes ok: "thread_ok c" and alive: "th_main c \<noteq> Ma_Exit"
  shows "\<exists>t. thread_do rnd (Run t) c \<noteq> Blocks"
proof (cases "\<exists>t. th_lock c = Mx_Held t")
  case True
  then obtain t where t: "th_lock c = Mx_Held t" ..
  then have sec: "in_section c t" using section_owner [OF ok] by simp
  show ?thesis
  proof (cases "t = T_Main")
    case True
    with sec have "main_thread c \<noteq> Blocks" by (auto simp: main_thread_def)
    with True show ?thesis by (intro exI [of _ T_Main]) simp
  next
    case False
    then have "t \<in> set (th_handles c)" using ok sec by (auto simp: thread_ok_def)
    with False sec exited_outside [of c t] task_blocks [of t c rnd] show ?thesis by blast
  qed
next
  case False
  show ?thesis
  proof (cases "main_thread c = Blocks")
    case True
    then obtain t where t: "t \<in> set (th_handles c)" "\<not> task_exited c t" using main_blocks alive False by blast
    then have "t \<noteq> T_Main" using ok by (auto simp: thread_ok_def app_tasks_def)
    with t False task_blocks [of t c rnd] show ?thesis by blast
  next
    case no_block: False
    then show ?thesis by (intro exI [of _ T_Main]) simp
  qed
qed

section \<open>Shutdown\<close>

text \<open>The largest number of statements a thread has left once the shutdown flag is set.\<close>

fun sensor_left :: "sensor_pc \<Rightarrow> nat" where
  "sensor_left Se_Exit = 0" | "sensor_left Se_Test = 1" | "sensor_left Se_Delay = 2" | "sensor_left Se_Unlock = 3"
| "sensor_left Se_Stamp = 4" | "sensor_left (Se_Publish _) = 5" | "sensor_left (Se_Lock _) = 6" | "sensor_left Se_Step = 7"

fun soc_left :: "soc_pc \<Rightarrow> nat" where
  "soc_left So_Exit = 0" | "soc_left So_Test = 1" | "soc_left So_Delay = 2" | "soc_left So_Unlock = 3"
| "soc_left So_Stamp = 4" | "soc_left So_State = 5" | "soc_left So_Percent = 6" | "soc_left (So_Current _) = 7"
| "soc_left (So_Voltage _) = 8" | "soc_left (So_Update _) = 9" | "soc_left So_Read = 10" | "soc_left So_Lock = 11"

fun fault_left :: "fault_pc \<Rightarrow> nat" where
  "fault_left Fa_Exit = 0" | "fault_left Fa_Test = 1" | "fault_left Fa_Delay = 2" | "fault_left (Fa_Log _ _) = 3"
| "fault_left (Fa_Unlock _ _) = 4" | "fault_left (Fa_Stamp _ _ _) = 5" | "fault_left (Fa_Faults _ _) = 6"
| "fault_left (Fa_State _) = 7" | "fault_left (Fa_Evaluate _ _) = 8" | "fault_left (Fa_Read _) = 9"
| "fault_left (Fa_Lock _) = 10" | "fault_left Fa_Tick = 11"

fun can_left :: "can_pc \<Rightarrow> nat" where
  "can_left Ca_Exit = 0" | "can_left Ca_Test = 1" | "can_left Ca_Delay = 2" | "can_left (Ca_Send_Fault _ _) = 3"
| "can_left (Ca_Send_Cells _ _ _) = 4" | "can_left (Ca_Send_Status _ _ _ _) = 5" | "can_left (Ca_Unlock _ _ _ _) = 6"
| "can_left (Ca_Severity _ _ _) = 7" | "can_left (Ca_Faults _ _) = 8" | "can_left (Ca_Reading _) = 9"
| "can_left Ca_Status = 10" | "can_left Ca_Lock = 11"

fun watchdog_left :: "watchdog_thread_pc \<Rightarrow> nat" where
  "watchdog_left Wa_Exit = 0" | "watchdog_left Wa_Test = 1" | "watchdog_left Wa_Start = 2" | "watchdog_left Wa_Delay = 2"
| "watchdog_left Wa_Unlock_Report = 3" | "watchdog_left (Wa_Report _) = 4" | "watchdog_left (Wa_Lock_Report _) = 5"
| "watchdog_left (Wa_Log _) = 6" | "watchdog_left (Wa_Decide _ _ _ _) = 7" | "watchdog_left (Wa_Unlock _ _ _ _) = 8"
| "watchdog_left (Wa_Fault _ _ _) = 9" | "watchdog_left (Wa_Soc _ _) = 10" | "watchdog_left (Wa_Sensor _) = 11"
| "watchdog_left (Wa_Lock _) = 12" | "watchdog_left Wa_Tick = 13"

fun main_left :: "main_pc \<Rightarrow> nat" where
  "main_left Ma_Exit = 0" | "main_left Ma_Destroy = 1" | "main_left Ma_Unlock = 2" | "main_left Ma_Print = 3"
| "main_left Ma_Lock = 4" | "main_left (Ma_Join ts) = 5 + length ts" | "main_left _ = 0"

definition statements_left :: "bms_threads \<Rightarrow> nat" where
  "statements_left c = sensor_left (th_sensor c) + soc_left (th_soc c) + fault_left (th_fault c) +
     can_left (th_can c) + watchdog_left (th_watchdog c) + main_left (th_main c)"

text \<open>The flag is set exactly from the moment \<open>main\<close> starts to join.\<close>

fun main_joining :: "main_pc \<Rightarrow> bool" where
  "main_joining (Ma_Create _) = False" | "main_joining Ma_Sleep = False" | "main_joining Ma_Request = False"
| "main_joining _ = True"

definition flag_ok :: "bms_threads \<Rightarrow> bool" where
  "flag_ok c \<longleftrightarrow> (th_shutdown c \<longleftrightarrow> main_joining (th_main c)) \<and>
     (\<forall>ts. th_main c = Ma_Join ts \<longrightarrow> length ts \<le> 5)"

lemma task_flag:
  assumes "thread_do rnd (Run t) c = Returns c'" and "t \<noteq> T_Main"
  shows "th_shutdown c' = th_shutdown c" and "th_printed c' = th_printed c"
  using assms
  by (cases t; auto simp: task_sensor_main_def task_soc_main_def task_fault_main_def task_can_main_def
      task_watchdog_main_def case_prod_unfold Let_def
      split: if_splits sensor_pc.splits soc_pc.splits fault_pc.splits can_pc.splits watchdog_thread_pc.splits)+

lemma main_flag: "main_thread c = Returns c' \<Longrightarrow> flag_ok c \<Longrightarrow> flag_ok c'"
  by (auto simp: main_thread_def flag_ok_def app_tasks_def split: main_pc.splits list.splits if_splits)

lemma thread_do_flag:
  assumes "thread_do rnd l c = Returns c'" and "flag_ok c"
  shows "flag_ok c'"
proof (cases l)
  case (Run t)
  show ?thesis
  proof (cases "t = T_Main")
    case False
    with assms Run task_flag(1) [of rnd t c c'] Run_cases(3) [of rnd t c c'] show ?thesis
      by (simp add: flag_ok_def pcs_kept_def)
  qed (use assms Run main_flag in simp)
qed (use assms in \<open>auto simp: flag_ok_def split: main_pc.splits list.splits\<close>)

lemma thread_init_flag: "flag_ok (thread_init rnd arg)"
  by (simp add: flag_ok_def thread_init_def case_prod_unfold Let_def)

lemma thread_run_flag: "thread_run rnd c ls c' \<Longrightarrow> flag_ok c \<Longrightarrow> flag_ok c'"
  by (induction rule: thread_run.induct) (auto intro: thread_do_flag)

text \<open>After the request every statement brings its thread closer to its end.\<close>

lemma sensor_decreases: "task_sensor_main c = Returns c' \<Longrightarrow> th_shutdown c \<Longrightarrow> statements_left c' < statements_left c"
  by (cases "th_sensor c") (auto simp: task_sensor_main_def statements_left_def case_prod_unfold Let_def)

lemma soc_decreases: "task_soc_main rnd c = Returns c' \<Longrightarrow> th_shutdown c \<Longrightarrow> statements_left c' < statements_left c"
  by (cases "th_soc c") (auto simp: task_soc_main_def statements_left_def)

lemma fault_decreases: "task_fault_main c = Returns c' \<Longrightarrow> th_shutdown c \<Longrightarrow> statements_left c' < statements_left c"
  by (cases "th_fault c") (auto simp: task_fault_main_def statements_left_def)

lemma can_decreases: "task_can_main c = Returns c' \<Longrightarrow> th_shutdown c \<Longrightarrow> statements_left c' < statements_left c"
  by (cases "th_can c") (auto simp: task_can_main_def statements_left_def)

lemma watchdog_decreases: "task_watchdog_main c = Returns c' \<Longrightarrow> th_shutdown c \<Longrightarrow> statements_left c' < statements_left c"
  by (cases "th_watchdog c") (auto simp: task_watchdog_main_def statements_left_def)

lemma main_decreases: "main_thread c = Returns c' \<Longrightarrow> main_joining (th_main c) \<Longrightarrow> statements_left c' < statements_left c"
  by (auto simp: main_thread_def statements_left_def split: main_pc.splits list.splits if_splits)

lemma statement_decreases:
  assumes "thread_do rnd (Run t) c = Returns c'" and "th_shutdown c" and "flag_ok c"
  shows "statements_left c' < statements_left c" and "th_shutdown c'"
proof -
  show "statements_left c' < statements_left c"
    using assms sensor_decreases soc_decreases fault_decreases can_decreases watchdog_decreases main_decreases
    by (cases t) (auto simp: flag_ok_def split: if_splits)
  show "th_shutdown c'"
    using assms task_flag(1) [of rnd t c c'] by (cases "t = T_Main")
      (auto simp: main_thread_def split: main_pc.splits list.splits if_splits)
qed

fun is_statement :: "thread_label \<Rightarrow> bool" where
  "is_statement (Run _) = True" | "is_statement _ = False"

lemma other_label_left:
  assumes "thread_do rnd l c = Returns c'" and "\<not> is_statement l" and "th_shutdown c" and "flag_ok c"
  shows "statements_left c' = statements_left c" and "th_shutdown c'"
  using assms by (cases l; auto simp: statements_left_def flag_ok_def split: main_pc.splits list.splits)+

lemma statements_left_le:
  assumes "flag_ok c"
  shows "statements_left c \<le> 63"
proof -
  have "sensor_left pc \<le> 7" for pc by (cases pc) simp_all
  moreover have "soc_left pc \<le> 11" for pc by (cases pc) simp_all
  moreover have "fault_left pc \<le> 11" for pc by (cases pc) simp_all
  moreover have "can_left pc \<le> 11" for pc by (cases pc) simp_all
  moreover have "watchdog_left pc \<le> 13" for pc by (cases pc) simp_all
  moreover have "main_left (th_main c) \<le> 10" using assms by (cases "th_main c") (auto simp: flag_ok_def)
  ultimately show ?thesis
    unfolding statements_left_def
    by (rule order_trans [OF add_mono [OF add_mono [OF add_mono [OF add_mono [OF add_mono]]]]]) simp
qed

section \<open>The final report\<close>

text \<open>Once printed, the status stays what it is: no task is left to change it.\<close>

definition report_ok :: "bms_threads \<Rightarrow> bool" where
  "report_ok c \<longleftrightarrow> (th_main c = Ma_Unlock \<or> th_main c = Ma_Destroy \<or> th_main c = Ma_Exit \<longrightarrow>
     th_printed c = Some (status (th_ctx c), active_faults (fault_mgr (th_ctx c))))"

lemma joined_no_task_runs:
  assumes "thread_ok c" and "joined (th_main c) = app_tasks" and "t \<noteq> T_Main"
  shows "thread_do rnd (Run t) c \<noteq> Returns c'"
proof
  assume step: "thread_do rnd (Run t) c = Returns c'"
  have "t \<in> set (th_handles c)" "\<not> task_exited c t" using Run_cases [OF step assms(3)] by simp_all
  with assms(1,2) show False by (auto simp: thread_ok_def)
qed

lemma thread_do_report:
  assumes ok: "thread_ok c" and step: "thread_do rnd l c = Returns c'" and "report_ok c"
  shows "report_ok c'"
proof (cases l)
  case (Run t)
  show ?thesis
  proof (cases "t = T_Main")
    case True
    with Run step assms(3) show ?thesis
      by (auto simp: main_thread_def report_ok_def split: main_pc.splits list.splits if_splits)
  next
    case False
    then have main: "th_main c' = th_main c" using step Run Run_cases(3) [of rnd t c c'] by (simp add: pcs_kept_def)
    have "joined (th_main c) \<noteq> app_tasks" using joined_no_task_runs [OF ok _ False] step Run by blast
    then show ?thesis by (auto simp: report_ok_def main)
  qed
qed (use assms in \<open>auto simp: report_ok_def split: main_pc.splits list.splits\<close>)

lemma thread_run_report: "thread_run rnd c ls c' \<Longrightarrow> thread_ok c \<Longrightarrow> report_ok c \<Longrightarrow> report_ok c'"
  by (induction rule: thread_run.induct) (auto intro: thread_do_report thread_run_ok)

section \<open>The program winds down\<close>

lemma thread_run_exec: "thread_run rnd c ls c' \<longleftrightarrow> exec_steps (thread_do rnd) ls c = Returns c'"
proof
  show "thread_run rnd c ls c' \<Longrightarrow> exec_steps (thread_do rnd) ls c = Returns c'"
    by (induction rule: thread_run.induct) (auto simp: exec_steps_snoc_iff)
  show "exec_steps (thread_do rnd) ls c = Returns c' \<Longrightarrow> thread_run rnd c ls c'"
    by (induction ls arbitrary: c' rule: rev_induct) (auto simp: exec_steps_snoc_iff intro: thread_run.intros)
qed

text \<open>Reachable with at most \<open>n\<close> statements of the SoC task.\<close>

definition thread_reach :: "nat \<Rightarrow> bms_threads \<Rightarrow> bool" where
  "thread_reach n c \<longleftrightarrow>
     (\<exists>arg ls. thread_run round_f64 (thread_init round_f64 arg) ls c \<and> count_list ls (Run T_Soc) \<le> n)"

lemma thread_reach_flag: "thread_reach n c \<Longrightarrow> flag_ok c"
  using thread_run_flag thread_init_flag by (auto simp: thread_reach_def)

interpretation thread_closing: closing_machine "thread_do round_f64" is_statement thread_reach th_shutdown
  "\<lambda>c. th_main c = Ma_Exit" statements_left "10 ^ 9"
proof
  fix n c l c'
  assume r: "thread_reach n c" and step: "thread_do round_f64 l c = Returns c'"
  show "thread_reach (n + of_bool (is_statement l)) c'"
    using r step thread_run.thread_snoc unfolding thread_reach_def by (cases l) fastforce+
  assume "th_shutdown c"
  with step show "th_shutdown c'" "statements_left c' + of_bool (is_statement l) \<le> statements_left c"
    using statement_decreases [of round_f64 _ c c'] other_label_left [of round_f64 l c c'] thread_reach_flag [OF r]
    by (cases l; auto simp: Suc_le_eq)+
next
  fix n c
  assume "thread_reach n c" "n \<le> 10 ^ 9" "th_main c \<noteq> Ma_Exit"
  then obtain arg ls where run: "thread_run round_f64 (thread_init round_f64 arg) ls c" "count_list ls (Run T_Soc) \<le> 10 ^ 9"
    unfolding thread_reach_def by fastforce
  obtain a n where r: "thread_ok c" "thread_rel round_f64 c a" "fp_ok n (soc (s_ctx a))"
    by (rule reachable_related [OF run])
  obtain t where "thread_do round_f64 (Run t) c \<noteq> Blocks"
    using some_thread_runs [OF r(1) \<open>th_main c \<noteq> Ma_Exit\<close>] by blast
  then show "\<exists>l c'. is_statement l \<and> thread_do round_f64 l c = Returns c'"
    using thread_do_defined [OF r, of "Run t"] by (intro exI [of _ "Run t"]) (cases "thread_do round_f64 (Run t) c"; simp)
qed

section \<open>Properties\<close>

text \<open>
  The program with its mutex refines the system of atomic sections: for every interleaving of the
  statements of the six threads there is a run of the atomic system with the same time, whose context is
  the program's context whenever nobody owns the mutex, and whose bus carries what the program has sent
  so far followed by the frames of the round in progress. So what holds of the atomic system in every
  interleaving holds of the program.
\<close>

lemma statements_refine_sections:
  assumes "thread_run rnd (thread_init rnd arg) ls c"
  shows "\<exists>as a. sys_run rnd (sys_init rnd arg) as a \<and> s_tick a = th_tick c \<and>
    (\<exists>fs. s_bus a = th_bus c @ fs) \<and> ((\<exists>t. th_lock c = Mx_Held t) \<or> th_ctx c = s_ctx a)"
proof -
  obtain as a where "sys_run rnd (sys_init rnd arg) as a" "thread_rel rnd c a"
    using thread_run_refines [OF assms thread_init_ok thread_init_rel] by blast
  moreover from this(2) have "(\<exists>t. th_lock c = Mx_Held t) \<or> th_ctx c = s_ctx a"
    using ctx_rel_free unfolding thread_rel_def by blast
  ultimately show ?thesis by (intro exI [of _ as] exI [of _ a]) (simp add: thread_rel_def)
qed

text \<open>
  Locking discipline, with double arithmetic and for up to a billion statements of the SoC task:
  in every reachable state at most one thread is between its lock and unlock calls, the thread that
  is there owns the mutex, and no thread's next statement is undefined: no unlock without ownership, no
  lock of a destroyed mutex, no destruction of an owned one, no failing conversion.
\<close>

lemma sections_exclude_each_other:
  assumes "thread_run round_f64 (thread_init round_f64 arg) ls c" and "count_list ls (Run T_Soc) \<le> 10 ^ 9"
  shows "(in_section c t \<longrightarrow> th_lock c = Mx_Held t) \<and> (in_section c t \<and> in_section c t' \<longrightarrow> t = t') \<and>
    thread_do round_f64 l c \<noteq> Undefined"
proof -
  obtain a n where r: "thread_ok c" "thread_rel round_f64 c a" "fp_ok n (soc (s_ctx a))"
    by (rule reachable_related [OF assms])
  then show ?thesis using section_owner [OF r(1), of t] section_owner [OF r(1), of t'] thread_do_defined [OF r] by auto
qed

text \<open>
  The program ends: from every reachable state after the shutdown request, no matter how the threads
  are scheduled, at most 63 more statements are executed, as long as \<open>main\<close> has not returned
  some thread can execute one (no deadlock), and so \<open>main\<close> returns.
\<close>

lemma shutdown_terminates:
  assumes "thread_run round_f64 (thread_init round_f64 arg) ls c" and "count_list ls (Run T_Soc) \<le> 9 * 10 ^ 8"
    and "th_shutdown c"
  shows "(\<forall>ls' c'. thread_run round_f64 c ls' c' \<longrightarrow> length (filter is_statement ls') \<le> 63) \<and>
    (th_main c = Ma_Exit \<or> (\<exists>t c'. thread_do round_f64 (Run t) c = Returns c')) \<and>
    (\<exists>ls' c'. thread_run round_f64 c ls' c' \<and> th_main c' = Ma_Exit)"
proof -
  note left = statements_left_le [OF thread_run_flag [OF assms(1) thread_init_flag]]
  have "thread_reach (9 * 10 ^ 8) c" using assms(1,2) by (auto simp: thread_reach_def)
  note down = thread_closing.winds_down [OF this assms(3)]
  have "length (filter is_statement ls') \<le> 63" if "thread_run round_f64 c ls' c'" for ls' c'
    using down(1) [of ls' c'] that left by (simp add: thread_run_exec)
  moreover have "th_main c = Ma_Exit \<or> (\<exists>t c'. thread_do round_f64 (Run t) c = Returns c')"
    using down(2) left by (auto elim!: is_statement.elims)
  moreover have "\<exists>ls' c'. thread_run round_f64 c ls' c' \<and> th_main c' = Ma_Exit"
    using down(3) left by (simp add: thread_run_exec)
  ultimately show ?thesis by blast
qed

text \<open>
  What \<open>main\<close> prints is the final state: when it returns, every created task has exited, the
  mutex is destroyed and nobody can use it any more, and the printed status and fault mask are those of
  the context, which is the context of a run of the atomic system.
\<close>

lemma final_report_is_final:
  assumes "thread_run rnd (thread_init rnd arg) ls c" and "th_main c = Ma_Exit"
  shows "(\<forall>t\<in>set (th_handles c). task_exited c t) \<and> th_lock c = Mx_None \<and>
    (\<forall>t c'. thread_do rnd (Run t) c \<noteq> Returns c') \<and>
    (\<exists>as a. sys_run rnd (sys_init rnd arg) as a \<and> th_ctx c = s_ctx a \<and>
      th_printed c = Some (status (s_ctx a), active_faults (fault_mgr (s_ctx a))))"
proof -
  have ok: "thread_ok c" by (rule thread_run_ok [OF assms(1) thread_init_ok])
  have "report_ok (thread_init rnd arg)" by (simp add: report_ok_def thread_init_def case_prod_unfold Let_def)
  then have "report_ok c" using thread_run_report [OF assms(1) thread_init_ok] by blast
  then have printed: "th_printed c = Some (status (th_ctx c), active_faults (fault_mgr (th_ctx c)))"
    using assms(2) by (simp add: report_ok_def)
  have lock: "th_lock c = Mx_None" using ok assms(2) by (simp add: thread_ok_def)
  obtain as a where a: "sys_run rnd (sys_init rnd arg) as a" "thread_rel rnd c a"
    using thread_run_refines [OF assms(1) thread_init_ok thread_init_rel] by blast
  have "th_ctx c = s_ctx a" using a(2) lock by (simp add: thread_rel_def)
  moreover have "thread_do rnd (Run t) c \<noteq> Returns c'" for t c'
    using joined_no_task_runs [OF ok, of t] assms(2) by (cases "t = T_Main") (auto simp: main_thread_def)
  moreover have "\<forall>t\<in>set (th_handles c). task_exited c t" using ok assms(2) by (auto simp: thread_ok_def)
  ultimately show ?thesis using lock printed a(1) by auto
qed

end
