(* ===== verification/Logger.thy ===== *)
theory Logger
  imports Osal_Mutex
begin

text \<open>
  The logger of \<open>src/util/logger.c\<close>: the line format, the life of its mutex, and concurrent calls.
  A call prints its line in three pieces under the mutex; threads interleave between the statements.
  The message, already formatted by \<open>vprintf\<close>, is an argument.
\<close>

section \<open>Levels and lines\<close>

datatype log_level_t = LOG_DEBUG | LOG_INFO | LOG_WARN | LOG_ERROR

fun level_str :: "log_level_t \<Rightarrow> string" where
  "level_str LOG_DEBUG = ''DEBUG''"
| "level_str LOG_INFO = ''INFO ''"
| "level_str LOG_WARN = ''WARN ''"
| "level_str LOG_ERROR = ''ERROR''"

text \<open>Decimal digits of a number, as \<open>%u\<close> prints them.\<close>

fun decimal :: "nat \<Rightarrow> string" where
  "decimal n = (if n < 10 then [char_of (48 + n)] else decimal (n div 10) @ [char_of (48 + n mod 10)])"

declare decimal.simps [simp del]

definition pad_left :: "nat \<Rightarrow> string \<Rightarrow> string" where
  "pad_left w s = replicate (w - length s) (CHR '' '') @ s"

definition pad_right :: "nat \<Rightarrow> string \<Rightarrow> string" where
  "pad_right w s = s @ replicate (w - length s) (CHR '' '')"

definition log_header :: "u32 \<Rightarrow> log_level_t \<Rightarrow> string \<Rightarrow> string" where
  "log_header t level task =
     ''['' @ pad_left 6 (decimal (unat t)) @ '' ms] '' @ level_str level @ '' '' @ pad_right 8 task @ '' ''"

text \<open>The line a call prints.\<close>

definition log_msg :: "u32 \<Rightarrow> log_level_t \<Rightarrow> string \<Rightarrow> string \<Rightarrow> string" where
  "log_msg t level task msg = log_header t level task @ msg @ ''\<newline>''"

section \<open>The logger's mutex\<close>

text \<open>The pointer \<open>g_log_lock\<close> is null before the initialisation and after the shutdown.\<close>

definition logger_init :: "bool \<Rightarrow> 't osal_mutex option outcome" where
  "logger_init calloc_ok = map_outcome Some (osal_mutex_create calloc_ok)"

definition logger_shutdown :: "'t osal_mutex option \<Rightarrow> 't osal_mutex option outcome" where
  "logger_shutdown g_log_lock = map_outcome (\<lambda>m. None) (osal_mutex_destroy g_log_lock)"

text \<open>The logger can be shut down after it was initialised, and once more without effect.\<close>

lemma logger_life:
  "logger_init True = Returns g \<Longrightarrow> logger_shutdown g = Returns None"
  "logger_shutdown None = Returns None"
  by (auto simp: logger_init_def logger_shutdown_def osal_mutex_create_def)

section \<open>Concurrent calls\<close>

text \<open>
  Where a thread is in its call, with the pieces still to print: the header, made from the tick that is
  read before the lock is taken, the message and the line end.
\<close>

datatype log_pc = Lg_Idle | Lg_Lock string string | Lg_Header string string | Lg_Message string string | Lg_Newline string | Lg_Unlock

record 't log_state =
  lg_lock :: "'t osal_mutex option"
  lg_pc :: "'t \<Rightarrow> log_pc"
  lg_out :: string

datatype 't log_label = Log_Call 't u32 log_level_t string string | Log_Step 't

definition with_lock :: "('t osal_mutex \<Rightarrow> 't osal_mutex outcome) \<Rightarrow> 't log_state \<Rightarrow> log_pc \<Rightarrow> 't \<Rightarrow> 't log_state outcome" where
  "with_lock f s pc t =
     (case lg_lock s of None \<Rightarrow> Undefined
      | Some m \<Rightarrow> map_outcome (\<lambda>m'. s\<lparr>lg_lock := Some m', lg_pc := (lg_pc s)(t := pc)\<rparr>) (f m))"

fun log_do :: "'t log_label \<Rightarrow> 't log_state \<Rightarrow> 't log_state outcome" where
  "log_do (Log_Call t tick level task msg) s =
     (if lg_pc s t \<noteq> Lg_Idle then Blocks
      else Returns (s\<lparr>lg_pc := (lg_pc s)(t := Lg_Lock (log_header tick level task) msg)\<rparr>))"
| "log_do (Log_Step t) s = (case lg_pc s t of
     Lg_Idle \<Rightarrow> Blocks
   | Lg_Lock h m \<Rightarrow> with_lock (osal_mutex_lock t) s (Lg_Header h m) t
   | Lg_Header h m \<Rightarrow> Returns (s\<lparr>lg_out := lg_out s @ h, lg_pc := (lg_pc s)(t := Lg_Message h m)\<rparr>)
   | Lg_Message h m \<Rightarrow> Returns (s\<lparr>lg_out := lg_out s @ m, lg_pc := (lg_pc s)(t := Lg_Newline (h @ m))\<rparr>)
   | Lg_Newline l \<Rightarrow> Returns (s\<lparr>lg_out := lg_out s @ ''\<newline>'', lg_pc := (lg_pc s)(t := Lg_Unlock)\<rparr>)
   | Lg_Unlock \<Rightarrow> with_lock (osal_mutex_unlock t) s Lg_Idle t)"

inductive log_run :: "'t log_state \<Rightarrow> 't log_label list \<Rightarrow> 't log_state \<Rightarrow> bool" where
  log_nil: "log_run s [] s"
| log_snoc: "log_run s ls s' \<Longrightarrow> log_do l s' = Returns s'' \<Longrightarrow> log_run s (ls @ [l]) s''"

definition log_start :: "'t log_state" where
  "log_start = \<lparr>lg_lock = Some Mx_Free, lg_pc = (\<lambda>t. Lg_Idle), lg_out = []\<rparr>"

section \<open>Columns\<close>

lemma length_level_str [simp]: "length (level_str l) = 5"
  by (cases l) simp_all

lemma length_decimal: "0 < k \<Longrightarrow> n < 10 ^ k \<Longrightarrow> length (decimal n) \<le> k"
proof (induction n arbitrary: k rule: decimal.induct)
  case (1 n)
  show ?case
  proof (cases "n < 10")
    case True
    then show ?thesis using 1 by (simp add: decimal.simps)
  next
    case False
    then obtain j where k: "k = Suc j" "0 < j" using 1(3) by (cases k; cases "k = 1") auto
    have "n div 10 < 10 ^ j" using 1(3) by (simp add: k(1) less_mult_imp_div_less mult.commute)
    with 1(1) [OF False k(2)] show ?thesis using False by (simp add: decimal.simps [of n] k(1))
  qed
qed

text \<open>
  As long as the tick has at most six digits and the task name at most eight characters, the message
  starts in a fixed column.
\<close>

lemma log_message_column:
  assumes "unat t < 10 ^ 6" and "length task \<le> 8"
  shows "drop 27 (log_msg t level task msg) = msg @ ''\<newline>''"
proof -
  let ?p = "log_header t level task"
  have "length (decimal (unat t)) \<le> 6" using assms(1) by (intro length_decimal) simp_all
  then have "length ?p = 27" using assms(2) by (simp add: log_header_def pad_left_def pad_right_def)
  moreover have "log_msg t level task msg = ?p @ (msg @ ''\<newline>'')" by (simp add: log_msg_def)
  ultimately show ?thesis by (metis append_eq_conv_conj)
qed

section \<open>Lines do not mix\<close>

fun in_line :: "log_pc \<Rightarrow> bool" where
  "in_line Lg_Idle = False" | "in_line (Lg_Lock _ _) = False" | "in_line _ = True"

text \<open>What a thread has printed of its current line.\<close>

fun printed_part :: "log_pc \<Rightarrow> string" where
  "printed_part (Lg_Message h m) = h" | "printed_part (Lg_Newline l) = l" | "printed_part _ = []"

text \<open>The line a thread is working on, as long as it is not complete.\<close>

fun current_line :: "log_pc \<Rightarrow> string option" where
  "current_line (Lg_Lock h m) = Some (h @ m @ ''\<newline>'')" | "current_line (Lg_Header h m) = Some (h @ m @ ''\<newline>'')"
| "current_line (Lg_Message h m) = Some (h @ m @ ''\<newline>'')" | "current_line (Lg_Newline l) = Some (l @ ''\<newline>'')"
| "current_line _ = None"

fun label_line :: "'t log_label \<Rightarrow> string option" where
  "label_line (Log_Call t tick level task msg) = Some (log_msg tick level task msg)"
| "label_line (Log_Step t) = None"

definition called_lines :: "'t log_label list \<Rightarrow> string set" where
  "called_lines ls = set (List.map_filter label_line ls)"

lemma called_lines_snoc: "called_lines (ls @ [l]) = called_lines ls \<union> set_option (label_line l)"
  by (auto simp: called_lines_def map_filter_def)

definition open_part :: "'t log_state \<Rightarrow> string" where
  "open_part s = (case lg_lock s of Some (Mx_Held t) \<Rightarrow> printed_part (lg_pc s t) | _ \<Rightarrow> [])"

definition log_ok :: "string set \<Rightarrow> 't log_state \<Rightarrow> bool" where
  "log_ok calls s \<longleftrightarrow>
     (\<exists>m. lg_lock s = Some m \<and> m \<noteq> Mx_None \<and> (\<forall>t. in_line (lg_pc s t) \<longleftrightarrow> m = Mx_Held t)) \<and>
     (\<forall>t l. current_line (lg_pc s t) = Some l \<longrightarrow> l \<in> calls) \<and>
     (\<exists>lines. set lines \<subseteq> calls \<and> lg_out s = concat lines @ open_part s)"

lemma log_call_ok:
  assumes "log_ok calls s" and "log_do (Log_Call t tick level task msg) s = Returns s'"
  shows "log_ok (insert (log_msg tick level task msg) calls) s'"
proof -
  obtain m lines where m: "lg_lock s = Some m" "m \<noteq> Mx_None" "\<And>t. in_line (lg_pc s t) \<longleftrightarrow> m = Mx_Held t"
    and lines: "set lines \<subseteq> calls" "lg_out s = concat lines @ open_part s"
    and cur: "\<And>t l. current_line (lg_pc s t) = Some l \<Longrightarrow> l \<in> calls"
    using assms(1) by (auto simp: log_ok_def)
  have idle: "lg_pc s t = Lg_Idle" and s': "s' = s\<lparr>lg_pc := (lg_pc s)(t := Lg_Lock (log_header tick level task) msg)\<rparr>"
    using assms(2) by (auto split: if_splits)
  have nt: "m \<noteq> Mx_Held t" using m(3) [of t] idle by simp
  then have "open_part s' = open_part s" by (auto simp: open_part_def s' m(1) split: osal_mutex.splits)
  moreover have "in_line (lg_pc s' t') \<longleftrightarrow> m = Mx_Held t'" for t' using m(3) [of t'] nt by (auto simp: s')
  moreover have "current_line (lg_pc s' t') = Some l \<Longrightarrow> l \<in> insert (log_msg tick level task msg) calls" for t' l
    using cur [of t' l] by (auto simp: s' log_msg_def split: if_splits)
  moreover have "set lines \<subseteq> insert (log_msg tick level task msg) calls" using lines(1) by blast
  ultimately show ?thesis using m(1,2) lines(2) unfolding log_ok_def by (auto simp: s')
qed

lemma log_step_ok:
  assumes ok: "log_ok calls s" and step: "log_do (Log_Step t) s = Returns s'"
  shows "log_ok calls s'"
proof -
  obtain m lines where m: "lg_lock s = Some m" "m \<noteq> Mx_None" "\<And>t. in_line (lg_pc s t) \<longleftrightarrow> m = Mx_Held t"
    and lines: "set lines \<subseteq> calls" "lg_out s = concat lines @ open_part s"
    and cur: "\<And>t l. current_line (lg_pc s t) = Some l \<Longrightarrow> l \<in> calls"
    using ok by (auto simp: log_ok_def)
  have sec: "m = Mx_Held t" if "in_line (lg_pc s t)" using m(3) [of t] that by simp
  have others: "current_line (lg_pc s' t') = Some l \<Longrightarrow> l \<in> calls" if "lg_pc s' = (lg_pc s)(t := pc)"
    "\<And>l. current_line pc = Some l \<Longrightarrow> l \<in> calls" for pc t' l
    using that cur [of t' l] by (auto split: if_splits)
  show ?thesis
  proof (cases "lg_pc s t")
    case (Lg_Lock h m0)
    then have m_free: "m = Mx_Free" and s': "s' = s\<lparr>lg_lock := Some (Mx_Held t), lg_pc := (lg_pc s)(t := Lg_Header h m0)\<rparr>"
      using step by (auto simp: with_lock_def m(1))
    have "in_line (lg_pc s' t') \<longleftrightarrow> t' = t" for t' using m(3) [of t'] m_free by (simp add: s')
    moreover have "lg_out s' = concat lines @ open_part s'" using lines(2) m(1) m_free by (simp add: s' open_part_def)
    moreover have "current_line (lg_pc s' t') = Some l \<Longrightarrow> l \<in> calls" for t' l
      by (rule others [of "Lg_Header h m0"]) (use cur [of t] Lg_Lock in \<open>simp_all add: s'\<close>)
    ultimately show ?thesis using lines(1) unfolding log_ok_def by (auto simp: s')
  next
    case (Lg_Header h m0)
    with sec have held: "m = Mx_Held t" by simp
    have s': "s' = s\<lparr>lg_out := lg_out s @ h, lg_pc := (lg_pc s)(t := Lg_Message h m0)\<rparr>" using step Lg_Header by simp
    have "lg_out s' = concat lines @ open_part s'" using lines(2) m(1) held Lg_Header by (simp add: s' open_part_def)
    moreover have "current_line (lg_pc s' t') = Some l \<Longrightarrow> l \<in> calls" for t' l
      by (rule others [of "Lg_Message h m0"]) (use cur [of t] Lg_Header in \<open>simp_all add: s'\<close>)
    ultimately show ?thesis using lines(1) m held unfolding log_ok_def by (auto simp: s')
  next
    case (Lg_Message h m0)
    with sec have held: "m = Mx_Held t" by simp
    have s': "s' = s\<lparr>lg_out := lg_out s @ m0, lg_pc := (lg_pc s)(t := Lg_Newline (h @ m0))\<rparr>" using step Lg_Message by simp
    have "lg_out s' = concat lines @ open_part s'" using lines(2) m(1) held Lg_Message by (simp add: s' open_part_def)
    moreover have "current_line (lg_pc s' t') = Some l \<Longrightarrow> l \<in> calls" for t' l
      by (rule others [of "Lg_Newline (h @ m0)"]) (use cur [of t] Lg_Message in \<open>simp_all add: s'\<close>)
    ultimately show ?thesis using lines(1) m held unfolding log_ok_def by (auto simp: s')
  next
    case (Lg_Newline l0)
    with sec have held: "m = Mx_Held t" by simp
    have s': "s' = s\<lparr>lg_out := lg_out s @ ''\<newline>'', lg_pc := (lg_pc s)(t := Lg_Unlock)\<rparr>" using step Lg_Newline by simp
    have "lg_out s' = concat (lines @ [l0 @ ''\<newline>'']) @ open_part s'"
      using lines(2) m(1) held Lg_Newline by (simp add: s' open_part_def)
    moreover have "set (lines @ [l0 @ ''\<newline>'']) \<subseteq> calls" using lines(1) cur [of t] Lg_Newline by simp
    ultimately have "\<exists>lines. set lines \<subseteq> calls \<and> lg_out s' = concat lines @ open_part s'" by blast
    moreover have "current_line (lg_pc s' t') = Some l \<Longrightarrow> l \<in> calls" for t' l
      by (rule others [of Lg_Unlock]) (simp_all add: s')
    ultimately show ?thesis using m held unfolding log_ok_def by (auto simp: s')
  next
    case Lg_Unlock
    with sec have held: "m = Mx_Held t" by simp
    have s': "s' = s\<lparr>lg_lock := Some Mx_Free, lg_pc := (lg_pc s)(t := Lg_Idle)\<rparr>"
      using step Lg_Unlock by (auto simp: with_lock_def m(1) held)
    have "lg_out s' = concat lines @ open_part s'" using lines(2) m(1) held Lg_Unlock by (simp add: s' open_part_def)
    moreover have "current_line (lg_pc s' t') = Some l \<Longrightarrow> l \<in> calls" for t' l
      by (rule others [of Lg_Idle]) (simp_all add: s')
    moreover have "\<not> in_line (lg_pc s' t')" for t' using m(3) [of t'] held by (simp add: s')
    ultimately show ?thesis using lines(1) unfolding log_ok_def by (auto simp: s')
  qed (use step in simp)
qed

lemma log_run_Nil: "log_run s [] s' \<longleftrightarrow> s' = s"
  by (auto elim: log_run.cases intro: log_nil)

lemma log_run_snoc: "log_run s (ls @ [l]) s'' \<longleftrightarrow> (\<exists>s'. log_run s ls s' \<and> log_do l s' = Returns s'')"
  by (auto elim: log_run.cases intro: log_snoc)

lemma log_ok_mono: "log_ok calls s \<Longrightarrow> calls \<subseteq> calls' \<Longrightarrow> log_ok calls' s"
  unfolding log_ok_def by blast

lemma log_run_ok: "log_run s ls s' \<Longrightarrow> log_ok {} s \<Longrightarrow> log_ok (called_lines ls) s'"
proof (induction rule: log_run.induct)
  case (log_nil s)
  then show ?case by (simp add: called_lines_def map_filter_def)
next
  case (log_snoc s ls s' l s'')
  then have IH: "log_ok (called_lines ls) s'" by simp
  show ?case
  proof (cases l)
    case (Log_Call t tick level task msg)
    have "log_ok (insert (log_msg tick level task msg) (called_lines ls)) s''"
      using log_call_ok [OF IH] log_snoc.hyps(2) Log_Call by blast
    then show ?thesis by (rule log_ok_mono) (auto simp: called_lines_snoc Log_Call)
  next
    case (Log_Step t)
    then have "log_ok (called_lines ls) s''" using log_step_ok [OF IH] log_snoc.hyps(2) by blast
    then show ?thesis by (rule log_ok_mono) (simp add: called_lines_snoc)
  qed
qed

lemma log_do_defined: "log_ok calls s \<Longrightarrow> log_do l s \<noteq> Undefined"
proof (cases l)
  case (Log_Step t)
  assume "log_ok calls s"
  then obtain m where "lg_lock s = Some m" "m \<noteq> Mx_None" "in_line (lg_pc s t) \<longleftrightarrow> m = Mx_Held t" by (auto simp: log_ok_def)
  then show ?thesis by (cases "lg_pc s t") (auto simp: Log_Step with_lock_def)
qed auto

section \<open>Properties\<close>

text \<open>
  Log lines never mix: however any number of threads interleave their calls, the output is a
  sequence of complete lines, each the formatted line of some call, followed by at most one line in
  progress, which is there only while a thread owns the logger's mutex; and no call is undefined.
\<close>

lemma log_lines_do_not_mix:
  assumes "log_run log_start ls s"
  shows "\<exists>lines rest. lg_out s = concat lines @ rest \<and>
    set lines \<subseteq> set (List.map_filter label_line ls) \<and>
    (rest = [] \<or> (\<exists>t. lg_lock s = Some (Mx_Held t))) \<and> log_do l s \<noteq> Undefined"
proof -
  have "log_ok {} log_start" by (simp add: log_ok_def log_start_def open_part_def exI [of _ "[]"])
  then have ok: "log_ok (called_lines ls) s" using log_run_ok [OF assms] by blast
  then obtain lines where "set lines \<subseteq> called_lines ls" "lg_out s = concat lines @ open_part s" by (auto simp: log_ok_def)
  moreover have "open_part s = [] \<or> (\<exists>t. lg_lock s = Some (Mx_Held t))"
    by (auto simp: open_part_def split: option.splits osal_mutex.splits)
  ultimately show ?thesis using log_do_defined [OF ok, of l] unfolding called_lines_def by blast
qed

end
