(* ===== verification/Bms_Io.thy ===== *)
theory Bms_Io
  imports Thread_Progress Can_Hal_Virtual Logger
begin

text \<open>
  The whole program with its three mutexes. \<open>Bms_Threads\<close> has the statements that touch the shared
  context; here each thread also executes what lies between them: its log calls, the registration and the
  sends of the CAN task with the delivery to the subscribers, and the shutdown of the bus and the logger
  at the end of \<open>main\<close>. A thread's pending input and output is a list of statements, empty while it
  works on the context. Forgetting the lists gives back a run of \<open>Bms_Threads\<close>, forgetting
  everything else gives a run of the logger.
\<close>

section \<open>Statements of input and output\<close>

datatype bus_callback = On_Charge_Command

datatype io_stmt =
  Call_Log log_level_t string string
| Sub_Test bus_callback | Sub_Lock bus_callback | Sub_Write bus_callback | Sub_Unlock
| Call_Send can_frame_t | Send_Lock can_frame_t | Send_Copy can_frame_t
| Send_Unlock can_frame_t "(bus_callback, unit) subscriber_t list"
| Deliver can_frame_t "(bus_callback, unit) subscriber_t list"
| Bus_Clear | Bus_Destroy | Log_Destroy

text \<open>
  \<open>io_received\<close> records the calls of callbacks. The pointer \<open>io_bus_lock\<close> is null before the
  bus is initialised and after its shutdown.
\<close>

record io_threads =
  io_base :: bms_threads
  io_todo :: "task_id \<Rightarrow> io_stmt list"
  io_log :: "task_id log_state"
  io_bus_lock :: "task_id osal_mutex option"
  io_bus :: "(bus_callback, unit) virtual_bus"
  io_received :: "(bus_callback \<times> can_frame_t) list"

section \<open>Messages\<close>

definition TASK_PERIOD_CAN_MS :: u32 where
  [config_defs]: "TASK_PERIOD_CAN_MS = 100"

definition started_msg :: "u32 \<Rightarrow> string" where
  "started_msg period = ''task started (period='' @ decimal (unat period) @ ''ms)''"

definition watchdog_started_msg :: string where
  "watchdog_started_msg =
     ''task started (period='' @ decimal (unat TASK_PERIOD_WATCHDOG_MS) @ ''ms, stale_threshold='' @ decimal (unat WATCHDOG_STALE_MS) @ ''ms)''"

text \<open>\<open>%04x\<close> of a 16-bit number.\<close>

definition hex4 :: "u16 \<Rightarrow> string" where
  "hex4 w = map (\<lambda>k. ''0123456789abcdef'' ! (unat w div 16 ^ k mod 16)) [3, 2, 1, 0]"

definition state_change_msg :: "bms_state_t \<Rightarrow> u16 \<Rightarrow> string" where
  "state_change_msg state faults =
     ''state change -> '' @ decimal (unat (bms_state_code state)) @ '' (active_faults=0x'' @ hex4 faults @ '')''"

definition rx_charge_msg :: "u16 \<times> u16 \<Rightarrow> string" where
  "rx_charge_msg amps =
     ''RX ChargeCommand: '' @ decimal (unat (fst amps)) @ ''.'' @ decimal (unat (snd amps)) @ ''A requested''"

definition exiting_msg :: string where
  "exiting_msg = ''task exiting''"

definition stale_msg :: string where
  "stale_msg = ''stale task heartbeat detected -- forcing fault state''"

definition elapsed_msg :: string where
  "elapsed_msg = ''sim duration elapsed, requesting shutdown''"

text \<open>What \<open>main\<close> prints itself, before it creates the tasks and after it has joined them.\<close>

definition SIM_DURATION_MS :: int where
  [config_defs]: "SIM_DURATION_MS = 8000"

text \<open>Signed decimal numbers, as \<open>%d\<close> prints them, and halves with one digit, as \<open>%.1f\<close> does.\<close>

definition signed_decimal :: "int \<Rightarrow> string" where
  "signed_decimal i = (if i < 0 then ''-'' @ decimal (nat (- i)) else decimal (nat i))"

definition half_decimal :: "u8 \<Rightarrow> string" where
  "half_decimal w = decimal (unat w div 2) @ (if odd (unat w) then ''.5'' else ''.0'')"

definition banner :: "string option \<Rightarrow> string" where
  "banner arg =
     ''=== BMS Firmware Simulator ===\<newline>'' @
     ''scenario: '' @ (case arg of None \<Rightarrow> ''nominal'' | Some name \<Rightarrow> name) @
     '' | duration: '' @ signed_decimal SIM_DURATION_MS @ ''ms\<newline>\<newline>''"

definition final_status :: "bms_status_t \<Rightarrow> u16 \<Rightarrow> string" where
  "final_status st faults =
     ''\<newline>=== Final status ===\<newline>'' @
     ''pack_voltage_mv='' @ decimal (unat (st_pack_voltage_mv st)) @
     '' pack_current_ca='' @ signed_decimal (sint (st_pack_current_ca st)) @
     '' soc='' @ half_decimal (st_soc_percent_x2 st) @ ''% state='' @ decimal (unat (st_state st)) @
     '' active_faults=0x'' @ hex4 faults @ ''\<newline>''"

section \<open>Executing a statement\<close>

text \<open>What a callback does with a frame: \<open>on_charge_command\<close> logs the command it decodes.\<close>

fun callback_stmts :: "bus_callback \<Rightarrow> can_frame_t \<Rightarrow> io_stmt list" where
  "callback_stmts On_Charge_Command frame =
     map (\<lambda>amps. Call_Log LOG_INFO ''can'' (rx_charge_msg amps)) (on_charge_command frame)"

definition with_bus_lock ::
  "(task_id osal_mutex \<Rightarrow> task_id osal_mutex outcome) \<Rightarrow> io_threads \<Rightarrow> io_threads outcome" where
  "with_bus_lock f s =
     (case io_bus_lock s of None \<Rightarrow> Undefined | Some m \<Rightarrow> map_outcome (\<lambda>m'. s\<lparr>io_bus_lock := Some m'\<rparr>) (f m))"

text \<open>One statement, and the statements that follow it in the same call.\<close>

fun io_exec :: "task_id \<Rightarrow> io_stmt \<Rightarrow> io_threads \<Rightarrow> (io_threads \<times> io_stmt list) outcome" where
  "io_exec t (Call_Log level task msg) s =
     map_outcome (\<lambda>l. (s\<lparr>io_log := l\<rparr>, [])) (log_do (Log_Call t (th_tick (io_base s)) level task msg) (io_log s))"
| "io_exec t (Sub_Test cb) s =
     Returns (s, if g_sub_count (io_bus s) \<ge> MAX_SUBSCRIBERS then [] else [Sub_Lock cb])"
| "io_exec t (Sub_Lock cb) s = map_outcome (\<lambda>s'. (s', [Sub_Write cb])) (with_bus_lock (osal_mutex_lock t) s)"
| "io_exec t (Sub_Write cb) s =
     Returns (s\<lparr>io_bus := subscribe_write (io_bus s) (Some cb) (Some ())\<rparr>, [Sub_Unlock])"
| "io_exec t Sub_Unlock s = map_outcome (\<lambda>s'. (s', [])) (with_bus_lock (osal_mutex_unlock t) s)"
| "io_exec t (Call_Send f) s = Returns (s, if unat (dlc f) > CAN_MAX_DLC then [] else [Send_Lock f])"
| "io_exec t (Send_Lock f) s = map_outcome (\<lambda>s'. (s', [Send_Copy f])) (with_bus_lock (osal_mutex_lock t) s)"
| "io_exec t (Send_Copy f) s = Returns (s, [Send_Unlock f (take (g_sub_count (io_bus s)) (g_subs (io_bus s)))])"
| "io_exec t (Send_Unlock f subs) s =
     map_outcome (\<lambda>s'. (s', [Deliver f subs])) (with_bus_lock (osal_mutex_unlock t) s)"
| "io_exec t (Deliver f []) s = Returns (s, [])"
| "io_exec t (Deliver f (sub # subs)) s =
     (case sub_cb sub of
        None \<Rightarrow> Returns (s, [Deliver f subs])
      | Some cb \<Rightarrow> Returns (s\<lparr>io_received := io_received s @ [(cb, f)]\<rparr>, callback_stmts cb f @ [Deliver f subs]))"
| "io_exec t Bus_Clear s = Returns (s\<lparr>io_bus := (io_bus s)\<lparr>g_sub_count := 0\<rparr>\<rparr>, [])"
| "io_exec t Bus_Destroy s = map_outcome (\<lambda>_. (s\<lparr>io_bus_lock := None\<rparr>, [])) (osal_mutex_destroy (io_bus_lock s))"
| "io_exec t Log_Destroy s =
     map_outcome (\<lambda>p. (s\<lparr>io_log := (io_log s)\<lparr>lg_lock := p\<rparr>\<rparr>, [])) (logger_shutdown (lg_lock (io_log s)))"

section \<open>The program\<close>

text \<open>What a task executes before its loop.\<close>

fun io_start :: "task_id \<Rightarrow> io_stmt list" where
  "io_start T_Sensor = [Call_Log LOG_INFO ''sensor'' (started_msg TASK_PERIOD_SENSOR_MS)]"
| "io_start T_Soc = [Call_Log LOG_INFO ''soc'' (started_msg TASK_PERIOD_SOC_MS)]"
| "io_start T_Fault = [Call_Log LOG_INFO ''fault'' (started_msg TASK_PERIOD_FAULT_MS)]"
| "io_start T_Can = [Sub_Test On_Charge_Command, Call_Log LOG_INFO ''can'' (started_msg TASK_PERIOD_CAN_MS)]"
| "io_start T_Watchdog = [Call_Log LOG_INFO ''watchdog'' watchdog_started_msg]"
| "io_start T_Main = []"

text \<open>
  What a thread executes after a statement of \<open>Bms_Threads\<close> that took it from \<open>c\<close> to
  \<open>c'\<close>: the calls of that statement.
\<close>

fun io_after :: "task_id \<Rightarrow> bms_threads \<Rightarrow> bms_threads \<Rightarrow> io_stmt list" where
  "io_after T_Sensor c c' = (if th_sensor c' = Se_Exit then [Call_Log LOG_INFO ''sensor'' exiting_msg] else [])"
| "io_after T_Soc c c' = (if th_soc c' = So_Exit then [Call_Log LOG_INFO ''soc'' exiting_msg] else [])"
| "io_after T_Fault c c' =
     (case th_fault c of
        Fa_Log state faults \<Rightarrow>
          if state \<noteq> th_logged c then [Call_Log LOG_WARN ''fault'' (state_change_msg state faults)] else []
      | _ \<Rightarrow> if th_fault c' = Fa_Exit then [Call_Log LOG_INFO ''fault'' exiting_msg] else [])"
| "io_after T_Can c c' =
     map Call_Send (drop (length (th_bus c)) (th_bus c')) @
     (if th_can c' = Ca_Exit then [Call_Log LOG_INFO ''can'' exiting_msg] else [])"
| "io_after T_Watchdog c c' =
     (case th_watchdog c of
        Wa_Log now \<Rightarrow> [Call_Log LOG_ERROR ''watchdog'' stale_msg]
      | _ \<Rightarrow> if th_watchdog c' = Wa_Exit then [Call_Log LOG_INFO ''watchdog'' exiting_msg] else [])"
| "io_after T_Main c c' =
     (case th_main c of
        Ma_Sleep \<Rightarrow> [Call_Log LOG_INFO ''main'' elapsed_msg]
      | Ma_Destroy \<Rightarrow> [Bus_Clear, Bus_Destroy, Log_Destroy]
      | _ \<Rightarrow> [])"

definition io_idle :: "io_threads \<Rightarrow> task_id \<Rightarrow> bool" where
  "io_idle s t \<longleftrightarrow> io_todo s t = [] \<and> lg_pc (io_log s) t = Lg_Idle"

definition io_finished :: "io_threads \<Rightarrow> task_id \<Rightarrow> bool" where
  "io_finished s t \<longleftrightarrow> task_exited (io_base s) t \<and> io_idle s t"

text \<open>A join waits until the task has also finished its last log call.\<close>

definition join_waits :: "io_threads \<Rightarrow> task_id \<Rightarrow> bool" where
  "join_waits s t \<longleftrightarrow>
     t = T_Main \<and> (\<exists>u us. th_main (io_base s) = Ma_Join (u # us) \<and> u \<in> set (th_handles (io_base s)) \<and> \<not> io_finished s u)"

definition base_step :: "(real \<Rightarrow> real) \<Rightarrow> task_id \<Rightarrow> io_threads \<Rightarrow> io_threads outcome" where
  "base_step rnd t s =
     (if join_waits s t then Blocks
      else map_outcome (\<lambda>c. s\<lparr>io_base := c, io_todo := (io_todo s)(t := io_after t (io_base s) c)\<rparr>)
             (thread_do rnd (Run t) (io_base s)))"

definition io_step :: "(real \<Rightarrow> real) \<Rightarrow> task_id \<Rightarrow> io_threads \<Rightarrow> io_threads outcome" where
  "io_step rnd t s =
     (if lg_pc (io_log s) t \<noteq> Lg_Idle
      then map_outcome (\<lambda>l. s\<lparr>io_log := l\<rparr>) (log_do (Log_Step t) (io_log s))
      else case io_todo s t of
             [] \<Rightarrow> base_step rnd t s
           | st # sts \<Rightarrow> map_outcome (\<lambda>(s', new). s'\<lparr>io_todo := (io_todo s')(t := new @ sts)\<rparr>) (io_exec t st s))"

fun io_do :: "(real \<Rightarrow> real) \<Rightarrow> thread_label \<Rightarrow> io_threads \<Rightarrow> io_threads outcome" where
  "io_do rnd (Run t) s =
     (if t = T_Main \<or> t \<in> set (th_handles (io_base s)) then io_step rnd t s else Blocks)"
| "io_do rnd (Elapse d) s = map_outcome (\<lambda>c. s\<lparr>io_base := c\<rparr>) (thread_do rnd (Elapse d) (io_base s))"
| "io_do rnd Create_Fails s =
     (if io_idle s T_Main then map_outcome (\<lambda>c. s\<lparr>io_base := c\<rparr>) (thread_do rnd Create_Fails (io_base s)) else Blocks)"

text \<open>
  The state in which \<open>main\<close> creates the tasks. It ignores the result of \<open>can_hal_init\<close>: if that
  has failed, \<open>bus_up\<close> is false and the bus has no mutex. That is the state of the SocketCAN back end
  without its interface; with POSIX mutexes, whose creation never gives null, the virtual bus always comes up.
\<close>

definition io_init :: "(real \<Rightarrow> real) \<Rightarrow> string option \<Rightarrow> bool \<Rightarrow> io_threads" where
  "io_init rnd arg bus_up =
     \<lparr>io_base = thread_init rnd arg, io_todo = io_start, io_log = log_start,
      io_bus_lock = (if bus_up then Some Mx_Free else None), io_bus = fst (can_hal_init bus_up), io_received = []\<rparr>"

inductive io_run :: "(real \<Rightarrow> real) \<Rightarrow> io_threads \<Rightarrow> thread_label list \<Rightarrow> io_threads \<Rightarrow> bool" for rnd where
  io_nil: "io_run rnd s [] s"
| io_snoc: "io_run rnd s ls s' \<Longrightarrow> io_do rnd l s' = Returns s'' \<Longrightarrow> io_run rnd s (ls @ [l]) s''"

inductive_simps io_run_Nil [simp]: "io_run rnd s [] s'"

lemma io_run_snoc: "io_run rnd s (ls @ [l]) s'' \<longleftrightarrow> (\<exists>s'. io_run rnd s ls s' \<and> io_do rnd l s' = Returns s'')"
  by (auto elim: io_run.cases intro: io_snoc)

end
