(* ===== verification/Io_Invariant.thy ===== *)
theory Io_Invariant
  imports Bms_Io
begin

text \<open>
  The invariant of the program with its three mutexes. A thread in a log call or on the bus is outside
  its section on the context, a thread in a log call is outside the bus lock; the owner of each mutex is the
  thread in the corresponding section; and what \<open>main\<close> destroys is no longer used by anyone.
\<close>

section \<open>Sections\<close>

fun inner :: "io_stmt \<Rightarrow> bool" where
  "inner (Sub_Write _) = True" | "inner Sub_Unlock = True" | "inner (Send_Copy _) = True"
| "inner (Send_Unlock _ _) = True" | "inner _ = False"

fun closing :: "io_stmt \<Rightarrow> bool" where
  "closing Bus_Clear = True" | "closing Bus_Destroy = True" | "closing Log_Destroy = True" | "closing _ = False"

fun bus_head :: "io_stmt list \<Rightarrow> bool" where
  "bus_head (st # _) = inner st" | "bus_head [] = False"

abbreviation bus_section :: "io_threads \<Rightarrow> task_id \<Rightarrow> bool" where
  "bus_section s t \<equiv> bus_head (io_todo s t)"

abbreviation log_section :: "io_threads \<Rightarrow> task_id \<Rightarrow> bool" where
  "log_section s t \<equiv> in_line (lg_pc (io_log s) t)"

definition outer_list :: "io_stmt list \<Rightarrow> bool" where
  "outer_list sts \<longleftrightarrow> list_all (\<lambda>st. \<not> inner st) sts"

lemma outer_head: "outer_list sts \<Longrightarrow> \<not> bus_head sts"
  by (cases sts) (simp_all add: outer_list_def)

lemma outer_append [simp]: "outer_list (xs @ ys) \<longleftrightarrow> outer_list xs \<and> outer_list ys"
  by (simp add: outer_list_def)

lemma outer_simps [simp]: "outer_list []" "outer_list (st # sts) \<longleftrightarrow> \<not> inner st \<and> outer_list sts"
  by (simp_all add: outer_list_def)

lemma callback_outer [simp]: "outer_list (callback_stmts cb f)"
  by (cases cb) (simp add: outer_list_def list_all_iff)

lemma io_after_simple:
  assumes "st \<in> set (io_after t c c')"
  shows "\<not> inner st" and "t \<noteq> T_Main \<Longrightarrow> \<not> closing st"
proof -
  have "(\<exists>level tag msg. st = Call_Log level tag msg) \<or> (\<exists>f. st = Call_Send f) \<or>
      t = T_Main \<and> (st = Bus_Clear \<or> st = Bus_Destroy \<or> st = Log_Destroy)"
  proof (cases t)
    case T_Fault
    with assms show ?thesis by (cases "th_fault c") (simp_all split: if_splits)
  next
    case T_Watchdog
    with assms show ?thesis by (cases "th_watchdog c") (simp_all split: if_splits)
  next
    case T_Main
    with assms show ?thesis by (cases "th_main c") auto
  next
    case T_Can
    with assms show ?thesis by (auto split: if_splits)
  qed (use assms in \<open>simp_all split: if_splits\<close>)
  then show "\<not> inner st" "t \<noteq> T_Main \<Longrightarrow> \<not> closing st" by auto
qed

lemma io_after_outer: "outer_list (io_after t c c')"
  by (simp add: outer_list_def list_all_iff io_after_simple(1))

section \<open>The invariant\<close>

definition bus_gone :: "io_threads \<Rightarrow> bool" where
  "bus_gone s \<longleftrightarrow> th_main (io_base s) = Ma_Exit \<and> set (io_todo s T_Main) \<subseteq> {Log_Destroy}"

definition log_gone :: "io_threads \<Rightarrow> bool" where
  "log_gone s \<longleftrightarrow> th_main (io_base s) = Ma_Exit \<and> io_todo s T_Main = []"

definition closing_list :: "io_stmt list" where
  "closing_list = [Bus_Clear, Bus_Destroy, Log_Destroy]"

text \<open>Pending statements and the sections on the context.\<close>

definition io_control_ok :: "io_threads \<Rightarrow> bool" where
  "io_control_ok s \<longleftrightarrow>
     thread_ok (io_base s) \<and> (\<forall>t. \<not> io_idle s t \<longrightarrow> \<not> in_section (io_base s) t) \<and>
     (\<forall>t\<in>set (joined (th_main (io_base s))). t \<in> set (th_handles (io_base s)) \<longrightarrow> io_finished s t) \<and>
     (\<forall>t. t \<noteq> T_Main \<longrightarrow> t \<notin> set (th_handles (io_base s)) \<longrightarrow> lg_pc (io_log s) t = Lg_Idle \<and> outer_list (io_todo s t)) \<and>
     (\<forall>t. t \<noteq> T_Main \<longrightarrow> list_all (\<lambda>st. \<not> closing st) (io_todo s t)) \<and>
     (if th_main (io_base s) = Ma_Exit
      then (\<exists>n. io_todo s T_Main = drop n closing_list) \<and> lg_pc (io_log s) T_Main = Lg_Idle
      else list_all (\<lambda>st. \<not> closing st) (io_todo s T_Main))"

definition io_bus_ok :: "io_threads \<Rightarrow> bool" where
  "io_bus_ok s \<longleftrightarrow>
     (\<forall>t. outer_list (tl (io_todo s t))) \<and> (\<forall>t. lg_pc (io_log s) t \<noteq> Lg_Idle \<longrightarrow> \<not> bus_section s t) \<and>
     (case io_bus_lock s of
        None \<Rightarrow> bus_gone s \<and> (\<forall>t. \<not> bus_section s t)
      | Some m \<Rightarrow> \<not> bus_gone s \<and> m \<noteq> Mx_None \<and> (\<forall>t. bus_section s t \<longleftrightarrow> m = Mx_Held t))"

definition io_log_ok :: "io_threads \<Rightarrow> bool" where
  "io_log_ok s \<longleftrightarrow>
     (\<exists>ls l. log_run log_start ls l \<and> io_log s = (if log_gone s then l\<lparr>lg_lock := None\<rparr> else l))"

definition io_ok :: "io_threads \<Rightarrow> bool" where
  "io_ok s \<longleftrightarrow> io_control_ok s \<and> io_bus_ok s \<and> io_log_ok s"

section \<open>What a statement leaves alone\<close>

lemma io_exec_frame:
  assumes "io_exec t st s = Returns (s', new)"
  shows "io_base s' = io_base s" and "io_todo s' = io_todo s" and "t' \<noteq> t \<Longrightarrow> lg_pc (io_log s') t' = lg_pc (io_log s) t'"
    and "closing st \<Longrightarrow> new = [] \<and> lg_pc (io_log s') = lg_pc (io_log s)" and "x \<in> set new \<Longrightarrow> \<not> closing x"
    and "lg_pc (io_log s') t \<noteq> lg_pc (io_log s) t \<Longrightarrow> new = [] \<and> \<not> inner st"
proof -
  have "io_base s' = io_base s \<and> io_todo s' = io_todo s \<and> (\<forall>t'. t' \<noteq> t \<longrightarrow> lg_pc (io_log s') t' = lg_pc (io_log s) t') \<and>
      (closing st \<longrightarrow> new = [] \<and> lg_pc (io_log s') = lg_pc (io_log s)) \<and> (\<forall>x\<in>set new. \<not> closing x) \<and>
      (lg_pc (io_log s') t \<noteq> lg_pc (io_log s) t \<longrightarrow> new = [] \<and> \<not> inner st)"
  proof (cases st)
    case (Deliver f subs)
    have "x \<in> set (callback_stmts cb f) \<Longrightarrow> \<not> closing x" for x cb by (cases cb) auto
    with assms Deliver show ?thesis by (cases subs) (auto split: option.splits)
  next
    case (Call_Log level task msg)
    with assms show ?thesis by (auto split: if_splits)
  qed (use assms in \<open>auto simp: with_bus_lock_def split: option.splits if_splits\<close>)
  then show "io_base s' = io_base s" "io_todo s' = io_todo s" "t' \<noteq> t \<Longrightarrow> lg_pc (io_log s') t' = lg_pc (io_log s) t'"
    "closing st \<Longrightarrow> new = [] \<and> lg_pc (io_log s') = lg_pc (io_log s)" "x \<in> set new \<Longrightarrow> \<not> closing x"
    "lg_pc (io_log s') t \<noteq> lg_pc (io_log s) t \<Longrightarrow> new = [] \<and> \<not> inner st" by blast+
qed

lemma log_do_frame: "log_do (Log_Step t) l = Returns l' \<Longrightarrow> t' \<noteq> t \<Longrightarrow> lg_pc l' t' = lg_pc l t'"
  by (cases "lg_pc l t") (auto simp: with_lock_def split: option.splits)

text \<open>How a statement moves the bus lock.\<close>

definition bus_move :: "task_id \<Rightarrow> bool \<Rightarrow> bool \<Rightarrow> io_threads \<Rightarrow> io_threads \<Rightarrow> bool" where
  "bus_move t before after s s' \<longleftrightarrow>
     (io_bus_lock s' = io_bus_lock s \<and> after = before) \<or>
     (io_bus_lock s = Some Mx_Free \<and> io_bus_lock s' = Some (Mx_Held t) \<and> after) \<or>
     (io_bus_lock s = Some (Mx_Held t) \<and> io_bus_lock s' = Some Mx_Free \<and> \<not> after)"

lemma io_exec_bus:
  assumes step: "io_exec t st s = Returns (s', new)" and sts: "outer_list sts" and "st \<noteq> Bus_Destroy"
  shows "bus_move t (inner st) (bus_head (new @ sts)) s s'" and "outer_list (tl (new @ sts))"
proof -
  have hd: "\<not> bus_head sts" "outer_list (tl sts)" using sts outer_head by (cases sts; simp)+
  have "bus_move t (inner st) (bus_head (new @ sts)) s s' \<and> outer_list (tl (new @ sts))"
  proof (cases st)
    case (Deliver f subs)
    have "outer_list new" using step Deliver by (cases subs) (auto split: option.splits)
    then have o: "outer_list (new @ sts)" using sts by simp
    moreover have "outer_list (tl (new @ sts))" using o by (cases "new @ sts") auto
    moreover have "io_bus_lock s' = io_bus_lock s" using step Deliver by (cases subs) (auto split: option.splits)
    ultimately show ?thesis using outer_head [OF o] Deliver by (simp add: bus_move_def)
  next
    case (Call_Log level task msg)
    with step hd show ?thesis by (auto simp: bus_move_def split: if_splits)
  qed (use assms hd in \<open>auto simp: bus_move_def with_bus_lock_def split: option.splits if_splits\<close>)
  then show "bus_move t (inner st) (bus_head (new @ sts)) s s'" "outer_list (tl (new @ sts))" by blast+
qed

section \<open>The kinds of steps\<close>

lemma io_step_cases:
  assumes "io_step rnd t s = Returns s'"
  obtains (log) l where "lg_pc (io_log s) t \<noteq> Lg_Idle" "log_do (Log_Step t) (io_log s) = Returns l" "s' = s\<lparr>io_log := l\<rparr>"
  | (exec) st sts s1 new where "lg_pc (io_log s) t = Lg_Idle" "io_todo s t = st # sts" "io_exec t st s = Returns (s1, new)"
      "s' = s1\<lparr>io_todo := (io_todo s)(t := new @ sts)\<rparr>"
  | (base) c where "io_idle s t" "\<not> join_waits s t" "thread_do rnd (Run t) (io_base s) = Returns c"
      "s' = s\<lparr>io_base := c, io_todo := (io_todo s)(t := io_after t (io_base s) c)\<rparr>"
proof (cases "lg_pc (io_log s) t = Lg_Idle")
  case False
  then show ?thesis using assms log by (auto simp: io_step_def)
next
  case idle: True
  show ?thesis
  proof (cases "io_todo s t")
    case Nil
    then show ?thesis using assms idle base by (auto simp: io_step_def base_step_def io_idle_def split: if_splits)
  next
    case (Cons st sts)
    then obtain s1 new where "io_exec t st s = Returns (s1, new)" "s' = s1\<lparr>io_todo := (io_todo s1)(t := new @ sts)\<rparr>"
      using assms idle by (auto simp: io_step_def)
    with idle Cons exec io_exec_frame(2) show ?thesis by metis
  qed
qed

lemma main_stage:
  assumes "main_thread c = Returns c'"
  shows "x \<in> set (joined (th_main c')) \<Longrightarrow> x \<in> set (joined (th_main c)) \<or> (\<exists>us. th_main c = Ma_Join (x # us))"
    and "x \<in> set (joined (th_main c')) \<Longrightarrow> th_handles c' = th_handles c" and "set (th_handles c) \<subseteq> set (th_handles c')"
    and "th_main c \<noteq> Ma_Exit" and "th_main c' = Ma_Exit \<longleftrightarrow> th_main c = Ma_Destroy"
  using assms by (auto simp: main_thread_def split: main_pc.splits list.splits if_splits)

text \<open>The calls of a statement are made outside the section on the context.\<close>

lemma io_after_outside:
  assumes "thread_do rnd (Run t) c = Returns c'" and "io_after t c c' \<noteq> []"
  shows "\<not> in_section c' t"
proof (cases t)
  case T_Sensor
  with assms show ?thesis by (auto split: if_splits)
next
  case T_Soc
  with assms show ?thesis by (auto split: if_splits)
next
  case T_Fault
  with assms show ?thesis by (cases "th_fault c") (auto simp: task_fault_main_def split: if_splits)
next
  case T_Can
  with assms show ?thesis by (cases "th_can c") (auto simp: task_can_main_def split: if_splits)
next
  case T_Watchdog
  with assms show ?thesis by (cases "th_watchdog c") (auto simp: task_watchdog_main_def split: if_splits)
next
  case T_Main
  with assms show ?thesis by (cases "th_main c") (auto simp: main_thread_def)
qed

lemma io_started: "io_do rnd (Run t) s = Returns s' \<Longrightarrow> t = T_Main \<or> t \<in> set (th_handles (io_base s))"
  by (simp split: if_splits)

lemma control_okD:
  assumes "io_control_ok s"
  shows "thread_ok (io_base s)" and "\<not> io_idle s t \<Longrightarrow> \<not> in_section (io_base s) t"
    and "t \<in> set (joined (th_main (io_base s))) \<Longrightarrow> t \<in> set (th_handles (io_base s)) \<Longrightarrow> io_finished s t"
    and "t \<noteq> T_Main \<Longrightarrow> t \<notin> set (th_handles (io_base s)) \<Longrightarrow> lg_pc (io_log s) t = Lg_Idle \<and> outer_list (io_todo s t)"
    and "t \<noteq> T_Main \<Longrightarrow> st \<in> set (io_todo s t) \<Longrightarrow> \<not> closing st"
    and "th_main (io_base s) = Ma_Exit \<Longrightarrow> (\<exists>n. io_todo s T_Main = drop n closing_list) \<and> lg_pc (io_log s) T_Main = Lg_Idle"
    and "th_main (io_base s) \<noteq> Ma_Exit \<Longrightarrow> st \<in> set (io_todo s T_Main) \<Longrightarrow> \<not> closing st"
  using assms unfolding io_control_ok_def list_all_iff by (simp_all split: if_splits)

lemma running_unfinished:
  assumes "io_step rnd t s = Returns s'"
  shows "\<not> io_finished s t"
  using assms
proof (cases rule: io_step_cases)
  case (base c)
  then have "\<not> task_exited (io_base s) t"
    using Run_cases(4) [of rnd t "io_base s" c] main_stage(4) [of "io_base s" c]
    by (cases "t = T_Main") (auto simp: task_exited_def)
  then show ?thesis by (simp add: io_finished_def)
qed (auto simp: io_finished_def io_idle_def)

text \<open>When \<open>main\<close> has returned from its last statement, only \<open>main\<close> runs, closing the bus and the logger.\<close>

lemma exit_only_main:
  assumes ok: "io_control_ok s" and step: "io_step rnd t s = Returns s'"
    and t: "t = T_Main \<or> t \<in> set (th_handles (io_base s))" and main: "th_main (io_base s) = Ma_Exit"
  shows "t = T_Main" and "io_todo s T_Main \<noteq> []"
proof -
  have fin: "\<not> io_finished s t" using running_unfinished [OF step] .
  have "set (th_handles (io_base s)) \<subseteq> set app_tasks" using control_okD(1) [OF ok] by (simp add: thread_ok_def)
  then show "t = T_Main" using control_okD(3) [OF ok, of t] t fin main by auto
  then have "\<not> io_idle s T_Main" using fin main by (simp add: io_finished_def task_exited_def)
  then show "io_todo s T_Main \<noteq> []" using control_okD(6) [OF ok main] by (simp add: io_idle_def)
qed

lemma drop_closing: "drop n closing_list = st # sts \<Longrightarrow> closing st \<and> drop (Suc n) closing_list = sts"
  by (metis Cons_nth_drop_Suc closing.simps(1-3) closing_list_def drop_eq_Nil leI length_Cons list.distinct(1)
      list.inject list.set_intros(1) nth_mem set_ConsD empty_iff list.set(1))

section \<open>Pending statements and the context\<close>

lemma log_control_ok:
  assumes ok: "io_control_ok s" and t: "t = T_Main \<or> t \<in> set (th_handles (io_base s))"
    and pc: "lg_pc (io_log s) t \<noteq> Lg_Idle" and l: "log_do (Log_Step t) (io_log s) = Returns l"
  shows "io_control_ok (s\<lparr>io_log := l\<rparr>)"
proof -
  let ?s = "s\<lparr>io_log := l\<rparr>"
  have other: "t' \<noteq> t \<Longrightarrow> lg_pc l t' = lg_pc (io_log s) t'" for t' using log_do_frame [OF l] .
  then have idle: "t' \<noteq> t \<Longrightarrow> io_idle ?s t' = io_idle s t'" "t' \<noteq> t \<Longrightarrow> io_finished ?s t' = io_finished s t'" for t'
    by (simp_all add: io_idle_def io_finished_def)
  have busy: "\<not> io_idle s t" using pc by (simp add: io_idle_def)
  have "\<not> io_idle ?s t' \<Longrightarrow> \<not> in_section (io_base s) t'" for t'
    using control_okD(2) [OF ok, of t'] idle(1) [of t'] busy by (cases "t' = t") auto
  moreover have "t' \<in> set (joined (th_main (io_base s))) \<Longrightarrow> t' \<in> set (th_handles (io_base s)) \<Longrightarrow> io_finished ?s t'" for t'
    using control_okD(3) [OF ok, of t'] idle(2) [of t'] busy by (cases "t' = t") (auto simp: io_finished_def)
  moreover have "t' \<noteq> T_Main \<Longrightarrow> t' \<notin> set (th_handles (io_base s)) \<Longrightarrow> lg_pc l t' = Lg_Idle" for t'
    using control_okD(4) [OF ok, of t'] other [of t'] t by (cases "t' = t") auto
  moreover have "th_main (io_base s) = Ma_Exit \<Longrightarrow> lg_pc l T_Main = Lg_Idle"
    using control_okD(6) [OF ok] other [of T_Main] pc by (cases "t = T_Main") auto
  ultimately show ?thesis using ok unfolding io_control_ok_def by auto
qed

lemma exec_control_ok:
  assumes ok: "io_control_ok s" and t: "t = T_Main \<or> t \<in> set (th_handles (io_base s))"
    and pc: "lg_pc (io_log s) t = Lg_Idle" and todo: "io_todo s t = st # sts" and ex: "io_exec t st s = Returns (s1, new)"
  shows "io_control_ok (s1\<lparr>io_todo := (io_todo s)(t := new @ sts)\<rparr>)"
proof -
  let ?s = "s1\<lparr>io_todo := (io_todo s)(t := new @ sts)\<rparr>"
  note frame = io_exec_frame [OF ex]
  have base: "io_base ?s = io_base s" using frame(1) by simp
  have idle: "t' \<noteq> t \<Longrightarrow> io_idle ?s t' = io_idle s t'" "t' \<noteq> t \<Longrightarrow> io_finished ?s t' = io_finished s t'" for t'
    using frame(1,3) by (simp_all add: io_idle_def io_finished_def)
  have busy: "\<not> io_idle s t" using todo by (simp add: io_idle_def)
  have "\<not> io_idle ?s t' \<Longrightarrow> \<not> in_section (io_base s) t'" for t'
    using control_okD(2) [OF ok, of t'] idle(1) [of t'] busy by (cases "t' = t") auto
  moreover have "t' \<in> set (joined (th_main (io_base s))) \<Longrightarrow> t' \<in> set (th_handles (io_base s)) \<Longrightarrow> io_finished ?s t'" for t'
    using control_okD(3) [OF ok, of t'] idle(2) [of t'] busy by (cases "t' = t") (auto simp: io_finished_def)
  moreover have "t' \<noteq> T_Main \<Longrightarrow> t' \<notin> set (th_handles (io_base s)) \<Longrightarrow> lg_pc (io_log ?s) t' = Lg_Idle \<and> outer_list (io_todo ?s t')" for t'
    using control_okD(4) [OF ok, of t'] frame(3) [of t'] t by (cases "t' = t") auto
  moreover have "t' \<noteq> T_Main \<Longrightarrow> x \<in> set (io_todo ?s t') \<Longrightarrow> \<not> closing x" for t' x
    using control_okD(5) [OF ok, of t' x] frame(5) [of x] todo by (cases "t' = t") auto
  moreover have "th_main (io_base s) = Ma_Exit \<Longrightarrow> (\<exists>n. io_todo ?s T_Main = drop n closing_list) \<and> lg_pc (io_log ?s) T_Main = Lg_Idle"
  proof (cases "t = T_Main")
    case True
    assume "th_main (io_base s) = Ma_Exit"
    then obtain n where "drop n closing_list = st # sts" using control_okD(6) [OF ok] todo True by metis
    from drop_closing [OF this] show ?thesis using frame(4) pc True by auto
  next
    case False
    assume "th_main (io_base s) = Ma_Exit"
    then show ?thesis using control_okD(6) [OF ok] frame(3) [of T_Main] False by simp
  qed
  moreover have "th_main (io_base s) \<noteq> Ma_Exit \<Longrightarrow> x \<in> set (io_todo ?s T_Main) \<Longrightarrow> \<not> closing x" for x
    using control_okD(7) [OF ok, of x] frame(5) [of x] todo by (cases "t = T_Main") auto
  ultimately show ?thesis using control_okD(1) [OF ok] unfolding io_control_ok_def base list_all_iff by auto
qed

lemma base_frame:
  assumes "thread_ok c" and "thread_do rnd (Run t) c = Returns c'"
  shows "t' \<noteq> t \<Longrightarrow> in_section c' t' = in_section c t'" and "t' \<noteq> t \<Longrightarrow> t' \<noteq> T_Main \<Longrightarrow> task_exited c' t' = task_exited c t'"
    and "t \<noteq> T_Main \<Longrightarrow> th_main c' = th_main c \<and> th_handles c' = th_handles c"
proof -
  consider (main) "t = T_Main" "main_thread c = Returns c'" | (task) "t \<noteq> T_Main" "others_kept t c c'"
    using assms(2) Run_cases [of rnd t c c'] others_keptI by (cases "t = T_Main") auto
  then show "t' \<noteq> t \<Longrightarrow> in_section c' t' = in_section c t'" "t' \<noteq> t \<Longrightarrow> t' \<noteq> T_Main \<Longrightarrow> task_exited c' t' = task_exited c t'"
    "t \<noteq> T_Main \<Longrightarrow> th_main c' = th_main c \<and> th_handles c' = th_handles c"
    using main_sections [of c c' t'] by (cases; auto simp: others_kept_def)+
qed

lemma base_control_ok:
  assumes ok: "io_control_ok s" and t: "t = T_Main \<or> t \<in> set (th_handles (io_base s))"
    and idle: "io_idle s t" and wait: "\<not> join_waits s t" and step: "thread_do rnd (Run t) (io_base s) = Returns c"
  shows "io_control_ok (s\<lparr>io_base := c, io_todo := (io_todo s)(t := io_after t (io_base s) c)\<rparr>)"
proof -
  let ?s = "s\<lparr>io_base := c, io_todo := (io_todo s)(t := io_after t (io_base s) c)\<rparr>"
  note frame = base_frame [OF control_okD(1) [OF ok] step]
  have app: "set (th_handles (io_base s)) \<subseteq> set app_tasks" using control_okD(1) [OF ok] by (simp add: thread_ok_def)
  then have t_app: "t = T_Main \<or> t \<in> set app_tasks" using t by blast
  have others: "t' \<noteq> t \<Longrightarrow> io_idle ?s t' = io_idle s t'" for t' by (simp add: io_idle_def)
  have main: "main_thread (io_base s) = Returns c" if "t = T_Main" using step that by simp
  have pc: "lg_pc (io_log s) t = Lg_Idle" using idle by (simp add: io_idle_def)
  have "\<not> io_idle ?s t' \<Longrightarrow> \<not> in_section c t'" for t'
    using control_okD(2) [OF ok, of t'] frame(1) [of t'] others [of t'] io_after_outside [OF step] pc
    by (cases "t' = t") (auto simp: io_idle_def)
  moreover have "io_finished ?s t'" if j: "t' \<in> set (joined (th_main c))" "t' \<in> set (th_handles c)" for t'
  proof -
    have fin: "io_finished s t'"
    proof (cases "t = T_Main")
      case True
      note stage = main_stage(1,2) [OF main [OF True] j(1)]
      with wait True j(2) show ?thesis using control_okD(3) [OF ok, of t'] by (auto simp: join_waits_def)
    next
      case False
      with frame(3) j show ?thesis using control_okD(3) [OF ok, of t'] by simp
    qed
    have neq: "t' \<noteq> t"
    proof
      assume "t' = t"
      then have "task_exited (io_base s) t" using fin by (simp add: io_finished_def)
      then show False using Run_cases(4) [OF step] main_stage(4) [OF main] by (cases "t = T_Main") (auto simp: task_exited_def)
    qed
    have "t' \<noteq> T_Main"
    proof
      assume "t' = T_Main"
      then have "th_main (io_base s) = Ma_Exit" using fin by (simp add: io_finished_def task_exited_def)
      moreover from this have "t = T_Main" using neq \<open>t' = T_Main\<close> app t fin
        using control_okD(3) [OF ok, of t] Run_cases(4) [OF step] by (auto simp: io_finished_def)
      ultimately show False using neq \<open>t' = T_Main\<close> by simp
    qed
    with fin frame(2) [OF neq] others [OF neq] show ?thesis by (simp add: io_finished_def)
  qed
  moreover have "t' \<noteq> T_Main \<Longrightarrow> t' \<notin> set (th_handles c) \<Longrightarrow> lg_pc (io_log s) t' = Lg_Idle \<and> outer_list (io_todo ?s t')" for t'
    using control_okD(4) [OF ok, of t'] frame(3) main_stage(3) [OF main] t by (cases "t = T_Main") auto
  moreover have "t' \<noteq> T_Main \<Longrightarrow> x \<in> set (io_todo ?s t') \<Longrightarrow> \<not> closing x" for t' x
    using control_okD(5) [OF ok, of t' x] io_after_simple(2) [of x t "io_base s" c] by (cases "t' = t") auto
  moreover have "(\<exists>n. io_todo ?s T_Main = drop n closing_list) \<and> lg_pc (io_log s) T_Main = Lg_Idle" if "th_main c = Ma_Exit"
  proof (cases "t = T_Main")
    case True
    then have "th_main (io_base s) = Ma_Destroy" using main_stage(5) [OF main] that by simp
    then have "io_after T_Main (io_base s) c = closing_list" by (simp add: closing_list_def)
    then show ?thesis using True pc by (auto intro: exI [of _ 0])
  next
    case False
    then show ?thesis using control_okD(6) [OF ok] frame(3) that by simp
  qed
  moreover have "\<not> closing x" if "th_main c \<noteq> Ma_Exit" "x \<in> set (io_todo ?s T_Main)" for x
  proof (cases "t = T_Main")
    case True
    then have "th_main (io_base s) \<noteq> Ma_Destroy" using main_stage(5) [OF main] that(1) by simp
    then show ?thesis using that(2) True by (auto split: main_pc.splits)
  next
    case False
    then show ?thesis using control_okD(7) [OF ok, of x] frame(3) that by simp
  qed
  ultimately show ?thesis
    using thread_do_ok [OF control_okD(1) [OF ok] step] unfolding io_control_ok_def list_all_iff by auto
qed

lemma step_control_ok:
  assumes "io_control_ok s" and "io_step rnd t s = Returns s'" and "t = T_Main \<or> t \<in> set (th_handles (io_base s))"
  shows "io_control_ok s'"
  using assms(2)
proof (cases rule: io_step_cases)
  case (log l)
  with log_control_ok [OF assms(1,3)] show ?thesis by simp
next
  case (exec st sts s1 new)
  with exec_control_ok [OF assms(1,3)] show ?thesis by simp
next
  case (base c)
  with base_control_ok [OF assms(1,3)] show ?thesis by simp
qed

section \<open>The bus and the log\<close>

lemma step_bus_ok:
  assumes ok: "io_control_ok s" "io_bus_ok s" and step: "io_step rnd t s = Returns s'"
    and t: "t = T_Main \<or> t \<in> set (th_handles (io_base s))"
  shows "io_bus_ok s'"
  using step
proof (cases rule: io_step_cases)
  case (log l)
  then show ?thesis using ok(2) log_do_frame [OF log(2)] unfolding io_bus_ok_def bus_gone_def
    by (auto split: option.splits)
next
  case (exec st sts s1 new)
  have outer: "outer_list sts" using ok(2) exec(2) unfolding io_bus_ok_def by (metis list.sel(3))
  note frame = io_exec_frame [OF exec(3)]
  have sec: "bus_section s t = inner st" by (simp add: exec(2))
  have sec': "bus_section s' t' = (if t' = t then bus_head (new @ sts) else bus_section s t')" for t' by (simp add: exec(4))
  have tails: "outer_list (tl (io_todo s' t'))" if "outer_list (tl (new @ sts))" for t'
    using ok(2) that by (auto simp: exec(4) io_bus_ok_def)
  have pcs: "\<not> bus_section s' t'" if "lg_pc (io_log s') t' \<noteq> Lg_Idle" for t'
  proof (cases "t' = t")
    case True
    with that exec(1) have "lg_pc (io_log s1) t \<noteq> lg_pc (io_log s) t" by (simp add: exec(4))
    then have "new = []" using frame(6) by blast
    then show ?thesis using True sec' outer_head [OF outer] by simp
  next
    case False
    then show ?thesis using that ok(2) frame(3) sec' by (auto simp: exec(4) io_bus_ok_def)
  qed
  show ?thesis
  proof (cases "st = Bus_Destroy")
    case True
    then have tm: "t = T_Main" and main: "th_main (io_base s) = Ma_Exit"
      using control_okD(5) [OF ok(1), of t st] control_okD(7) [OF ok(1), of st] exec(2) by (cases "t = T_Main"; auto)+
    obtain n where "drop n closing_list = st # sts" using control_okD(6) [OF ok(1) main] exec(2) tm by metis
    then have sts: "sts = [Log_Destroy]"
      using True by (auto simp: closing_list_def drop_Cons split: nat.splits)
    have gone: "\<not> bus_gone s" using True exec(2) tm by (auto simp: bus_gone_def)
    then obtain m where m: "io_bus_lock s = Some m" "\<And>t'. bus_section s t' \<longleftrightarrow> m = Mx_Held t'"
      using ok(2) by (auto simp: io_bus_ok_def split: option.splits)
    have s1: "m = Mx_Free" "new = []" "s1 = s\<lparr>io_bus_lock := None\<rparr>" using exec(3) True m(1) by auto
    have "\<not> bus_section s' t'" for t' using sec' m(2) [of t'] s1 sts by simp
    moreover have "bus_gone s'" using main tm sts s1 by (auto simp: exec(4) bus_gone_def)
    ultimately show ?thesis using tails pcs s1 sts by (simp add: io_bus_ok_def exec(4))
  next
    case False
    note move = io_exec_bus [OF exec(3) outer False]
    have gone: "bus_gone s' = bus_gone s"
    proof (cases "t = T_Main \<and> th_main (io_base s) = Ma_Exit")
      case True
      then obtain n where "drop n closing_list = st # sts" using control_okD(6) [OF ok(1)] exec(2) by metis
      then have "st = Bus_Clear \<and> sts = [Bus_Destroy, Log_Destroy] \<or> st = Log_Destroy \<and> sts = []"
        using False by (auto simp: closing_list_def drop_Cons split: nat.splits)
      then show ?thesis using exec(2,3) frame(1,4) True by (auto simp: exec(4) bus_gone_def)
    next
      case False
      then show ?thesis using frame(1) by (auto simp: exec(4) bus_gone_def)
    qed
    show ?thesis
    proof (cases "io_bus_lock s")
      case None
      then show ?thesis using move(1) ok(2) sec sec' tails [OF move(2)] pcs gone
        by (auto simp: io_bus_ok_def bus_move_def exec(4))
    next
      case (Some m)
      then have m: "\<not> bus_gone s" "m \<noteq> Mx_None" "\<And>t'. bus_section s t' \<longleftrightarrow> m = Mx_Held t'"
        using ok(2) by (auto simp: io_bus_ok_def)
      obtain m' where m': "io_bus_lock s' = Some m'" "m' \<noteq> Mx_None"
        using move(1) Some m(2) by (auto simp: bus_move_def exec(4))
      have "bus_section s' t' \<longleftrightarrow> m' = Mx_Held t'" for t'
        using move(1) Some m' m(3) [of t'] m(3) [of t] sec sec' [of t'] by (auto simp: bus_move_def exec(4) split: if_splits)
      then show ?thesis using tails [OF move(2)] pcs gone m(1) m' by (simp add: io_bus_ok_def)
    qed
  qed
next
  case (base c)
  have pc: "lg_pc (io_log s) t = Lg_Idle" "\<not> bus_section s t" using base(1) by (simp_all add: io_idle_def)
  have sec': "bus_section s' t' = bus_section s t'" for t'
    using outer_head [OF io_after_outer] pc(2) by (simp add: base(4))
  have "outer_list (tl (io_after t (io_base s) c))" using io_after_outer [of t "io_base s" c] by (cases "io_after t (io_base s) c") auto
  then have tails: "outer_list (tl (io_todo s' t'))" for t' using ok(2) by (auto simp: base(4) io_bus_ok_def)
  have gone: "bus_gone s' = bus_gone s"
  proof (cases "t = T_Main")
    case True
    with base(3) have "main_thread (io_base s) = Returns c" by simp
    note stage = main_stage(4,5) [OF this]
    then show ?thesis using True by (auto simp: base(4) bus_gone_def)
  next
    case False
    then show ?thesis using base_frame(3) [OF control_okD(1) [OF ok(1)] base(3)] by (simp add: base(4) bus_gone_def)
  qed
  then show ?thesis using ok(2) tails sec' unfolding io_bus_ok_def
    by (simp add: base(4) split: option.splits)
qed

lemma log_run_mutex:
  assumes "log_run log_start ls l"
  obtains m where "lg_lock l = Some m" and "m \<noteq> Mx_None" and "\<And>t. in_line (lg_pc l t) \<longleftrightarrow> m = Mx_Held t"
proof -
  have "log_ok {} log_start" by (simp add: log_ok_def log_start_def open_part_def exI [of _ "[]"])
  from log_run_ok [OF assms this] that show ?thesis by (auto simp: log_ok_def)
qed

lemma step_log_ok:
  assumes ok: "io_control_ok s" "io_log_ok s" and step: "io_step rnd t s = Returns s'"
    and t: "t = T_Main \<or> t \<in> set (th_handles (io_base s))"
  shows "io_log_ok s'"
proof -
  have gone: "\<not> log_gone s" using exit_only_main [OF ok(1) step t] by (auto simp: log_gone_def)
  then obtain ls where run: "log_run log_start ls (io_log s)" using ok(2) by (auto simp: io_log_ok_def)
  show ?thesis
    using step
  proof (cases rule: io_step_cases)
    case (log l)
    have "log_run log_start (ls @ [Log_Step t]) l" using run log(2) by (rule log_run.log_snoc)
    moreover have "\<not> log_gone s'" using gone by (simp add: log(3) log_gone_def)
    ultimately show ?thesis unfolding io_log_ok_def by (auto simp: log(3))
  next
    case (exec st sts s1 new)
    note frame = io_exec_frame [OF exec(3)]
    show ?thesis
    proof (cases "st = Log_Destroy")
      case True
      then have tm: "t = T_Main" and main: "th_main (io_base s) = Ma_Exit"
        using control_okD(5) [OF ok(1), of t st] control_okD(7) [OF ok(1), of st] exec(2) by (cases "t = T_Main"; auto)+
      obtain n where "drop n closing_list = st # sts" using control_okD(6) [OF ok(1) main] exec(2) tm by metis
      then have sts: "sts = []" using True by (auto simp: closing_list_def drop_Cons split: nat.splits)
      have s1: "s1 = s\<lparr>io_log := (io_log s)\<lparr>lg_lock := None\<rparr>\<rparr>" "new = []"
        using exec(3) True by (auto simp: logger_shutdown_def)
      have "log_gone s'" using main tm sts s1 by (simp add: exec(4) log_gone_def)
      then show ?thesis using run by (auto simp: io_log_ok_def exec(4) s1)
    next
      case False
      have "\<not> log_gone s'"
      proof (cases "t = T_Main \<and> th_main (io_base s) = Ma_Exit")
        case True
        then obtain n where "drop n closing_list = st # sts" using control_okD(6) [OF ok(1)] exec(2) by metis
        then have "sts \<noteq> []" using False by (auto simp: closing_list_def drop_Cons split: nat.splits)
        then show ?thesis using True by (simp add: exec(4) log_gone_def)
      next
        case False
        then show ?thesis using gone frame(1) by (auto simp: exec(4) log_gone_def)
      qed
      moreover have "\<exists>ls. log_run log_start ls (io_log s1)"
      proof (cases st)
        case (Call_Log level task msg)
        then have "log_do (Log_Call t (th_tick (io_base s)) level task msg) (io_log s) = Returns (io_log s1)"
          using exec(1,3) by auto
        then show ?thesis using log_run.log_snoc [OF run] by blast
      next
        case (Deliver f subs)
        then show ?thesis using exec(3) run by (cases subs) (auto split: option.splits)
      qed (use False exec(3) run in \<open>auto simp: with_bus_lock_def split: option.splits if_splits\<close>)
      ultimately show ?thesis by (simp add: io_log_ok_def exec(4))
    qed
  next
    case (base c)
    have "\<not> log_gone s'"
    proof (cases "t = T_Main")
      case True
      with base(3) have "main_thread (io_base s) = Returns c" by simp
      note stage = main_stage(4,5) [OF this]
      then show ?thesis using True by (auto simp: base(4) log_gone_def)
    next
      case False
      then show ?thesis using gone base_frame(3) [OF control_okD(1) [OF ok(1)] base(3)] by (simp add: base(4) log_gone_def)
    qed
    then show ?thesis using run by (auto simp: io_log_ok_def base(4))
  qed
qed

lemma io_do_ok:
  assumes ok: "io_ok s" and step: "io_do rnd l s = Returns s'"
  shows "io_ok s'"
proof (cases l)
  case (Run t)
  then have "io_step rnd t s = Returns s'" "t = T_Main \<or> t \<in> set (th_handles (io_base s))" using step by (auto split: if_splits)
  with ok show ?thesis using step_control_ok step_bus_ok step_log_ok unfolding io_ok_def by blast
next
  case (Elapse d)
  define c where "c = (io_base s)\<lparr>th_tick := th_tick (io_base s) + d\<rparr>"
  have c: "in_section c t = in_section (io_base s) t" "task_exited c t = task_exited (io_base s) t" for t
    by (cases t; simp add: c_def task_exited_def)+
  have s': "s' = s\<lparr>io_base := c\<rparr>" using step Elapse by (simp add: c_def)
  have "thread_ok c" using thread_do_ok [of "io_base s" rnd "Elapse d" c] ok by (simp add: io_ok_def io_control_ok_def c_def)
  then have "io_control_ok s'" using ok c unfolding io_ok_def io_control_ok_def
    by (simp add: s' io_finished_def io_idle_def) (simp add: c_def)
  moreover have "bus_gone s' = bus_gone s" "log_gone s' = log_gone s" by (simp_all add: bus_gone_def log_gone_def s' c_def)
  ultimately show ?thesis using ok unfolding io_ok_def io_bus_ok_def io_log_ok_def by (simp add: s' split: option.splits)
next
  case Create_Fails
  then obtain c u us where main: "io_idle s T_Main" "th_main (io_base s) = Ma_Create (u # us)"
    "c = (io_base s)\<lparr>th_main := Ma_Create us\<rparr>" "s' = s\<lparr>io_base := c\<rparr>"
    using step by (auto split: if_splits main_pc.splits list.splits)
  have sec: "in_section c t = in_section (io_base s) t" for t by (cases t) (simp_all add: main)
  have "thread_ok c" using thread_do_ok [of "io_base s" rnd Create_Fails c] ok main by (simp add: io_ok_def io_control_ok_def)
  then have "io_control_ok s'" using ok sec unfolding io_ok_def io_control_ok_def by (simp add: main io_idle_def)
  moreover have "bus_gone s' = bus_gone s" "log_gone s' = log_gone s" by (simp_all add: bus_gone_def log_gone_def main)
  ultimately show ?thesis using ok unfolding io_ok_def io_bus_ok_def io_log_ok_def
    by (simp add: main split: option.splits)
qed

lemma io_init_ok: "io_ok (io_init rnd arg True)"
proof -
  have start: "outer_list (io_start t)" "list_all (\<lambda>st. \<not> closing st) (io_start t)" for t by (cases t; simp)+
  have tl: "outer_list (tl (io_start t))" for t by (cases t) simp_all
  have "\<not> in_section (thread_init rnd arg) t" for t
    using thread_init_ok [of rnd arg] by (cases t) (simp_all add: thread_init_def Let_def app_context_init_def)
  moreover have "th_main (thread_init rnd arg) = Ma_Create app_tasks" "th_handles (thread_init rnd arg) = []"
    by (simp_all add: thread_init_def Let_def app_context_init_def)
  ultimately show ?thesis
    using start tl outer_head [OF start(1)] log_run.log_nil [of log_start] thread_init_ok [of rnd arg]
    unfolding io_ok_def io_control_ok_def io_bus_ok_def io_log_ok_def
    by (auto simp: io_init_def log_start_def bus_gone_def log_gone_def)
qed

lemma io_run_ok: "io_run rnd s ls s' \<Longrightarrow> io_ok s \<Longrightarrow> io_ok s'"
  by (induction rule: io_run.induct) (auto intro: io_do_ok)

end
