(* ===== verification/Io_Delivery.thy ===== *)
theory Io_Delivery
  imports Io_Invariant
begin

text \<open>
  The frames of the CAN task on their way to the subscriber: the registration happens once and before
  the first frame, and from then on what the subscriber has received, followed by what is still being
  delivered, is what the CAN task has sent, in order. None of these frames is a charge command.
\<close>

section \<open>The frames of the CAN task\<close>

definition own_frame :: "can_frame_t \<Rightarrow> bool" where
  "own_frame f \<longleftrightarrow>
     (can_id f = CAN_ID_BMS_STATUS \<or> can_id f = CAN_ID_CELL_VOLTAGES \<or> can_id f = CAN_ID_FAULT_REPORT) \<and>
     unat (dlc f) \<le> CAN_MAX_DLC"

lemma own_frame_simps [simp]:
  "own_frame (can_protocol_pack_status m)" "own_frame (can_protocol_pack_cell_voltages cv)"
  "own_frame (can_protocol_pack_fault r)"
  using status_msg.pack_header(1) cells_msg.pack_header(1) fault_msg.pack_header(1)
    status_msg.pack_dlc_bound cells_msg.pack_dlc_bound fault_msg.pack_dlc_bound
  by (simp_all add: own_frame_def)

lemma own_frame_no_command: "own_frame f \<Longrightarrow> on_charge_command f = []"
  by (auto simp: own_frame_def on_charge_command_def can_protocol_unpack_charge_command_def frame_defs)

lemma own_frame_silent: "own_frame f \<Longrightarrow> callback_stmts cb f = []"
  by (cases cb) (simp add: own_frame_no_command)

lemma bus_grows:
  assumes "thread_do rnd (Run t) c = Returns c'"
  shows "\<exists>fs. th_bus c' = th_bus c @ fs \<and> list_all own_frame fs \<and> length fs \<le> 1 \<and> (t \<noteq> T_Can \<longrightarrow> fs = []) \<and>
    (th_can c' = Ca_Exit \<longrightarrow> fs = [])"
proof (cases t)
  case T_Can
  with assms show ?thesis by (cases "th_can c") (auto simp: task_can_main_def split: if_splits)
next
  case T_Main
  with assms show ?thesis by (auto simp: main_thread_def split: main_pc.splits list.splits if_splits)
qed (use assms in \<open>auto simp: task_sensor_main_def task_soc_main_def task_fault_main_def task_watchdog_main_def
    case_prod_unfold Let_def split: if_splits sensor_pc.splits soc_pc.splits fault_pc.splits watchdog_thread_pc.splits\<close>)

section \<open>The invariant\<close>

text \<open>A statement that neither registers nor sends.\<close>

fun quiet :: "io_stmt \<Rightarrow> bool" where
  "quiet (Call_Log _ _ _) = True" | "quiet Bus_Clear = True" | "quiet Bus_Destroy = True" | "quiet Log_Destroy = True"
| "quiet _ = False"

definition rx_sub :: "(bus_callback, unit) subscriber_t" where
  "rx_sub = \<lparr>sub_cb = Some On_Charge_Command, sub_ctx = Some ()\<rparr>"

text \<open>What a statement of the CAN task after its registration still delivers.\<close>

fun undelivered :: "io_stmt \<Rightarrow> can_frame_t list" where
  "undelivered (Call_Send f) = [f]" | "undelivered (Send_Lock f) = [f]" | "undelivered (Send_Copy f) = [f]"
| "undelivered (Send_Unlock f subs) = map (\<lambda>_. f) subs" | "undelivered (Deliver f subs) = map (\<lambda>_. f) subs"
| "undelivered _ = []"

fun sending_ok :: "io_stmt \<Rightarrow> bool" where
  "sending_ok (Call_Log _ _ _) = True" | "sending_ok Sub_Unlock = True"
| "sending_ok (Call_Send f) = own_frame f" | "sending_ok (Send_Lock f) = own_frame f" | "sending_ok (Send_Copy f) = own_frame f"
| "sending_ok (Send_Unlock f subs) \<longleftrightarrow> own_frame f \<and> subs = [rx_sub]"
| "sending_ok (Deliver f subs) \<longleftrightarrow> own_frame f \<and> (subs = [rx_sub] \<or> subs = [])"
| "sending_ok _ = False"

definition pending_frames :: "io_threads \<Rightarrow> can_frame_t list" where
  "pending_frames s = concat (map undelivered (io_todo s T_Can))"

definition not_registered :: "io_threads \<Rightarrow> bool" where
  "not_registered s \<longleftrightarrow>
     io_todo s T_Can \<in> (\<lambda>st. st # tl (io_start T_Can)) `
       {Sub_Test On_Charge_Command, Sub_Lock On_Charge_Command, Sub_Write On_Charge_Command} \<and>
     g_sub_count (io_bus s) = 0 \<and> length (g_subs (io_bus s)) = MAX_SUBSCRIBERS \<and> th_bus (io_base s) = [] \<and> io_received s = []"

definition registered :: "io_threads \<Rightarrow> bool" where
  "registered s \<longleftrightarrow>
     list_all sending_ok (io_todo s T_Can) \<and> (bus_entries (io_bus s) = [rx_sub] \<or> th_main (io_base s) = Ma_Exit) \<and>
     map (Pair On_Charge_Command) (th_bus (io_base s)) =
       io_received s @ map (Pair On_Charge_Command) (pending_frames s)"

definition delivery_ok :: "io_threads \<Rightarrow> bool" where
  "delivery_ok s \<longleftrightarrow>
     (\<forall>t. t \<noteq> T_Can \<longrightarrow> list_all quiet (io_todo s t)) \<and> (not_registered s \<or> registered s)"

lemma quiet_exec:
  assumes "quiet st" and "io_exec t st s = Returns (s', new)"
  shows "new = []" and "io_received s' = io_received s" and "st \<noteq> Bus_Clear \<Longrightarrow> io_bus s' = io_bus s"
    and "io_bus s' = io_bus s \<or> io_bus s' = (io_bus s)\<lparr>g_sub_count := 0\<rparr>"
  using assms by (cases st; auto split: if_splits)+

lemma io_after_quiet: "t \<noteq> T_Can \<Longrightarrow> list_all quiet (io_after t c c')"
  by (cases t) (auto simp: list_all_iff split: if_splits fault_pc.splits watchdog_thread_pc.splits main_pc.splits)

text \<open>A statement of another thread.\<close>

lemma quiet_delivery:
  assumes ok: "io_control_ok s" "delivery_ok s" and t: "t \<noteq> T_Can" and todo: "io_todo s t = st # sts"
    and ex: "io_exec t st s = Returns (s1, new)"
  shows "delivery_ok (s1\<lparr>io_todo := (io_todo s)(t := new @ sts)\<rparr>)"
proof -
  let ?s = "s1\<lparr>io_todo := (io_todo s)(t := new @ sts)\<rparr>"
  have q: "quiet st" "list_all quiet sts" using ok(2) t todo by (auto simp: delivery_ok_def)
  note new = quiet_exec [OF q(1) ex]
  note base = io_exec_frame(1) [OF ex]
  have others: "t' \<noteq> T_Can \<Longrightarrow> list_all quiet (io_todo ?s t')" for t'
    using ok(2) q(2) new(1) by (auto simp: delivery_ok_def)
  have todo_can: "io_todo ?s T_Can = io_todo s T_Can" using t by simp
  have "not_registered ?s" if "not_registered s"
    using that new(2,4) base todo_can by (auto simp: not_registered_def)
  moreover have "registered ?s" if r: "registered s"
  proof (cases "st = Bus_Clear")
    case True
    then have "th_main (io_base s) = Ma_Exit"
      using control_okD(5) [OF ok(1), of t st] control_okD(7) [OF ok(1), of st] todo by (cases "t = T_Main") auto
    then show ?thesis using r new(2) base todo_can by (simp add: registered_def pending_frames_def)
  next
    case False
    then show ?thesis using r new(2,3) base todo_can by (simp add: registered_def pending_frames_def)
  qed
  ultimately show ?thesis using others ok(2) unfolding delivery_ok_def by blast
qed

text \<open>A statement of the CAN task.\<close>

lemma can_registers:
  assumes nr: "not_registered s" and main: "th_main (io_base s) \<noteq> Ma_Exit"
    and todo: "io_todo s T_Can = st # sts" and ex: "io_exec T_Can st s = Returns (s1, new)"
    and s': "s' = s1\<lparr>io_todo := (io_todo s)(T_Can := new @ sts)\<rparr>"
  shows "not_registered s' \<or> registered s'"
proof -
  have bus: "g_sub_count (io_bus s) = 0" "length (g_subs (io_bus s)) = MAX_SUBSCRIBERS" "th_bus (io_base s) = []"
    "io_received s = []" and sts: "sts = tl (io_start T_Can)"
    using nr todo by (auto simp: not_registered_def)
  consider (test) "st = Sub_Test On_Charge_Command" | (lock) "st = Sub_Lock On_Charge_Command"
    | (wr) "st = Sub_Write On_Charge_Command" using nr todo by (auto simp: not_registered_def)
  then show ?thesis
  proof cases
    case test
    then have "s1 = s" "new = [Sub_Lock On_Charge_Command]" using ex bus by (auto simp: MAX_SUBSCRIBERS_def)
    then show ?thesis using bus sts by (simp add: not_registered_def s')
  next
    case lock
    then have "new = [Sub_Write On_Charge_Command]" "io_bus s1 = io_bus s" "io_received s1 = io_received s" "io_base s1 = io_base s"
      using ex by (auto simp: with_bus_lock_def split: option.splits)
    then show ?thesis using bus sts by (simp add: not_registered_def s')
  next
    case wr
    then have s1: "s1 = s\<lparr>io_bus := subscribe_write (io_bus s) (Some On_Charge_Command) (Some ())\<rparr>" "new = [Sub_Unlock]"
      using ex by auto
    have "take 1 ((g_subs (io_bus s))[0 := rx_sub]) = [rx_sub]"
      using bus(2) by (cases "g_subs (io_bus s)") (simp_all add: MAX_SUBSCRIBERS_def)
    then have "bus_entries (io_bus s1) = [rx_sub]"
      using bus(1) by (simp add: s1 bus_entries_def subscribe_write_def rx_sub_def)
    then show ?thesis using bus sts s1 by (simp add: registered_def pending_frames_def s')
  qed
qed

lemma can_sends:
  assumes r: "registered s" and main: "th_main (io_base s) \<noteq> Ma_Exit"
    and todo: "io_todo s T_Can = st # sts" and ex: "io_exec T_Can st s = Returns (s1, new)"
    and s': "s' = s1\<lparr>io_todo := (io_todo s)(T_Can := new @ sts)\<rparr>"
  shows "registered s'"
proof -
  have sub: "bus_entries (io_bus s) = [rx_sub]" and st: "sending_ok st" and sts: "list_all sending_ok sts"
    and bal: "map (Pair On_Charge_Command) (th_bus (io_base s)) =
       io_received s @ map (Pair On_Charge_Command) (undelivered st @ concat (map undelivered sts))"
    using r main todo by (auto simp: registered_def pending_frames_def)
  have todo': "io_todo s' T_Can = new @ sts" by (simp add: s')
  have "list_all sending_ok new \<and> io_base s1 = io_base s \<and> io_bus s1 = io_bus s \<and>
      io_received s @ map (Pair On_Charge_Command) (undelivered st) =
      io_received s1 @ map (Pair On_Charge_Command) (concat (map undelivered new))"
  proof (cases st)
    case (Call_Send f)
    then show ?thesis using ex st by (auto simp: own_frame_def)
  next
    case (Send_Copy f)
    then show ?thesis using ex st sub by (auto simp: bus_entries_def)
  next
    case (Deliver f subs)
    then consider "subs = []" | "subs = [rx_sub]" using st by auto
    then show ?thesis
      using ex st Deliver own_frame_silent [of f On_Charge_Command] by cases (auto simp: rx_sub_def)
  qed (use ex st in \<open>auto simp: with_bus_lock_def split: option.splits if_splits\<close>)
  then show ?thesis using sub sts bal todo' by (simp add: registered_def pending_frames_def s')
qed

lemma step_delivery_ok:
  assumes ok: "io_control_ok s" "delivery_ok s" and step: "io_step rnd t s = Returns s'"
    and t: "t = T_Main \<or> t \<in> set (th_handles (io_base s))"
  shows "delivery_ok s'"
  using step
proof (cases rule: io_step_cases)
  case (log l)
  with ok(2) show ?thesis by (simp add: delivery_ok_def not_registered_def registered_def pending_frames_def)
next
  case (exec st sts s1 new)
  show ?thesis
  proof (cases "t = T_Can")
    case True
    have main: "th_main (io_base s) \<noteq> Ma_Exit" using exit_only_main(1) [OF ok(1) step t] True by auto
    have "not_registered s' \<or> registered s'"
      using ok(2) can_registers [OF _ main] can_sends [OF _ main] exec(2-4) True unfolding delivery_ok_def by blast
    then show ?thesis using ok(2) True by (simp add: delivery_ok_def exec(4))
  next
    case False
    then show ?thesis using quiet_delivery [OF ok False exec(2,3)] by (simp add: exec(4))
  qed
next
  case (base c)
  obtain fs where fs: "th_bus c = th_bus (io_base s) @ fs" "list_all own_frame fs" "t \<noteq> T_Can \<longrightarrow> fs = []"
    using bus_grows [OF base(3)] by blast
  show ?thesis
  proof (cases "t = T_Can")
    case True
    then have "io_todo s T_Can = []" using base(1) by (simp add: io_idle_def)
    then have r: "registered s" using ok(2) by (auto simp: delivery_ok_def not_registered_def)
    have main: "th_main c = th_main (io_base s)"
      using base_frame(3) [OF control_okD(1) [OF ok(1)] base(3)] True by simp
    have undel: "concat (map undelivered (map Call_Send fs)) = fs" by (induction fs) simp_all
    have "list_all sending_ok (map Call_Send fs)" using fs(2) by (simp add: list_all_iff)
    then have "list_all sending_ok (io_todo s' T_Can)" "pending_frames s' = fs"
      using undel by (simp_all add: base(4) True fs(1) pending_frames_def)
    moreover have "pending_frames s = []" by (simp add: pending_frames_def \<open>io_todo s T_Can = []\<close>)
    ultimately have "registered s'" using r main by (simp add: registered_def base(4) fs(1))
    then show ?thesis using ok(2) by (simp add: delivery_ok_def base(4) True)
  next
    case False
    have main: "th_main c = Ma_Exit" if "th_main (io_base s) = Ma_Exit"
      using that base(3) base_frame(3) [OF control_okD(1) [OF ok(1)] base(3)] main_stage(4) [of "io_base s" c]
      by (cases "t = T_Main") auto
    show ?thesis using ok(2) False fs(1,3) io_after_quiet [OF False] main
      by (auto simp: delivery_ok_def not_registered_def registered_def pending_frames_def base(4))
  qed
qed

lemma io_do_delivery:
  assumes ok: "io_ok s" "delivery_ok s" and step: "io_do rnd l s = Returns s'"
  shows "delivery_ok s'"
proof (cases l)
  case (Run t)
  then have "io_step rnd t s = Returns s'" "t = T_Main \<or> t \<in> set (th_handles (io_base s))" using step by (auto split: if_splits)
  with ok show ?thesis using step_delivery_ok unfolding io_ok_def by blast
next
  case (Elapse d)
  then show ?thesis using ok(2) step
    by (auto simp: delivery_ok_def not_registered_def registered_def pending_frames_def)
next
  case Create_Fails
  then show ?thesis using ok(2) step
    by (auto simp: delivery_ok_def not_registered_def registered_def pending_frames_def
        split: if_splits main_pc.splits list.splits)
qed

lemma io_init_delivery: "delivery_ok (io_init rnd arg up)"
proof -
  have "t \<noteq> T_Can \<Longrightarrow> list_all quiet (io_start t)" for t by (cases t) simp_all
  moreover have "not_registered (io_init rnd arg up)"
    by (simp add: not_registered_def io_init_def can_hal_init_def thread_init_def case_prod_unfold Let_def)
  ultimately show ?thesis by (simp add: delivery_ok_def io_init_def)
qed

lemma io_run_delivery: "io_run rnd s ls s' \<Longrightarrow> io_ok s \<Longrightarrow> delivery_ok s \<Longrightarrow> delivery_ok s'"
proof (induction rule: io_run.induct)
  case (io_snoc s ls s' l s'')
  then show ?case using io_run_ok io_do_delivery by blast
qed simp

lemmas io_reachable = io_run_ok [OF _ io_init_ok] io_run_delivery [OF _ io_init_ok io_init_delivery]

lemma io_own_frames:
  assumes "io_run rnd (io_init rnd arg True) ls s"
  shows "list_all own_frame (th_bus (io_base s))"
  using assms
proof (induction "io_init rnd arg True" ls s rule: io_run.induct)
  case io_nil
  show ?case by (simp add: io_init_def thread_init_def case_prod_unfold Let_def)
next
  case (io_snoc ls s l s')
  show ?case
  proof (cases l)
    case (Run t)
    then have "io_step rnd t s = Returns s'" using io_snoc(3) by (simp split: if_splits)
    then show ?thesis
    proof (cases rule: io_step_cases)
      case (base c)
      then show ?thesis using bus_grows [OF base(3)] io_snoc(2) by auto
    qed (use io_snoc(2) io_exec_frame(1) in auto)
  qed (use io_snoc(2,3) in \<open>auto split: if_splits main_pc.splits list.splits\<close>)
qed

end
