(* ===== verification/Io_Progress.thy ===== *)
theory Io_Progress
  imports Io_Delivery
begin

text \<open>
  What the program with its three mutexes promises: its runs project to runs of \<open>Bms_Threads\<close> and
  of the logger, no thread owns two mutexes, no call is undefined, some thread can go on until \<open>main\<close>
  has returned, and after the shutdown request the number of statements left is bounded.
\<close>

section \<open>Projections\<close>

lemma io_do_base:
  assumes "io_do rnd l s = Returns s'"
  shows "io_base s' = io_base s \<or> thread_do rnd l (io_base s) = Returns (io_base s')"
proof (cases l)
  case (Run t)
  then have "io_step rnd t s = Returns s'" using assms by (simp split: if_splits)
  then show ?thesis using Run io_exec_frame(1) by (cases rule: io_step_cases) auto
qed (use assms in \<open>auto split: if_splits main_pc.splits list.splits\<close>)

lemma io_run_base:
  assumes "io_run rnd s ls s'"
  shows "\<exists>ls'. thread_run rnd (io_base s) ls' (io_base s') \<and> count_list ls' (Run T_Soc) \<le> count_list ls (Run T_Soc)"
  using assms
proof (induction rule: io_run.induct)
  case (io_nil s)
  show ?case by (rule exI [of _ "[]"]) (simp add: thread_run.thread_nil)
next
  case (io_snoc s ls s' l s'')
  then obtain ls' where run: "thread_run rnd (io_base s) ls' (io_base s')"
    and n: "count_list ls' (Run T_Soc) \<le> count_list ls (Run T_Soc)" by blast
  from io_do_base [OF io_snoc.hyps(2)] show ?case
  proof
    assume "thread_do rnd l (io_base s') = Returns (io_base s'')"
    then have "thread_run rnd (io_base s) (ls' @ [l]) (io_base s'')" by (rule thread_run.thread_snoc [OF run])
    then show ?thesis using n by (intro exI [of _ "ls' @ [l]"]) simp
  qed (use run n in \<open>auto intro!: exI [of _ ls']\<close>)
qed

lemma io_base_init [simp]: "io_base (io_init rnd arg up) = thread_init rnd arg"
  by (simp add: io_init_def)

section \<open>What has been closed is not used any more\<close>

lemma exit_idle:
  assumes ok: "io_control_ok s" and main: "th_main (io_base s) = Ma_Exit"
  shows "lg_pc (io_log s) t = Lg_Idle" and "t \<noteq> T_Main \<Longrightarrow> outer_list (io_todo s t)"
    and "t \<noteq> T_Main \<Longrightarrow> t \<in> set (th_handles (io_base s)) \<Longrightarrow> io_finished s t"
proof -
  have fin: "io_finished s t" if "t \<noteq> T_Main" "t \<in> set (th_handles (io_base s))"
    using control_okD(1) [OF ok] control_okD(3) [OF ok, of t] that main by (auto simp: thread_ok_def)
  then show "t \<noteq> T_Main \<Longrightarrow> t \<in> set (th_handles (io_base s)) \<Longrightarrow> io_finished s t" .
  show "lg_pc (io_log s) t = Lg_Idle" "t \<noteq> T_Main \<Longrightarrow> outer_list (io_todo s t)"
    using fin control_okD(4) [OF ok, of t] control_okD(6) [OF ok main]
    by (cases "t = T_Main"; cases "t \<in> set (th_handles (io_base s))"; simp add: io_finished_def io_idle_def)+
qed

lemma log_mutex:
  assumes "io_log_ok s" and "\<not> log_gone s"
  obtains m calls where "lg_lock (io_log s) = Some m" and "m \<noteq> Mx_None" and "\<And>t. log_section s t \<longleftrightarrow> m = Mx_Held t"
    and "log_ok calls (io_log s)"
proof -
  obtain ls where run: "log_run log_start ls (io_log s)" using assms by (auto simp: io_log_ok_def)
  have "log_ok {} log_start" by (simp add: log_ok_def log_start_def open_part_def exI [of _ "[]"])
  from log_run_ok [OF run this] show ?thesis using that by (auto simp: log_ok_def)
qed

lemma log_gone_idle:
  assumes "io_control_ok s" and "log_gone s" and "t = T_Main \<or> t \<in> set (th_handles (io_base s))"
  shows "io_idle s t"
  using exit_idle [OF assms(1), of t] assms(2,3) by (auto simp: log_gone_def io_idle_def io_finished_def)

text \<open>The mutex of the bus, as long as a thread is about to use it.\<close>

lemma bus_mutex:
  assumes ok: "io_control_ok s" "io_bus_ok s" and t: "t = T_Main \<or> t \<in> set (th_handles (io_base s))"
    and todo: "io_todo s t = st # sts" "st \<noteq> Log_Destroy"
  obtains m where "io_bus_lock s = Some m" and "m \<noteq> Mx_None" and "\<And>t. bus_section s t \<longleftrightarrow> m = Mx_Held t"
proof -
  have "\<not> bus_gone s"
    using exit_idle(3) [OF ok(1), of t] t todo
    by (cases "t = T_Main") (auto simp: bus_gone_def io_finished_def io_idle_def)
  then show ?thesis using that ok(2) by (auto simp: io_bus_ok_def split: option.splits)
qed

section \<open>No undefined call\<close>

lemma destroys_free:
  assumes ok: "io_ok s" and t: "t = T_Main \<or> t \<in> set (th_handles (io_base s))" and todo: "io_todo s t = st # sts"
  shows "st = Bus_Destroy \<Longrightarrow> io_bus_lock s = Some Mx_Free" and "st = Log_Destroy \<Longrightarrow> lg_lock (io_log s) = Some Mx_Free"
proof -
  have ok': "io_control_ok s" "io_bus_ok s" "io_log_ok s" using ok by (simp_all add: io_ok_def)
  have main: "th_main (io_base s) = Ma_Exit \<and> t = T_Main" if "closing st"
    using control_okD(5) [OF ok'(1), of t st] control_okD(7) [OF ok'(1), of st] todo that by (cases "t = T_Main") auto
  show "io_bus_lock s = Some Mx_Free" if st: "st = Bus_Destroy"
  proof -
    have m: "th_main (io_base s) = Ma_Exit" "t = T_Main" using main st by auto
    obtain m where lock: "io_bus_lock s = Some m" "m \<noteq> Mx_None" "\<And>t. bus_section s t \<longleftrightarrow> m = Mx_Held t"
      by (rule bus_mutex [OF ok'(1,2) t todo]) (use st in auto)
    have "\<not> bus_section s t'" for t'
      using exit_idle(2) [OF ok'(1) m(1), of t'] outer_head todo st m(2) by (cases "t' = T_Main") auto
    then show ?thesis using lock by (cases m) auto
  qed
  show "lg_lock (io_log s) = Some Mx_Free" if st: "st = Log_Destroy"
  proof -
    have m: "th_main (io_base s) = Ma_Exit" "t = T_Main" using main st by auto
    have "\<not> log_gone s" using m todo by (simp add: log_gone_def)
    from log_mutex [OF ok'(3) this] obtain m where lock: "lg_lock (io_log s) = Some m" "m \<noteq> Mx_None"
      "\<And>t. log_section s t \<longleftrightarrow> m = Mx_Held t" by metis
    have "\<not> log_section s t'" for t' using exit_idle(1) [OF ok'(1) m(1), of t'] by simp
    then show ?thesis using lock by (cases m) auto
  qed
qed

lemma io_exec_defined:
  assumes ok: "io_ok s" and t: "t = T_Main \<or> t \<in> set (th_handles (io_base s))" and todo: "io_todo s t = st # sts"
  shows "io_exec t st s \<noteq> Undefined"
proof (cases "st = Log_Destroy \<or> st = Bus_Destroy")
  case True
  then show ?thesis using destroys_free [OF ok t todo] by (auto simp: logger_shutdown_def)
next
  case False
  have "io_control_ok s" "io_bus_ok s" using ok by (simp_all add: io_ok_def)
  then obtain m where m: "io_bus_lock s = Some m" "m \<noteq> Mx_None" "\<And>t. bus_section s t \<longleftrightarrow> m = Mx_Held t"
    using bus_mutex [OF _ _ t todo] False by metis
  have sec: "inner st \<Longrightarrow> m = Mx_Held t" using m(3) [of t] todo by simp
  show ?thesis
  proof (cases st)
    case (Deliver f subs)
    then show ?thesis by (cases subs) (auto split: option.splits)
  qed (use False m sec in \<open>auto simp: with_bus_lock_def\<close>)
qed

lemma io_step_defined:
  assumes ok: "io_ok s" and t: "t = T_Main \<or> t \<in> set (th_handles (io_base s))"
    and base: "thread_do rnd (Run t) (io_base s) \<noteq> Undefined"
  shows "io_step rnd t s \<noteq> Undefined"
proof (cases "lg_pc (io_log s) t = Lg_Idle")
  case True
  show ?thesis
  proof (cases "io_todo s t")
    case Nil
    then show ?thesis using True base by (simp add: io_step_def base_step_def)
  next
    case (Cons st sts)
    then show ?thesis using True io_exec_defined [OF ok t Cons] by (simp add: io_step_def)
  qed
next
  case False
  have "\<not> log_gone s" using log_gone_idle [of s t] ok t False by (auto simp: io_ok_def io_idle_def)
  then obtain calls where "log_ok calls (io_log s)" using ok log_mutex unfolding io_ok_def by metis
  from log_do_defined [OF this, of "Log_Step t"] show ?thesis using False by (simp add: io_step_def del: log_do.simps)
qed

lemma io_do_defined:
  assumes "io_ok s" and "\<And>l. thread_do rnd l (io_base s) \<noteq> Undefined"
  shows "io_do rnd l s \<noteq> Undefined"
proof (cases l)
  case (Run t)
  then show ?thesis using io_step_defined [OF assms(1) _ assms(2), of t] by simp
qed (use assms(2) [of l] in simp_all)

section \<open>No thread owns two mutexes\<close>

definition owned :: "io_threads \<Rightarrow> task_id \<Rightarrow> nat" where
  "owned s t = of_bool (th_lock (io_base s) = Mx_Held t) + of_bool (io_bus_lock s = Some (Mx_Held t)) +
     of_bool (lg_lock (io_log s) = Some (Mx_Held t))"

lemma owned_le_1:
  assumes ok: "io_ok s"
  shows "owned s t \<le> 1"
proof -
  have ok': "io_control_ok s" "io_bus_ok s" "io_log_ok s" using ok by (simp_all add: io_ok_def)
  have ctx: "th_lock (io_base s) = Mx_Held t \<Longrightarrow> io_idle s t"
    using control_okD(1,2) [OF ok'(1)] section_owner [of "io_base s" t] by blast
  have bus: "io_bus_lock s = Some (Mx_Held t) \<Longrightarrow> bus_section s t \<and> lg_pc (io_log s) t = Lg_Idle"
    using ok'(2) by (auto simp: io_bus_ok_def)
  have "lg_lock (io_log s) = Some (Mx_Held t) \<Longrightarrow> log_section s t"
  proof (cases "log_gone s")
    case True
    moreover assume "lg_lock (io_log s) = Some (Mx_Held t)"
    ultimately show ?thesis using ok'(3) by (auto simp: io_log_ok_def)
  next
    case False
    moreover assume "lg_lock (io_log s) = Some (Mx_Held t)"
    ultimately show ?thesis using log_mutex [OF ok'(3)] by (metis option.inject)
  qed
  then show ?thesis using ctx bus by (auto simp: owned_def io_idle_def of_bool_def)
qed

section \<open>No deadlock\<close>

lemma log_blocks: "log_do (Log_Step t) l = Blocks \<Longrightarrow> lg_pc l t \<noteq> Lg_Idle \<Longrightarrow> (\<exists>t'. lg_lock l = Some (Mx_Held t')) \<and> \<not> in_line (lg_pc l t)"
  by (cases "lg_pc l t") (auto simp: with_lock_def split: option.splits)

lemma exec_blocks:
  assumes "io_exec t st s = Blocks" and "lg_pc (io_log s) t = Lg_Idle"
  shows "(\<exists>t'. io_bus_lock s = Some (Mx_Held t')) \<and> \<not> inner st"
proof (cases st)
  case (Deliver f subs)
  with assms show ?thesis by (cases subs) (auto split: option.splits)
qed (use assms in \<open>auto simp: with_bus_lock_def logger_shutdown_def split: option.splits if_splits\<close>)

lemma busy_runs:
  assumes ok: "io_ok s" and t: "t = T_Main \<or> t \<in> set (th_handles (io_base s))" and busy: "\<not> io_idle s t"
    and "log_section s t \<or> (\<nexists>t. lg_lock (io_log s) = Some (Mx_Held t))"
    and "bus_section s t \<or> lg_pc (io_log s) t \<noteq> Lg_Idle \<or> (\<nexists>t. io_bus_lock s = Some (Mx_Held t))"
  shows "io_do rnd (Run t) s \<noteq> Blocks"
proof (cases "lg_pc (io_log s) t = Lg_Idle")
  case True
  then obtain st sts where todo: "io_todo s t = st # sts" using busy by (cases "io_todo s t") (auto simp: io_idle_def)
  have "io_exec t st s \<noteq> Blocks" using exec_blocks [of t st s] True todo assms(5) by auto
  then show ?thesis using True todo t by (simp add: io_step_def)
next
  case False
  then show ?thesis using log_blocks [of t "io_log s"] assms(4) t by (auto simp: io_step_def)
qed

lemma some_io_runs:
  assumes ok: "io_ok s" and alive: "\<not> io_finished s T_Main"
  shows "\<exists>t. io_do rnd (Run t) s \<noteq> Blocks"
proof -
  have ok': "io_control_ok s" "io_bus_ok s" "io_log_ok s" using ok by (simp_all add: io_ok_def)
  consider (log) t where "lg_lock (io_log s) = Some (Mx_Held t)"
    | (bus) t where "io_bus_lock s = Some (Mx_Held t)" "\<nexists>t. lg_lock (io_log s) = Some (Mx_Held t)"
    | (busy) t where "\<not> io_idle s t" "t = T_Main \<or> t \<in> set (th_handles (io_base s))"
        "\<nexists>t. io_bus_lock s = Some (Mx_Held t)" "\<nexists>t. lg_lock (io_log s) = Some (Mx_Held t)"
    | (idle) "\<And>t. t = T_Main \<or> t \<in> set (th_handles (io_base s)) \<Longrightarrow> io_idle s t"
    by blast
  then show ?thesis
  proof cases
    case log
    have "\<not> log_gone s" using log ok'(3) by (auto simp: io_log_ok_def)
    then have sec: "log_section s t" using log log_mutex [OF ok'(3)] by (metis option.inject)
    then have pc: "lg_pc (io_log s) t \<noteq> Lg_Idle" by auto
    have "t = T_Main \<or> t \<in> set (th_handles (io_base s))" using control_okD(4) [OF ok'(1), of t] pc by blast
    from busy_runs [OF ok this, of rnd] have "io_do rnd (Run t) s \<noteq> Blocks" using sec pc by (simp add: io_idle_def)
    then show ?thesis ..
  next
    case bus
    have sec: "bus_section s t" using bus(1) ok'(2) by (auto simp: io_bus_ok_def)
    then have "t = T_Main \<or> t \<in> set (th_handles (io_base s))"
      using control_okD(4) [OF ok'(1), of t] outer_head by blast
    moreover have "\<not> io_idle s t" using sec by (auto simp: io_idle_def)
    ultimately show ?thesis using busy_runs [OF ok] sec bus(2) by blast
  next
    case busy
    then show ?thesis using busy_runs [OF ok busy(2,1)] by blast
  next
    case idle
    have "th_main (io_base s) \<noteq> Ma_Exit" using alive idle [of T_Main] by (auto simp: io_finished_def task_exited_def)
    then obtain t where t: "thread_do rnd (Run t) (io_base s) \<noteq> Blocks"
      using some_thread_runs [OF control_okD(1) [OF ok'(1)]] by blast
    have started: "t = T_Main \<or> t \<in> set (th_handles (io_base s))" using t by (cases t) (auto split: if_splits)
    have "\<not> join_waits s t"
      using t idle by (auto simp: join_waits_def io_finished_def main_thread_def)
    then have "io_do rnd (Run t) s \<noteq> Blocks"
      using idle [OF started] t started by (simp add: io_step_def base_step_def io_idle_def)
    then show ?thesis ..
  qed
qed

section \<open>Shutdown\<close>

text \<open>The statements a pending statement and a log call still take.\<close>

fun stmt_left :: "io_stmt \<Rightarrow> nat" where
  "stmt_left (Call_Log _ _ _) = 6" | "stmt_left (Sub_Test _) = 4" | "stmt_left (Sub_Lock _) = 3" | "stmt_left (Sub_Write _) = 2"
| "stmt_left Sub_Unlock = 1" | "stmt_left (Call_Send _) = 6" | "stmt_left (Send_Lock _) = 5" | "stmt_left (Send_Copy _) = 4"
| "stmt_left (Send_Unlock _ _) = 3" | "stmt_left (Deliver _ subs) = 1 + length subs"
| "stmt_left Bus_Clear = 1" | "stmt_left Bus_Destroy = 1" | "stmt_left Log_Destroy = 1"

fun log_left :: "log_pc \<Rightarrow> nat" where
  "log_left Lg_Idle = 0" | "log_left Lg_Unlock = 1" | "log_left (Lg_Newline _) = 2" | "log_left (Lg_Message _ _) = 3"
| "log_left (Lg_Header _ _) = 4" | "log_left (Lg_Lock _ _) = 5"

definition pending_left :: "io_threads \<Rightarrow> task_id \<Rightarrow> nat" where
  "pending_left s t = sum_list (map stmt_left (io_todo s t)) + log_left (lg_pc (io_log s) t)"

definition io_left :: "io_threads \<Rightarrow> nat" where
  "io_left s = 7 * statements_left (io_base s) + sum_list (map (pending_left s) (T_Main # app_tasks))"

lemma pending_others:
  assumes "\<And>t'. t' \<noteq> t \<Longrightarrow> pending_left s' t' = pending_left s t'"
  shows "sum_list (map (pending_left s') (T_Main # app_tasks)) + pending_left s t =
    sum_list (map (pending_left s) (T_Main # app_tasks)) + pending_left s' t"
  using assms by (cases t) (simp_all add: app_tasks_def)

lemma log_do_left: "log_do (Log_Step t) l = Returns l' \<Longrightarrow> log_left (lg_pc l' t) < log_left (lg_pc l t)"
  by (cases "lg_pc l t") (auto simp: with_lock_def split: option.splits)

lemma exec_left:
  assumes "io_exec t st s = Returns (s', new)" and "quiet st \<or> sending_ok st \<or> st \<in> {Sub_Test cb, Sub_Lock cb, Sub_Write cb}"
  shows "sum_list (map stmt_left new) + log_left (lg_pc (io_log s') t) < stmt_left st + log_left (lg_pc (io_log s) t) \<or>
    lg_pc (io_log s) t \<noteq> Lg_Idle"
proof (cases st)
  case (Send_Copy f)
  with assms show ?thesis by auto
next
  case (Send_Unlock f subs)
  with assms show ?thesis by (auto simp: with_bus_lock_def rx_sub_def split: option.splits)
next
  case (Deliver f subs)
  with assms own_frame_silent [of f] show ?thesis by (cases subs) (auto simp: rx_sub_def)
qed (use assms in \<open>auto simp: with_bus_lock_def split: option.splits if_splits\<close>)

lemma after_left: 
  assumes "thread_do rnd (Run t) c = Returns c'"
  shows "sum_list (map stmt_left (io_after t c c')) \<le> 6"
proof (cases t)
  case T_Can
  obtain fs where "th_bus c' = th_bus c @ fs" "length fs \<le> 1" "th_can c' = Ca_Exit \<longrightarrow> fs = []"
    using bus_grows [OF assms] by blast
  then show ?thesis using T_Can by (cases fs) auto
qed (auto split: fault_pc.splits watchdog_thread_pc.splits main_pc.splits)

text \<open>Every statement of input and output brings its thread closer to its next statement on the context.\<close>

definition pending_ok :: "io_threads \<Rightarrow> bool" where
  "pending_ok s \<longleftrightarrow> (\<forall>t. pending_left s t \<le> (if t = T_Can then 10 else 6))"

lemma io_step_left:
  assumes ok: "delivery_ok s" and step: "io_step rnd t s = Returns s'"
  shows "(\<forall>t'. t' \<noteq> t \<longrightarrow> pending_left s' t' = pending_left s t') \<and>
    (io_base s' = io_base s \<and> pending_left s' t < pending_left s t \<or>
     thread_do rnd (Run t) (io_base s) = Returns (io_base s') \<and> pending_left s t = 0 \<and> pending_left s' t \<le> 6)"
  using step
proof (cases rule: io_step_cases)
  case (log l)
  then show ?thesis using log_do_frame [OF log(2)] log_do_left [OF log(2)] by (simp add: pending_left_def)
next
  case (exec st sts s1 new)
  note frame = io_exec_frame [OF exec(3)]
  have "quiet st \<or> sending_ok st \<or> (\<exists>cb. st \<in> {Sub_Test cb, Sub_Lock cb, Sub_Write cb})"
    using ok exec(2) by (cases "t = T_Can") (auto simp: delivery_ok_def not_registered_def registered_def)
  then have "sum_list (map stmt_left new) + log_left (lg_pc (io_log s1) t) < stmt_left st + log_left (lg_pc (io_log s) t)"
    using exec_left [OF exec(3)] exec(1) by blast
  then show ?thesis using frame(1,3) exec by (simp add: pending_left_def)
next
  case (base c)
  then show ?thesis using after_left [OF base(3)] by (simp add: pending_left_def io_idle_def)
qed

lemma io_do_pending:
  assumes "delivery_ok s" and "pending_ok s" and "io_do rnd l s = Returns s'"
  shows "pending_ok s'"
proof (cases l)
  case (Run t)
  then have "io_step rnd t s = Returns s'" using assms(3) by (simp split: if_splits)
  note left = io_step_left [OF assms(1) this]
  show ?thesis unfolding pending_ok_def
  proof
    fix t'
    have "pending_left s t' \<le> (if t' = T_Can then 10 else 6)" using assms(2) by (simp add: pending_ok_def)
    then show "pending_left s' t' \<le> (if t' = T_Can then 10 else 6)" using left by (cases "t' = t") (auto split: if_splits)
  qed
qed (use assms in \<open>auto simp: pending_ok_def pending_left_def split: if_splits main_pc.splits list.splits\<close>)

lemma io_init_pending: "pending_ok (io_init rnd arg up)"
proof -
  have "pending_left (io_init rnd arg up) t \<le> (if t = T_Can then 10 else 6)" for t
    by (cases t) (simp_all add: pending_left_def io_init_def log_start_def)
  then show ?thesis by (simp add: pending_ok_def)
qed

lemma io_run_pending:
  assumes "io_run rnd (io_init rnd arg True) ls s"
  shows "pending_ok s"
  using assms
proof (induction "io_init rnd arg True" ls s rule: io_run.induct)
  case io_nil
  then show ?case by (rule io_init_pending)
next
  case (io_snoc ls s' l s'')
  then show ?case using io_do_pending io_reachable(2) by blast
qed

text \<open>The statements executed after the request.\<close>

lemma io_shutdown_step:
  assumes "delivery_ok s" and "io_do rnd l s = Returns s'" and "th_shutdown (io_base s)" and "flag_ok (io_base s)"
  shows "io_left s' + of_bool (is_statement l) \<le> io_left s" and "th_shutdown (io_base s')"
proof -
  have "io_left s' + of_bool (is_statement l) \<le> io_left s \<and> th_shutdown (io_base s')"
  proof (cases l)
    case (Run t)
    then have "io_step rnd t s = Returns s'" using assms(2) by (simp split: if_splits)
    note left = io_step_left [OF assms(1) this]
    have sum: "sum_list (map (pending_left s') (T_Main # app_tasks)) + pending_left s t =
        sum_list (map (pending_left s) (T_Main # app_tasks)) + pending_left s' t"
      using left by (intro pending_others) blast
    from left consider (io) "io_base s' = io_base s" "pending_left s' t < pending_left s t"
      | (base) "thread_do rnd (Run t) (io_base s) = Returns (io_base s')" "pending_left s t = 0" "pending_left s' t \<le> 6"
      by linarith
    then show ?thesis
    proof cases
      case io
      then show ?thesis using sum assms(3) by (simp add: io_left_def Run del: list.map)
    next
      case base
      note dec = statement_decreases [OF base(1) assms(3,4)]
      then show ?thesis using sum base(2,3) by (simp add: io_left_def Run del: list.map)
    qed
  next
    case (Elapse d)
    then have s': "s' = s\<lparr>io_base := (io_base s)\<lparr>th_tick := th_tick (io_base s) + d\<rparr>\<rparr>" using assms(2) by simp
    have "pending_left s' = pending_left s" by (rule ext) (simp add: pending_left_def s')
    then show ?thesis using assms(3) Elapse by (simp add: io_left_def statements_left_def s')
  next
    case Create_Fails
    then show ?thesis using assms by (auto simp: flag_ok_def split: if_splits main_pc.splits list.splits)
  qed
  then show "io_left s' + of_bool (is_statement l) \<le> io_left s" "th_shutdown (io_base s')" by auto
qed

lemma io_base_flag:
  assumes "io_run rnd (io_init rnd arg True) ls s"
  shows "flag_ok (io_base s)"
  using io_run_base [OF assms] thread_run_flag thread_init_flag by auto

lemma io_run_append: "io_run rnd s1 ys s2 \<Longrightarrow> io_run rnd s xs s1 \<Longrightarrow> io_run rnd s (xs @ ys) s2"
  by (induction rule: io_run.induct) (auto intro: io_run.intros simp flip: append_assoc)

lemma io_left_le:
  assumes "io_run rnd (io_init rnd arg True) ls s"
  shows "io_left s \<le> 481"
proof -
  have "pending_left s t \<le> (if t = T_Can then 10 else 6)" for t using io_run_pending [OF assms] by (simp add: pending_ok_def)
  from this [of T_Main] this [of T_Sensor] this [of T_Soc] this [of T_Fault] this [of T_Can] this [of T_Watchdog]
  show ?thesis using statements_left_le [OF io_base_flag [OF assms]] by (simp add: io_left_def app_tasks_def)
qed

lemma io_reachable_defined:
  assumes "io_run round_f64 (io_init round_f64 arg True) ls s" and "count_list ls (Run T_Soc) \<le> 10 ^ 9"
  shows "io_do round_f64 l s \<noteq> Undefined"
proof -
  obtain ls' where run: "thread_run round_f64 (thread_init round_f64 arg) ls' (io_base s)" "count_list ls' (Run T_Soc) \<le> 10 ^ 9"
    using io_run_base [OF assms(1)] assms(2) by auto
  obtain a n where "thread_ok (io_base s)" "thread_rel round_f64 (io_base s) a" "fp_ok n (soc (s_ctx a))"
    by (rule reachable_related [OF run])
  then show ?thesis using io_do_defined [OF io_reachable(1) [OF assms(1)]] thread_do_defined by blast
qed

lemma io_reachable_without_overflow:
  assumes "io_run round_f64 (io_init round_f64 arg True) ls s" and "count_list ls (Run T_Soc) \<le> 10 ^ 9"
  shows "io_do (binary64 overflow) l s = io_do round_f64 l s"
proof -
  obtain ls' where run: "thread_run round_f64 (thread_init round_f64 arg) ls' (io_base s)" "count_list ls' (Run T_Soc) \<le> 10 ^ 9"
    using io_run_base [OF assms(1)] assms(2) by auto
  obtain a n where "thread_ok (io_base s)" "thread_rel round_f64 (io_base s) a" "fp_ok n (soc (s_ctx a))" "n < 10 ^ 8"
    by (rule reachable_related [OF run])
  note same = thread_do_without_overflow [OF this, of overflow]
  show ?thesis by (cases l) (simp_all only: io_do.simps io_step_def base_step_def same)
qed

lemma io_reachable_runs:
  assumes "io_run round_f64 (io_init round_f64 arg True) ls s" and "count_list ls (Run T_Soc) \<le> 10 ^ 9"
    and "\<not> io_finished s T_Main"
  shows "\<exists>t s'. io_do round_f64 (Run t) s = Returns s'"
  using some_io_runs [OF io_reachable(1) [OF assms(1)] assms(3)] io_reachable_defined [OF assms(1,2)]
  by (metis outcome.exhaust)

lemma io_run_exec: "io_run rnd s ls s' \<longleftrightarrow> exec_steps (io_do rnd) ls s = Returns s'"
proof
  show "io_run rnd s ls s' \<Longrightarrow> exec_steps (io_do rnd) ls s = Returns s'"
    by (induction rule: io_run.induct) (auto simp: exec_steps_snoc_iff)
  show "exec_steps (io_do rnd) ls s = Returns s' \<Longrightarrow> io_run rnd s ls s'"
    by (induction ls arbitrary: s' rule: rev_induct) (auto simp: exec_steps_snoc_iff intro: io_run.intros)
qed

definition io_reach :: "nat \<Rightarrow> io_threads \<Rightarrow> bool" where
  "io_reach n s \<longleftrightarrow>
     (\<exists>arg ls. io_run round_f64 (io_init round_f64 arg True) ls s \<and> count_list ls (Run T_Soc) \<le> n)"

interpretation io_closing: closing_machine "io_do round_f64" is_statement io_reach
  "\<lambda>s. th_shutdown (io_base s)" "\<lambda>s. io_finished s T_Main" io_left "10 ^ 9"
proof
  fix n s l s'
  assume r: "io_reach n s" and step: "io_do round_f64 l s = Returns s'"
  show "io_reach (n + of_bool (is_statement l)) s'"
    using r step io_run.io_snoc unfolding io_reach_def by (cases l) fastforce+
  assume "th_shutdown (io_base s)"
  with r step show "th_shutdown (io_base s')" "io_left s' + of_bool (is_statement l) \<le> io_left s"
    unfolding io_reach_def using io_shutdown_step io_reachable(2) io_base_flag by blast+
next
  fix n s
  assume "io_reach n s" "n \<le> 10 ^ 9" "\<not> io_finished s T_Main"
  then obtain t s' where "io_do round_f64 (Run t) s = Returns s'"
    unfolding io_reach_def using io_reachable_runs by (meson order_trans)
  then show "\<exists>l s'. is_statement l \<and> io_do round_f64 l s = Returns s'" by (intro exI [of _ "Run t"]) simp
qed

lemma finished_all_gone:
  assumes ok: "io_ok s" and fin: "io_finished s T_Main"
  shows "th_lock (io_base s) = Mx_None" and "io_bus_lock s = None" and "lg_lock (io_log s) = None"
    and "t \<in> set (th_handles (io_base s)) \<Longrightarrow> io_finished s t"
proof -
  have ok': "io_control_ok s" "io_bus_ok s" "io_log_ok s" using ok by (simp_all add: io_ok_def)
  have main: "th_main (io_base s) = Ma_Exit" "io_todo s T_Main = []"
    using fin by (simp_all add: io_finished_def task_exited_def io_idle_def)
  then show "th_lock (io_base s) = Mx_None" "io_bus_lock s = None" "lg_lock (io_log s) = None"
    using control_okD(1) [OF ok'(1)] ok'(2,3)
    by (auto simp: thread_ok_def io_bus_ok_def bus_gone_def io_log_ok_def log_gone_def split: option.splits)
  show "t \<in> set (th_handles (io_base s)) \<Longrightarrow> io_finished s t"
    using exit_idle(3) [OF ok'(1) main(1), of t] fin by (cases "t = T_Main") auto
qed

end
