(* ===== verification/Io_Console.thy ===== *)
theory Io_Console
  imports Io_Progress
begin

text \<open>
  The standard output of the program: the banner, what the logger prints, and the final status. The final
  status is printed without the logger's mutex; it comes after everything the logger prints, because
  \<open>main\<close> prints it when no task is left.
\<close>

definition console :: "string option \<Rightarrow> io_threads \<Rightarrow> string" where
  "console arg s =
     banner arg @ lg_out (io_log s) @
     (case th_printed (io_base s) of None \<Rightarrow> [] | Some (st, faults) \<Rightarrow> final_status st faults)"

text \<open>After the final status \<open>main\<close> does not log, and every task has finished.\<close>

fun past_print :: "main_pc \<Rightarrow> bool" where
  "past_print Ma_Unlock = True" | "past_print Ma_Destroy = True" | "past_print Ma_Exit = True" | "past_print _ = False"

lemma past_print_joined: "past_print pc \<Longrightarrow> joined pc = app_tasks"
  by (cases pc) simp_all

definition printed_ok :: "io_threads \<Rightarrow> bool" where
  "printed_ok s \<longleftrightarrow>
     (th_printed (io_base s) \<noteq> None \<longrightarrow>
        past_print (th_main (io_base s)) \<and> lg_pc (io_log s) T_Main = Lg_Idle \<and>
        list_all closing (io_todo s T_Main))"

lemma printed_frozen:
  assumes ok: "io_control_ok s" "printed_ok s" and step: "io_step rnd t s = Returns s'"
    and t: "t = T_Main \<or> t \<in> set (th_handles (io_base s))" and printed: "th_printed (io_base s) \<noteq> None"
  shows "t = T_Main"
proof (rule ccontr)
  assume neq: "t \<noteq> T_Main"
  have "set (th_handles (io_base s)) \<subseteq> set app_tasks" using control_okD(1) [OF ok(1)] by (simp add: thread_ok_def)
  then have "io_finished s t" using control_okD(3) [OF ok(1), of t] ok(2) printed t neq past_print_joined
    by (auto simp: printed_ok_def)
  with running_unfinished [OF step] show False by blast
qed

lemma main_prints:
  assumes "main_thread c = Returns c'"
  shows "th_printed c' = th_printed c \<or> th_main c = Ma_Print"
    and "past_print (th_main c) \<Longrightarrow> past_print (th_main c')"
    and "th_main c = Ma_Print \<Longrightarrow> th_main c' = Ma_Unlock"
  using assms by (auto simp: main_thread_def split: main_pc.splits list.splits if_splits)

lemma past_print_after: "past_print (th_main c) \<Longrightarrow> list_all closing (io_after T_Main c c')"
  by (cases "th_main c") simp_all

lemma step_printed:
  assumes ok: "io_control_ok s" "printed_ok s" and step: "io_step rnd t s = Returns s'"
    and t: "t = T_Main \<or> t \<in> set (th_handles (io_base s))"
  shows "printed_ok s'"
  using step
proof (cases rule: io_step_cases)
  case (log l)
  then show ?thesis using ok(2) printed_frozen [OF ok step t] by (auto simp: printed_ok_def)
next
  case (exec st sts s1 new)
  note frame = io_exec_frame [OF exec(3)]
  show ?thesis unfolding printed_ok_def
  proof
    assume "th_printed (io_base s') \<noteq> None"
    then have p: "th_printed (io_base s) \<noteq> None" using frame(1) by (simp add: exec(4))
    have tm: "t = T_Main" using printed_frozen [OF ok step t p] .
    have o: "past_print (th_main (io_base s))" "lg_pc (io_log s) T_Main = Lg_Idle" "closing st" "list_all closing sts"
      using ok(2) p exec(2) tm by (simp_all add: printed_ok_def)
    then show "past_print (th_main (io_base s')) \<and> lg_pc (io_log s') T_Main = Lg_Idle \<and> list_all closing (io_todo s' T_Main)"
      using frame(1) frame(4) [OF o(3)] tm by (simp add: exec(4))
  qed
next
  case (base c)
  show ?thesis
  proof (cases "t = T_Main")
    case True
    then have main: "main_thread (io_base s) = Returns c" using base(3) by simp
    have idle: "lg_pc (io_log s) T_Main = Lg_Idle" using base(1) True by (simp add: io_idle_def)
    show ?thesis
    proof (cases "th_main (io_base s) = Ma_Print")
      case True
      then show ?thesis using main_prints(3) [OF main] idle \<open>t = T_Main\<close> by (simp add: printed_ok_def base(4))
    next
      case False
      then have "th_printed c = th_printed (io_base s)" using main_prints(1) [OF main] by blast
      then show ?thesis using ok(2) main_prints(2) [OF main] past_print_after idle \<open>t = T_Main\<close>
        by (simp add: printed_ok_def base(4))
    qed
  next
    case False
    then have "th_main c = th_main (io_base s)" "th_printed c = th_printed (io_base s)"
      using base_frame(3) [OF control_okD(1) [OF ok(1)] base(3)] task_flag(2) [OF base(3)] by simp_all
    then show ?thesis using ok(2) False by (simp add: printed_ok_def base(4))
  qed
qed

text \<open>The output only grows.\<close>

lemma log_do_grows: "log_do l s = Returns s' \<Longrightarrow> \<exists>zs. lg_out s' = lg_out s @ zs"
proof (cases l)
  case (Log_Step t)
  then show "log_do l s = Returns s' \<Longrightarrow> ?thesis" by (cases "lg_pc s t") (auto simp: with_lock_def split: option.splits)
qed (auto split: if_splits)

lemma io_exec_out: "io_exec t st s = Returns (s', new) \<Longrightarrow> lg_out (io_log s') = lg_out (io_log s)"
proof (cases st)
  case (Deliver f subs)
  then show "io_exec t st s = Returns (s', new) \<Longrightarrow> ?thesis" by (cases subs) (auto split: option.splits)
qed (auto simp: with_bus_lock_def split: option.splits if_splits)

lemma step_console:
  assumes ok: "io_control_ok s" "printed_ok s" and step: "io_step rnd t s = Returns s'"
    and t: "t = T_Main \<or> t \<in> set (th_handles (io_base s))"
  shows "\<exists>zs. console arg s' = console arg s @ zs"
  using step
proof (cases rule: io_step_cases)
  case (log l)
  have none: "th_printed (io_base s) = None"
  proof (rule ccontr)
    assume "th_printed (io_base s) \<noteq> None"
    with printed_frozen [OF ok step t] ok(2) log(1) show False by (auto simp: printed_ok_def)
  qed
  then show ?thesis using log_do_grows [OF log(2)] by (auto simp: console_def log(3))
next
  case (exec st sts s1 new)
  then show ?thesis using io_exec_out [OF exec(3)] io_exec_frame(1) [OF exec(3)] by (simp add: console_def)
next
  case (base c)
  show ?thesis
  proof (cases "t = T_Main \<and> th_main (io_base s) = Ma_Print")
    case True
    have "th_printed (io_base s) = None"
      using ok(2) True by (cases "th_printed (io_base s)") (auto simp: printed_ok_def)
    then show ?thesis by (simp add: console_def base(4))
  next
    case False
    then have "th_printed c = th_printed (io_base s)"
      using base(3) main_prints(1) [of "io_base s" c] task_flag(2) [OF base(3)] by (cases "t = T_Main") auto
    then show ?thesis by (simp add: console_def base(4))
  qed
qed

lemma io_do_printed:
  assumes "io_ok s" and "printed_ok s" and "io_do rnd l s = Returns s'"
  shows "printed_ok s'" and "\<exists>zs. console arg s' = console arg s @ zs"
proof -
  have "printed_ok s' \<and> (\<exists>zs. console arg s' = console arg s @ zs)"
  proof (cases l)
    case (Run t)
    then have "io_step rnd t s = Returns s'" "t = T_Main \<or> t \<in> set (th_handles (io_base s))"
      using assms(3) by (auto split: if_splits)
    then show ?thesis using step_printed step_console assms(1,2) unfolding io_ok_def by blast
  qed (use assms(2,3) in \<open>auto simp: printed_ok_def console_def split: if_splits main_pc.splits list.splits\<close>)
  then show "printed_ok s'" "\<exists>zs. console arg s' = console arg s @ zs" by blast+
qed

lemma io_init_printed: "printed_ok (io_init rnd arg up)"
  by (simp add: printed_ok_def io_init_def thread_init_def case_prod_unfold Let_def)

lemma io_run_printed:
  assumes "io_run rnd (io_init rnd arg True) ls s"
  shows "printed_ok s"
  using assms
proof (induction "io_init rnd arg True" ls s rule: io_run.induct)
  case io_nil
  then show ?case by (rule io_init_printed)
next
  case (io_snoc ls s' l s'')
  then show ?case using io_do_printed(1) io_reachable(1) by blast
qed

lemma console_grows:
  assumes "io_run rnd s ls' s'" and "io_ok s" and "printed_ok s"
  shows "printed_ok s' \<and> (\<exists>zs. console arg s' = console arg s @ zs)"
  using assms
proof (induction rule: io_run.induct)
  case (io_snoc s ls s' l s'')
  then obtain zs where IH: "printed_ok s'" "console arg s' = console arg s @ zs" by blast
  note step = io_do_printed [OF io_run_ok [OF io_snoc.hyps(1) io_snoc.prems(1)] IH(1) io_snoc.hyps(2)]
  obtain zs' where "console arg s'' = console arg s' @ zs'" using step(2) by blast
  then show ?case using step(1) IH(2) by simp
qed simp

end
