(* ===== verification/Whole_Program.thy ===== *)
theory Whole_Program
  imports Io_Console
begin

text \<open>
  The properties of the program with its three mutexes, its log and its frames, stated of every run from
  the state in which \<open>main\<close> creates the tasks.
\<close>

section \<open>Frames as snapshots\<close>

text \<open>A frame that decodes to what the shared context holds.\<close>

definition snapshot_frame :: "app_context_t \<Rightarrow> can_frame_t \<Rightarrow> bool" where
  "snapshot_frame ctx f \<longleftrightarrow>
     can_protocol_unpack_status f = Some (status ctx) \<or>
     can_protocol_unpack_cell_voltages f = Some (reading_cells (latest_reading ctx)) \<or>
     can_protocol_unpack_fault f =
       Some \<lparr>fr_fault_bitmask = active_faults (fault_mgr ctx), fr_severity = asil_u8 (fm_severity (fault_mgr ctx))\<rparr>"

lemma can_cycle_snapshots: "f \<in> set (fst (task_can_cycle ctx sent)) \<Longrightarrow> snapshot_frame ctx f"
  by (auto simp: snapshot_frame_def task_can_cycle_frames unpack_pack_reading_cells status_msg.unpack_pack
      fault_msg.unpack_pack split: if_splits)

lemma bus_snapshots:
  assumes "sys_run rnd s ls s'" and "f \<in> set (s_bus s')" and "f \<notin> set (s_bus s)"
  shows "\<exists>xs ys s1. ls = xs @ Can_Cycle # ys \<and> sys_run rnd s xs s1 \<and> snapshot_frame (s_ctx s1) f"
  using assms
proof (induction rule: sys_run.induct)
  case (run_cons l s s1 ls s2)
  show ?case
  proof (cases "f \<in> set (s_bus s1)")
    case True
    have bus: "s_bus s1 = s_bus s @ (if l = Can_Cycle then fst (task_can_cycle (s_ctx s) (s_last_faults s)) else [])"
      using run_cons.hyps(1)
      by (cases l) (auto simp: case_prod_unfold Let_def split: if_splits option.splits watchdog_pc.splits)
    then have "l = Can_Cycle" "snapshot_frame (s_ctx s) f"
      using True run_cons.prems(2) can_cycle_snapshots by (auto split: if_splits)
    then show ?thesis by (intro exI [of _ "[]"] exI [of _ ls] exI [of _ s]) simp
  next
    case False
    then obtain xs ys s3 where "ls = xs @ Can_Cycle # ys" "sys_run rnd s1 xs s3" "snapshot_frame (s_ctx s3) f"
      using run_cons.IH run_cons.prems(1) by blast
    then show ?thesis
      using run_cons.hyps(1) by (intro exI [of _ "l # xs"] exI [of _ ys] exI [of _ s3]) (auto simp: sys_run_Cons)
  qed
qed simp

section \<open>The log\<close>

lemma called_lines_form: "l \<in> called_lines ls \<Longrightarrow> \<exists>tick level task msg. l = log_msg tick level task msg"
  unfolding called_lines_def
proof (induction ls)
  case (Cons x xs)
  then show ?case by (cases x) (auto simp: map_filter_simps)
qed (simp add: map_filter_simps)

lemma log_of_lines:
  assumes ok: "io_ok s"
  shows "\<exists>lines rest. lg_out (io_log s) = concat lines @ rest \<and>
    (\<forall>l\<in>set lines. \<exists>tick level task msg. l = log_msg tick level task msg) \<and>
    (rest = [] \<or> (\<exists>t. lg_lock (io_log s) = Some (Mx_Held t)))"
proof -
  obtain ls l where run: "log_run log_start ls l" and l: "io_log s = (if log_gone s then l\<lparr>lg_lock := None\<rparr> else l)"
    using ok by (auto simp: io_ok_def io_log_ok_def)
  have "log_ok {} log_start" by (simp add: log_ok_def log_start_def open_part_def exI [of _ "[]"])
  then have log: "log_ok (called_lines ls) l" by (rule log_run_ok [OF run])
  then obtain lines where lines: "set lines \<subseteq> called_lines ls" "lg_out l = concat lines @ open_part l" by (auto simp: log_ok_def)
  have "open_part l = [] \<or> (\<exists>t. lg_lock (io_log s) = Some (Mx_Held t))"
  proof (cases "log_gone s")
    case True
    have "lg_pc l t = Lg_Idle" for t
      using exit_idle(1) [of s t] ok True l by (simp add: io_ok_def log_gone_def)
    then show ?thesis by (auto simp: open_part_def split: option.splits osal_mutex.splits)
  next
    case False
    then show ?thesis using l by (auto simp: open_part_def split: option.splits osal_mutex.splits)
  qed
  moreover have "lg_out (io_log s) = lg_out l" using l by simp
  moreover have "\<forall>l\<in>set lines. \<exists>tick level task msg. l = log_msg tick level task msg"
    using lines(1) called_lines_form by blast
  ultimately show ?thesis using lines(2) by (intro exI [of _ lines] exI [of _ "open_part l"]) simp
qed

section \<open>Concrete runs\<close>

text \<open>A run in which the CAN task registers, logs its start and sends its first frame to itself.\<close>

definition first_frame_labels :: "thread_label list" where
  "first_frame_labels = replicate 4 (Run T_Main) @ replicate 24 (Run T_Can)"

lemmas io_exec_defs = thread_init_def case_prod_unfold Let_def main_thread_def app_tasks_def io_step_def base_step_def
  join_waits_def log_start_def with_lock_def can_hal_init_def MAX_SUBSCRIBERS_def with_bus_lock_def
  app_context_init_def

lemma first_frame:
  "\<exists>s. exec_steps (io_do rnd) first_frame_labels (io_init rnd arg True) = Returns s \<and>
     io_received s = [(On_Charge_Command, can_protocol_pack_status zero_status)]"
proof -
  have f: "unat (dlc (can_protocol_pack_status zero_status)) \<le> CAN_MAX_DLC" by (rule status_msg.pack_dlc_bound)
  show ?thesis
    by (simp add: first_frame_labels_def io_init_def io_exec_defs task_can_main_def subscribe_write_def own_frame_no_command
        f [unfolded not_less [symmetric]] eval_nat_numeral)
qed

lemma io_sections:
  assumes "io_run rnd (io_init rnd arg True) ls s"
  obtains as a where "sys_run rnd (sys_init rnd arg) as a" and "thread_rel rnd (io_base s) a"
proof -
  obtain ls' where "thread_run rnd (thread_init rnd arg) ls' (io_base s)" using io_run_base [OF assms] by auto
  from thread_run_refines [OF this thread_init_ok thread_init_rel] show ?thesis using that by blast
qed

lemma received_prefix:
  assumes "io_run rnd (io_init rnd arg True) ls s"
  shows "\<exists>fs. map snd (io_received s) @ fs = th_bus (io_base s) \<and> (io_idle s T_Can \<longrightarrow> fs = [])"
proof -
  have "delivery_ok s" using io_reachable(2) [OF assms] .
  then consider (no) "not_registered s" | (yes) "registered s" by (auto simp: delivery_ok_def)
  then show ?thesis
  proof cases
    case no
    then show ?thesis by (intro exI [of _ "[]"]) (simp add: not_registered_def)
  next
    case yes
    then have "map snd (map (Pair On_Charge_Command) (th_bus (io_base s))) = map snd (io_received s) @ pending_frames s"
      by (simp add: registered_def comp_def)
    then have "th_bus (io_base s) = map snd (io_received s) @ pending_frames s" by (simp add: comp_def)
    moreover have "io_idle s T_Can \<Longrightarrow> pending_frames s = []" by (simp add: io_idle_def pending_frames_def)
    ultimately show ?thesis by metis
  qed
qed

section \<open>Properties\<close>

text \<open>
  C5. The program with its three mutexes refines the system of atomic sections, and its log is made of
  lines: for every interleaving of the statements of the six threads, their log calls, the registration
  and the sends, there is a run of the atomic system at the same time whose context is the program's
  whenever nobody owns the context's mutex, and whose bus carries what the program has sent followed by
  the frames of the round in progress; so what holds of the atomic system in every interleaving holds of the
  program. The output is a sequence of complete log lines followed
  by at most one line in progress, whose thread owns the logger's mutex.
\<close>

theorem whole_program_refines_sections:
  assumes "io_run rnd (io_init rnd arg True) ls s"
  shows "(\<exists>as a. sys_run rnd (sys_init rnd arg) as a \<and> s_tick a = th_tick (io_base s) \<and>
      (\<exists>fs. s_bus a = th_bus (io_base s) @ fs) \<and> ((\<exists>t. th_lock (io_base s) = Mx_Held t) \<or> th_ctx (io_base s) = s_ctx a)) \<and>
    (\<exists>lines rest. lg_out (io_log s) = concat lines @ rest \<and>
      (\<forall>l\<in>set lines. \<exists>tick level task msg. l = log_msg tick level task msg) \<and>
      (rest = [] \<or> (\<exists>t. lg_lock (io_log s) = Some (Mx_Held t))))"
proof
  obtain as a where "sys_run rnd (sys_init rnd arg) as a" "thread_rel rnd (io_base s) a"
    using io_sections [OF assms] .
  moreover from this(2) have "(\<exists>t. th_lock (io_base s) = Mx_Held t) \<or> th_ctx (io_base s) = s_ctx a"
    using ctx_rel_free unfolding thread_rel_def by blast
  ultimately show "\<exists>as a. sys_run rnd (sys_init rnd arg) as a \<and> s_tick a = th_tick (io_base s) \<and>
      (\<exists>fs. s_bus a = th_bus (io_base s) @ fs) \<and> ((\<exists>t. th_lock (io_base s) = Mx_Held t) \<or> th_ctx (io_base s) = s_ctx a)"
    by (intro exI [of _ as] exI [of _ a]) (simp add: thread_rel_def)
qed (rule log_of_lines [OF io_reachable(1) [OF assms]])

theorem whole_program_refines_sections_witness:
  "\<exists>s. io_run round_f64 (io_init round_f64 None True) first_frame_labels s \<and>
    (\<exists>as a. sys_run round_f64 (sys_init round_f64 None) as a \<and> s_tick a = th_tick (io_base s)) \<and>
    (\<exists>lines rest. lg_out (io_log s) = concat lines @ rest)"
proof -
  obtain s where "exec_steps (io_do round_f64) first_frame_labels (io_init round_f64 None True) = Returns s" using first_frame by blast
  then have s: "io_run round_f64 (io_init round_f64 None True) first_frame_labels s" by (simp add: io_run_exec)
  from whole_program_refines_sections [OF s] s show ?thesis by blast
qed

text \<open>
  C11. Locking discipline of the whole program: a thread between its lock and unlock calls on the context
  owns the context's mutex, and no thread ever owns two of the program's three mutexes, so no order of
  acquisition can close a cycle; and no statement is undefined: no mutex is used before its creation or after its destruction,
  none is unlocked by a thread that does not own it or destroyed while it is owned. For up to a billion
  statements of the SoC task, with double arithmetic.
\<close>

theorem no_thread_owns_two_mutexes:
  assumes "io_run round_f64 (io_init round_f64 arg True) ls s" and "count_list ls (Run T_Soc) \<le> 10 ^ 9"
  shows "\<not> (th_lock (io_base s) = Mx_Held t \<and> io_bus_lock s = Some (Mx_Held t)) \<and>
    \<not> (th_lock (io_base s) = Mx_Held t \<and> lg_lock (io_log s) = Some (Mx_Held t)) \<and>
    \<not> (io_bus_lock s = Some (Mx_Held t) \<and> lg_lock (io_log s) = Some (Mx_Held t)) \<and>
    (in_section (io_base s) t \<longrightarrow> th_lock (io_base s) = Mx_Held t) \<and> io_do round_f64 l s \<noteq> Undefined"
  using section_owner [OF control_okD(1), of s t] io_reachable(1) [OF assms(1)] owned_le_1 [OF io_reachable(1) [OF assms(1)], of t] io_reachable_defined [OF assms, of l]
  by (auto simp: owned_def io_ok_def)

theorem no_thread_owns_two_mutexes_witness:
  "\<exists>s. io_run round_f64 (io_init round_f64 None True) first_frame_labels s \<and>
    \<not> (io_bus_lock s = Some (Mx_Held T_Can) \<and> lg_lock (io_log s) = Some (Mx_Held T_Can)) \<and>
    io_do round_f64 (Run T_Can) s \<noteq> Undefined"
proof -
  obtain s where "exec_steps (io_do round_f64) first_frame_labels (io_init round_f64 None True) = Returns s" using first_frame by blast
  then have s: "io_run round_f64 (io_init round_f64 None True) first_frame_labels s" by (simp add: io_run_exec)
  have "count_list first_frame_labels (Run T_Soc) \<le> 10 ^ 9" by (subst count_notin) (auto simp: first_frame_labels_def)
  from no_thread_owns_two_mutexes [OF s this, of T_Can "Run T_Can"] s show ?thesis by blast
qed

text \<open>
  C10. The program with its three mutexes ends: from every reachable state after the shutdown request, in
  any interleaving, at most 481 more statements are executed, counting those of log calls, sends and
  deliveries; as long as \<open>main\<close> has not returned some thread can execute one; and \<open>main\<close>
  returns. Then every created task has finished its last log line, the log consists of complete lines, and
  the mutexes of the context, the bus and the logger are gone. For requests within the first 900 million
  statements of the SoC task, with double arithmetic.
\<close>

theorem whole_program_terminates:
  assumes "io_run round_f64 (io_init round_f64 arg True) ls s" and "count_list ls (Run T_Soc) \<le> 9 * 10 ^ 8"
    and "th_shutdown (io_base s)"
  shows "(\<forall>ls' s'. io_run round_f64 s ls' s' \<longrightarrow> length (filter is_statement ls') \<le> 481) \<and>
    (io_finished s T_Main \<or> (\<exists>t s'. io_do round_f64 (Run t) s = Returns s')) \<and>
    (\<exists>ls' s'. io_run round_f64 s ls' s' \<and> io_finished s' T_Main \<and> (\<forall>t\<in>set (th_handles (io_base s')). io_finished s' t) \<and>
      th_lock (io_base s') = Mx_None \<and> io_bus_lock s' = None \<and> lg_lock (io_log s') = None \<and>
      (\<exists>lines. lg_out (io_log s') = concat lines \<and>
        (\<forall>l\<in>set lines. \<exists>tick level task msg. l = log_msg tick level task msg)))"
proof -
  note left = io_left_le [OF assms(1)]
  have "io_reach (9 * 10 ^ 8) s" using assms(1,2) by (auto simp: io_reach_def)
  note down = io_closing.winds_down [OF this assms(3)]
  have bound: "length (filter is_statement ls') \<le> 481" if "io_run round_f64 s ls' s'" for ls' s'
    using down(1) [of ls' s'] that left by (simp add: io_run_exec)
  have live: "io_finished s T_Main \<or> (\<exists>t s'. io_do round_f64 (Run t) s = Returns s')"
    using down(2) left by (auto simp del: io_do.simps elim!: is_statement.elims)
  obtain ls' s' where s': "io_run round_f64 s ls' s'" "io_finished s' T_Main"
    using down(3) left by (auto simp: io_run_exec)
  have ok: "io_ok s'" using io_run_ok [OF s'(1) io_reachable(1) [OF assms(1)]] .
  note gone = finished_all_gone [OF ok s'(2)]
  obtain lines where "lg_out (io_log s') = concat lines" "\<forall>l\<in>set lines. \<exists>tick level task msg. l = log_msg tick level task msg"
    using log_of_lines [OF ok] gone(3) by auto
  then show ?thesis using bound live s' gone by blast
qed

theorem whole_program_terminates_witness:
  "\<exists>s. io_run round_f64 (io_init round_f64 None True) (replicate 5 Create_Fails @ replicate 9 (Run T_Main)) s \<and>
    th_shutdown (io_base s) \<and> (\<exists>ls' s'. io_run round_f64 s ls' s' \<and> io_finished s' T_Main \<and> io_bus_lock s' = None)"
proof -
  let ?ls = "replicate 5 Create_Fails @ replicate 9 (Run T_Main)"
  obtain s where "exec_steps (io_do round_f64) ?ls (io_init round_f64 None True) = Returns s" "th_shutdown (io_base s)"
    by (auto simp: io_init_def io_exec_defs io_idle_def eval_nat_numeral)
  note s = iffD2 [OF io_run_exec this(1)] this(2)
  have "count_list ?ls (Run T_Soc) \<le> 9 * 10 ^ 8" by (subst count_notin) auto
  from whole_program_terminates [OF s(1) this s(2)] s show ?thesis by blast
qed

text \<open>
  C19. The console: the output only grows, and when \<open>main\<close> has returned it is the banner, complete log
  lines, and the final status, although that one is printed without the logger's mutex. The status and the
  fault mask it shows are those of the final context, which is the context of a run of the atomic system,
  and every task that was created has finished.
\<close>

theorem console_ends_with_final_status:
  assumes "io_run rnd (io_init rnd arg True) ls s" and "io_run rnd s ls' s'" and "io_finished s' T_Main"
  shows "(\<exists>zs. console arg s' = console arg s @ zs) \<and> (\<forall>t\<in>set (th_handles (io_base s')). io_finished s' t) \<and>
    (\<exists>lines as a. sys_run rnd (sys_init rnd arg) as a \<and> th_ctx (io_base s') = s_ctx a \<and>
      console arg s' = banner arg @ concat lines @ final_status (status (s_ctx a)) (active_faults (fault_mgr (s_ctx a))) \<and>
      (\<forall>l\<in>set lines. \<exists>tick level task msg. l = log_msg tick level task msg))"
proof (intro conjI)
  have run: "io_run rnd (io_init rnd arg True) (ls @ ls') s'" using assms(2,1) by (rule io_run_append)
  have ok: "io_ok s'" using io_reachable(1) [OF run] .
  note gone = finished_all_gone [OF ok assms(3)]
  show "\<exists>zs. console arg s' = console arg s @ zs"
    using console_grows [OF assms(2) io_reachable(1) [OF assms(1)] io_run_printed [OF assms(1)]] by blast
  show "\<forall>t\<in>set (th_handles (io_base s')). io_finished s' t" using gone(4) by blast
  obtain ls'' where base: "thread_run rnd (thread_init rnd arg) ls'' (io_base s')" using io_run_base [OF run] by auto
  have "report_ok (thread_init rnd arg)" by (simp add: report_ok_def thread_init_def case_prod_unfold Let_def)
  then have "report_ok (io_base s')" by (rule thread_run_report [OF base thread_init_ok])
  then have printed: "th_printed (io_base s') =
      Some (status (th_ctx (io_base s')), active_faults (fault_mgr (th_ctx (io_base s'))))"
    using assms(3) by (simp add: report_ok_def io_finished_def task_exited_def)
  obtain as a where a: "sys_run rnd (sys_init rnd arg) as a" "thread_rel rnd (io_base s') a" using io_sections [OF run] .
  have ctx: "th_ctx (io_base s') = s_ctx a" using a(2) gone(1) by (simp add: thread_rel_def)
  obtain lines where lines: "lg_out (io_log s') = concat lines" "\<forall>l\<in>set lines. \<exists>tick level task msg. l = log_msg tick level task msg"
    using log_of_lines [OF ok] gone(3) by auto
  have "console arg s' = banner arg @ concat lines @ final_status (status (s_ctx a)) (active_faults (fault_mgr (s_ctx a)))"
    by (simp add: console_def printed ctx lines(1))
  then show "\<exists>lines as a. sys_run rnd (sys_init rnd arg) as a \<and> th_ctx (io_base s') = s_ctx a \<and>
      console arg s' = banner arg @ concat lines @ final_status (status (s_ctx a)) (active_faults (fault_mgr (s_ctx a))) \<and>
      (\<forall>l\<in>set lines. \<exists>tick level task msg. l = log_msg tick level task msg)"
    using a(1) ctx lines(2) by blast
qed

theorem console_ends_with_final_status_witness:
  "\<exists>s. io_run round_f64 (io_init round_f64 None True)
      (replicate 5 Create_Fails @ replicate 22 (Run T_Main)) s \<and> io_finished s T_Main \<and>
    (\<exists>lines st faults. console None s = banner None @ concat lines @ final_status st faults)"
proof -
  let ?ls = "replicate 5 Create_Fails @ replicate 22 (Run T_Main)"
  obtain s where e: "exec_steps (io_do round_f64) ?ls (io_init round_f64 None True) = Returns s" "io_finished s T_Main"
    by (auto simp: io_init_def io_exec_defs io_idle_def io_finished_def task_exited_def logger_shutdown_def eval_nat_numeral)
  note s = iffD2 [OF io_run_exec e(1)] e(2)
  from console_ends_with_final_status [OF s(1) io_run.io_nil s(2)] s show ?thesis by blast
qed

text \<open>
  C36. The subscriber of the bus gets exactly what the CAN task sends: in every reachable state the frames
  received so far are, in order and without loss or repetition, the frames sent, up to those the CAN task
  is still delivering, and none of them decodes to a charge command, so the program does not answer itself.
\<close>

theorem subscriber_receives_what_is_sent:
  assumes "io_run rnd (io_init rnd arg True) ls s"
  shows "(\<exists>fs. map snd (io_received s) @ fs = th_bus (io_base s) \<and> (io_idle s T_Can \<longrightarrow> fs = [])) \<and>
    (\<forall>f\<in>snd ` set (io_received s). on_charge_command f = [])"
proof
  show "\<exists>fs. map snd (io_received s) @ fs = th_bus (io_base s) \<and> (io_idle s T_Can \<longrightarrow> fs = [])"
    by (rule received_prefix [OF assms])
  show "\<forall>f\<in>snd ` set (io_received s). on_charge_command f = []"
    using io_own_frames [OF assms] received_prefix [OF assms] own_frame_no_command
    by (metis Un_iff image_set list_all_iff set_append)
qed

theorem subscriber_receives_what_is_sent_witness:
  "\<exists>s. io_run round_f64 (io_init round_f64 None True) first_frame_labels s \<and> io_received s \<noteq> [] \<and>
    (\<exists>fs. map snd (io_received s) @ fs = th_bus (io_base s))"
proof -
  obtain s where e: "exec_steps (io_do round_f64) first_frame_labels (io_init round_f64 None True) = Returns s" "io_received s \<noteq> []"
    using first_frame [of round_f64 None] by auto
  note s = iffD2 [OF io_run_exec e(1)] e(2)
  with subscriber_receives_what_is_sent [OF s(1)] show ?thesis by blast
qed

text \<open>
  C23. Telemetry is genuine, end to end: every frame that reaches the subscriber decodes to the status, the
  cell voltages, or the fault mask and severity that the shared context held at one moment of a round of
  the CAN task, in a run of the atomic system that the program follows.
\<close>

theorem telemetry_is_genuine:
  assumes "io_run rnd (io_init rnd arg True) ls s" and "f \<in> snd ` set (io_received s)"
  shows "\<exists>xs ys ctx a. sys_run rnd (sys_init rnd arg) (xs @ Can_Cycle # ys) a \<and> s_tick a = th_tick (io_base s) \<and>
    (\<exists>b. sys_run rnd (sys_init rnd arg) xs b \<and> s_ctx b = ctx) \<and>
    (can_protocol_unpack_status f = Some (status ctx) \<or>
     can_protocol_unpack_cell_voltages f =
       Some \<lparr>cv_cell_mv = map (\<lambda>i. cell_mv (latest_reading ctx) ! i) [0..<BMS_CELL_COUNT]\<rparr> \<or>
     can_protocol_unpack_fault f =
       Some \<lparr>fr_fault_bitmask = active_faults (fault_mgr ctx), fr_severity = asil_u8 (fm_severity (fault_mgr ctx))\<rparr>)"
proof -
  obtain as a where a: "sys_run rnd (sys_init rnd arg) as a" "thread_rel rnd (io_base s) a"
    using io_sections [OF assms(1)] .
  have "f \<in> set (th_bus (io_base s))" using received_prefix [OF assms(1)] assms(2) by (metis Un_iff image_set set_append)
  then have "f \<in> set (s_bus a)" using a(2) by (auto simp: thread_rel_def)
  moreover have "f \<notin> set (s_bus (sys_init rnd arg))" by (simp add: sys_init_def case_prod_unfold Let_def)
  ultimately obtain xs ys b where "as = xs @ Can_Cycle # ys" "sys_run rnd (sys_init rnd arg) xs b" "snapshot_frame (s_ctx b) f"
    using bus_snapshots [OF a(1)] by blast
  moreover have "s_tick a = th_tick (io_base s)" using a(2) by (simp add: thread_rel_def)
  ultimately show ?thesis using a(1) unfolding snapshot_frame_def reading_cells_def
    by (intro exI [of _ xs] exI [of _ ys] exI [of _ "s_ctx b"] exI [of _ a]) blast
qed

theorem telemetry_is_genuine_witness:
  "\<exists>s. io_run round_f64 (io_init round_f64 None True) first_frame_labels s \<and>
    io_received s = [(On_Charge_Command, can_protocol_pack_status zero_status)] \<and>
    (\<exists>xs ys a. sys_run round_f64 (sys_init round_f64 None) (xs @ Can_Cycle # ys) a)"
proof -
  obtain s where e: "exec_steps (io_do round_f64) first_frame_labels (io_init round_f64 None True) = Returns s"
    "io_received s = [(On_Charge_Command, can_protocol_pack_status zero_status)]"
    using first_frame [of round_f64 None] by blast
  note s = iffD2 [OF io_run_exec e(1)] e(2)
  have "can_protocol_pack_status zero_status \<in> snd ` set (io_received s)" by (simp add: s(2))
  from telemetry_is_genuine [OF s(1) this] s show ?thesis by blast
qed

text \<open>
  C1. A dangerous pack stops the whole program's machine, end to end: in the overvoltage and the
  overtemperature scenario, once the sensor task has passed the critical section of a round and after
  that the fault task has gone from the start of a round past its critical section, the state machine in the
  shared context is in SHUTDOWN, and it stays there, in every interleaving of the statements of all
  threads, whoever owns the mutex.
\<close>

theorem dangerous_pack_stops_the_program:
  assumes "arg = ''overvoltage'' \<or> arg = ''overtemp''"
    and "io_run round_f64 (io_init round_f64 (Some arg) True) ws s1" and "th_sensor (io_base s1) = Se_Delay"
    and "io_run round_f64 s1 xs s2" and "th_fault (io_base s2) = Fa_Tick"
    and "io_run round_f64 s2 ys s3" and "th_fault (io_base s3) = Fa_Delay" and "io_run round_f64 s3 zs s4"
  shows "fm_state (fault_mgr (th_ctx (io_base s4))) = BMS_STATE_SHUTDOWN"
proof -
  let ?c0 = "thread_init round_f64 (Some arg)" and ?a0 = "sys_init round_f64 (Some arg)"
  obtain l1 where r1: "thread_run round_f64 ?c0 l1 (io_base s1)" using io_run_base [OF assms(2)] by auto
  obtain l2 where r2: "thread_run round_f64 (io_base s1) l2 (io_base s2)" using io_run_base [OF assms(4)] by auto
  obtain l3 where r3: "thread_run round_f64 (io_base s2) l3 (io_base s3)" using io_run_base [OF assms(6)] by auto
  obtain l4 where r4: "thread_run round_f64 (io_base s3) l4 (io_base s4)" using io_run_base [OF assms(8)] by auto
  note ok1 = thread_run_ok [OF r1 thread_init_ok]
  note ok2 = thread_run_ok [OF r2 ok1]
  note ok3 = thread_run_ok [OF r3 ok2]
  have "sensor_before (th_sensor ?c0)" by (simp add: thread_init_def case_prod_unfold Let_def)
  then obtain as1 a1 where a1: "sys_run round_f64 ?a0 as1 a1" "thread_rel round_f64 (io_base s1) a1" "Sensor_Cycle \<in> set as1"
    using thread_run_rounds [OF r1 thread_init_ok thread_init_rel] assms(3) by auto
  obtain as2 a2 where a2: "sys_run round_f64 a1 as2 a2" "thread_rel round_f64 (io_base s2) a2"
    using thread_run_rounds [OF r2 ok1 a1(2)] by blast
  obtain as3 a3 where a3: "sys_run round_f64 a2 as3 a3" "thread_rel round_f64 (io_base s3) a3" "Fault_Cycle \<in> set as3"
    using thread_run_rounds [OF r3 ok2 a2(2)] assms(5,7) by auto
  obtain as4 a4 where a4: "sys_run round_f64 a3 as4 a4" "thread_rel round_f64 (io_base s4) a4"
    using thread_run_rounds [OF r4 ok3 a3(2)] by blast
  obtain us vs ps qs where split: "as1 = us @ Sensor_Cycle # vs" "as3 = ps @ Fault_Cycle # qs"
    using a1(3) a3(3) by (meson split_list)
  have "sys_run round_f64 ?a0 (as1 @ as2 @ as3 @ as4) a4" using a1(1) a2(1) a3(1) a4(1) by (auto simp: sys_run_append)
  then have "sys_run round_f64 ?a0 (us @ Sensor_Cycle # (vs @ as2 @ ps) @ Fault_Cycle # (qs @ as4)) a4"
    by (simp add: split)
  then have "fm_state (fault_mgr (s_ctx a4)) = BMS_STATE_SHUTDOWN"
    by (rule dangerous_pack_is_shut_down) (simp_all add: hot_scenario_init [OF assms(1)])
  moreover have "ctx_rel round_f64 (th_lock (io_base s4)) (th_sensor (io_base s4)) (th_soc (io_base s4))
      (th_fault (io_base s4)) (th_ctx (io_base s4)) a4" using a4(2) by (simp add: thread_rel_def)
  ultimately show ?thesis using ctx_rel_shutdown by blast
qed

text \<open>The sensor and the fault task log their start and complete a round each.\<close>

definition hot_labels :: "thread_label list" where
  "hot_labels = replicate 3 (Run T_Main) @ replicate 12 (Run T_Sensor)"

lemma hot_run:
  "\<exists>s1 s2 s3. io_run round_f64 (io_init round_f64 (Some ''overtemp'') True) hot_labels s1 \<and>
    th_sensor (io_base s1) = Se_Delay \<and>
    io_run round_f64 s1 (replicate 7 (Run T_Fault)) s2 \<and> th_fault (io_base s2) = Fa_Tick \<and>
    io_run round_f64 s2 (replicate 9 (Run T_Fault)) s3 \<and> th_fault (io_base s3) = Fa_Delay"
  unfolding io_run_exec
  by (simp add: hot_labels_def io_init_def io_exec_defs task_sensor_main_def task_fault_main_def eval_nat_numeral)

theorem dangerous_pack_stops_the_program_witness:
  "\<exists>s ls. io_run round_f64 (io_init round_f64 (Some ''overtemp'') True) ls s \<and>
    fm_state (fault_mgr (th_ctx (io_base s))) = BMS_STATE_SHUTDOWN"
proof -
  obtain s1 s2 s3 where s: "io_run round_f64 (io_init round_f64 (Some ''overtemp'') True) hot_labels s1"
    "th_sensor (io_base s1) = Se_Delay"
    "io_run round_f64 s1 (replicate 7 (Run T_Fault)) s2" "th_fault (io_base s2) = Fa_Tick"
    "io_run round_f64 s2 (replicate 9 (Run T_Fault)) s3" "th_fault (io_base s3) = Fa_Delay"
    using hot_run by blast
  from dangerous_pack_stops_the_program [OF disjI2 [OF refl] s io_run.io_nil]
  have "fm_state (fault_mgr (th_ctx (io_base s3))) = BMS_STATE_SHUTDOWN" .
  moreover have "io_run round_f64 (io_init round_f64 (Some ''overtemp'') True)
      (hot_labels @ replicate 7 (Run T_Fault) @ replicate 9 (Run T_Fault)) s3"
    using s by (intro io_run_append [OF io_run_append])
  ultimately show ?thesis by blast
qed

text \<open>
  C25. The whole program runs in IEEE binary64: with double arithmetic that has gradual underflow, and in which
  an operation that overflows may give anything, it reaches exactly the states it reaches when nothing
  overflows, in every interleaving and for up to a billion statements of the SoC task, and its next statements
  are the same. So what the other properties say about \<open>round_f64\<close> holds of binary64 arithmetic.
\<close>

theorem whole_program_never_overflows:
  assumes "count_list ls (Run T_Soc) \<le> 10 ^ 9"
  shows "(io_run (binary64 overflow) (io_init (binary64 overflow) arg True) ls s \<longleftrightarrow>
      io_run round_f64 (io_init round_f64 arg True) ls s) \<and>
    (io_run round_f64 (io_init round_f64 arg True) ls s \<longrightarrow> io_do (binary64 overflow) l s = io_do round_f64 l s)"
proof -
  have init: "io_init (binary64 overflow) arg True = io_init round_f64 arg True"
    by (simp add: io_init_def thread_init_def app_init_without_overflow)
  have run: "io_run (binary64 overflow) (io_init round_f64 arg True) ls s \<longleftrightarrow> io_run round_f64 (io_init round_f64 arg True) ls s"
    using assms
  proof (induction ls arbitrary: s rule: rev_induct)
    case (snoc l ls)
    have "count_list ls (Run T_Soc) \<le> 10 ^ 9" using snoc.prems by (simp split: if_splits)
    with snoc.IH io_reachable_without_overflow [of arg ls] show ?case unfolding io_run_snoc by metis
  qed simp
  then show ?thesis using io_reachable_without_overflow [OF _ assms] by (simp only: init) blast
qed

theorem whole_program_never_overflows_witness:
  "\<exists>s. io_run (binary64 (\<lambda>x. 2 * x)) (io_init (binary64 (\<lambda>x. 2 * x)) None True) first_frame_labels s"
proof -
  obtain s where "exec_steps (io_do round_f64) first_frame_labels (io_init round_f64 None True) = Returns s"
    using first_frame by blast
  then have s: "io_run round_f64 (io_init round_f64 None True) first_frame_labels s" by (simp add: io_run_exec)
  have "count_list first_frame_labels (Run T_Soc) \<le> 10 ^ 9" unfolding first_frame_labels_def by (subst count_notin) auto
  from whole_program_never_overflows [OF this, of "\<lambda>x. 2 * x" None s] s show ?thesis by blast
qed

text \<open>
  C38. What goes wrong when \<open>can_hal_init\<close> fails: \<open>main\<close> ignores its result and creates the CAN
  task all the same, whose registration locks a null mutex. The state in which its next statement is
  undefined is reachable in every scenario. The registration is the same in both back ends; it is the SocketCAN
  one whose initialisation fails, before it creates the mutex, when the interface is missing.
\<close>

theorem registration_without_bus_is_undefined:
  "\<exists>s. io_run rnd (io_init rnd arg False) (replicate 4 (Run T_Main) @ [Run T_Can]) s \<and>
    io_do rnd (Run T_Can) s = Undefined"
proof -
  have "\<exists>s. exec_steps (io_do rnd) (replicate 4 (Run T_Main) @ [Run T_Can]) (io_init rnd arg False) = Returns s \<and>
      io_do rnd (Run T_Can) s = Undefined"
    by (simp add: io_init_def io_exec_defs eval_nat_numeral)
  then show ?thesis by (simp add: io_run_exec)
qed

end
