(* ===== verification/Task_Progress.thy ===== *)
theory Task_Progress
  imports Whole_Program
begin

text \<open>
  Single threads in the whole program: no task is ever locked out by another one, the watchdog stops the
  machine when a monitored task executes nothing any more, and what happens when a thread hangs while it
  owns the mutex of the context.
\<close>

section \<open>Waiting for a mutex\<close>

datatype mutex_id = Ctx_Mutex | Bus_Mutex | Log_Mutex

fun mutex_of :: "mutex_id \<Rightarrow> io_threads \<Rightarrow> task_id osal_mutex option" where
  "mutex_of Ctx_Mutex s = Some (th_lock (io_base s))"
| "mutex_of Bus_Mutex s = io_bus_lock s"
| "mutex_of Log_Mutex s = lg_lock (io_log s)"

text \<open>The statements a thread in a section still has to execute up to its unlock call.\<close>

fun section_left :: "bms_threads \<Rightarrow> task_id \<Rightarrow> nat" where
  "section_left c T_Sensor = sensor_left (th_sensor c) - 2"
| "section_left c T_Soc = soc_left (th_soc c) - 2"
| "section_left c T_Fault = fault_left (th_fault c) - 3"
| "section_left c T_Can = can_left (th_can c) - 5"
| "section_left c T_Watchdog = watchdog_left (th_watchdog c) - (if watchdog_left (th_watchdog c) \<le> 4 then 2 else 7)"
| "section_left c T_Main = main_left (th_main c) - 1"

fun bus_left :: "io_stmt list \<Rightarrow> nat" where
  "bus_left (Sub_Write _ # _) = 2" | "bus_left (Sub_Unlock # _) = 1"
| "bus_left (Send_Copy _ # _) = 2" | "bus_left (Send_Unlock _ _ # _) = 1" | "bus_left _ = 0"

fun hold_left :: "mutex_id \<Rightarrow> io_threads \<Rightarrow> task_id \<Rightarrow> nat" where
  "hold_left Ctx_Mutex s t = section_left (io_base s) t"
| "hold_left Bus_Mutex s t = bus_left (io_todo s t)"
| "hold_left Log_Mutex s t = log_left (lg_pc (io_log s) t)"

text \<open>In a section a statement comes closer to the unlock call, or is it.\<close>

lemma section_left_range: "in_section c t \<Longrightarrow> 1 \<le> section_left c t \<and> section_left c t \<le> 8"
proof (cases t)
  assume sec: "in_section c t"
  show "t = T_Sensor \<Longrightarrow> ?thesis" using sec by (cases "th_sensor c") simp_all
  show "t = T_Soc \<Longrightarrow> ?thesis" using sec by (cases "th_soc c") simp_all
  show "t = T_Fault \<Longrightarrow> ?thesis" using sec by (cases "th_fault c") simp_all
  show "t = T_Can \<Longrightarrow> ?thesis" using sec by (cases "th_can c") simp_all
  show "t = T_Watchdog \<Longrightarrow> ?thesis" using sec by (cases "th_watchdog c") simp_all
  show "t = T_Main \<Longrightarrow> ?thesis" using sec by auto
qed

lemma section_step:
  assumes "thread_do rnd (Run t) c = Returns c'" and "in_section c t" and "in_section c' t"
  shows "section_left c' t < section_left c t"
proof (cases t)
  case T_Sensor
  with assms show ?thesis
    by (cases "th_sensor c") (auto simp: task_sensor_main_def case_prod_unfold Let_def split: if_splits)
next
  case T_Soc
  with assms show ?thesis by (cases "th_soc c") (auto simp: task_soc_main_def split: if_splits)
next
  case T_Fault
  with assms show ?thesis by (cases "th_fault c") (auto simp: task_fault_main_def split: if_splits)
next
  case T_Can
  with assms show ?thesis by (cases "th_can c") (auto simp: task_can_main_def split: if_splits)
next
  case T_Watchdog
  with assms show ?thesis by (cases "th_watchdog c") (auto simp: task_watchdog_main_def split: if_splits)
next
  case T_Main
  with assms show ?thesis by (auto simp: main_thread_def split: main_pc.splits list.splits)
qed

lemma section_step_lock:
  assumes ok: "thread_ok c" and lock: "th_lock c = Mx_Held t" and step: "thread_do rnd (Run t) c = Returns c'"
  shows "th_lock c' = Mx_Free \<or> th_lock c' = Mx_Held t \<and> section_left c' t < section_left c t"
proof -
  have sec: "in_section c t" using section_owner [OF ok] lock by simp
  have "lock_move t c c'"
  proof (cases "t = T_Main")
    case True
    then have "th_main c \<noteq> Ma_Destroy" using sec by auto
    with True step show ?thesis using main_lock_move by simp
  qed (rule Run_cases(2) [OF step])
  then show ?thesis using lock section_step [OF step sec] sec by (auto simp: lock_move_def)
qed

text \<open>The thread that owns a mutex can execute its next statement.\<close>

lemma log_owner:
  assumes ok: "io_ok s" and held: "lg_lock (io_log s) = Some (Mx_Held t)"
  shows "log_section s t"
proof -
  have ok': "io_log_ok s" using ok by (simp add: io_ok_def)
  have "\<not> log_gone s" using held ok' by (auto simp: io_log_ok_def)
  then show ?thesis using held log_mutex [OF ok'] by (metis option.inject)
qed

lemma bus_owner:
  assumes "io_ok s" and "io_bus_lock s = Some (Mx_Held t)"
  shows "bus_section s t" and "lg_pc (io_log s) t = Lg_Idle"
  using assms by (auto simp: io_ok_def io_bus_ok_def)

lemma ctx_owner:
  assumes "io_ok s" and "th_lock (io_base s) = Mx_Held t"
  shows "in_section (io_base s) t" and "io_idle s t"
  using assms control_okD(1,2) section_owner unfolding io_ok_def by blast+

lemma owner_started:
  assumes ok: "io_ok s" and held: "mutex_of m s = Some (Mx_Held t)"
  shows "t = T_Main \<or> t \<in> set (th_handles (io_base s))"
proof (cases m)
  case Ctx_Mutex
  then show ?thesis using ctx_owner(1) [OF ok] held control_okD(1) ok by (auto simp: io_ok_def thread_ok_def)
next
  case Bus_Mutex
  then have "bus_section s t" using bus_owner(1) [OF ok] held by simp
  then show ?thesis using control_okD(4) [of s t] outer_head ok by (auto simp: io_ok_def)
next
  case Log_Mutex
  then have "lg_pc (io_log s) t \<noteq> Lg_Idle" using log_owner [OF ok] held by auto
  then show ?thesis using control_okD(4) [of s t] ok by (auto simp: io_ok_def)
qed

lemma section_not_blocked:
  assumes "in_section c t" and "t = T_Main \<or> t \<in> set (th_handles c)"
  shows "thread_do rnd (Run t) c \<noteq> Blocks"
proof (cases "t = T_Main")
  case True
  then show ?thesis using assms(1) by (auto simp: main_thread_def)
next
  case False
  then show ?thesis using task_blocks [of t c rnd] assms exited_outside by blast
qed

lemma owner_not_blocked:
  assumes ok: "io_ok s" and held: "mutex_of m s = Some (Mx_Held t)"
  shows "io_do rnd (Run t) s \<noteq> Blocks"
proof -
  have t: "t = T_Main \<or> t \<in> set (th_handles (io_base s))" by (rule owner_started [OF assms])
  show ?thesis
  proof (cases m)
    case Ctx_Mutex
    then have "in_section (io_base s) t" "io_idle s t" using ctx_owner [OF ok] held by simp_all
    moreover from this(1) have "\<not> join_waits s t" by (auto simp: join_waits_def)
    ultimately show ?thesis using t section_not_blocked by (simp add: io_step_def base_step_def io_idle_def)
  next
    case Bus_Mutex
    then have sec: "bus_section s t" "lg_pc (io_log s) t = Lg_Idle" using bus_owner [OF ok] held by simp_all
    then obtain st sts where "io_todo s t = st # sts" "inner st" by (cases "io_todo s t") auto
    then show ?thesis using t sec exec_blocks [of t st s] by (auto simp: io_step_def)
  next
    case Log_Mutex
    then have "log_section s t" using log_owner [OF ok] held by simp
    then show ?thesis using t log_blocks [of t "io_log s"] by (auto simp: io_step_def)
  qed
qed

lemma inner_bus_left: "bus_head sts \<Longrightarrow> bus_left sts \<in> {1, 2}"
  by (cases sts rule: bus_left.cases) simp_all

lemma hold_left_range:
  assumes ok: "io_ok s" and held: "mutex_of m s = Some (Mx_Held t)"
  shows "1 \<le> hold_left m s t" and "hold_left m s t \<le> 8"
proof -
  have "1 \<le> hold_left m s t \<and> hold_left m s t \<le> 8"
  proof (cases m)
    case Ctx_Mutex
    then show ?thesis using section_left_range ctx_owner(1) [OF ok] held by simp
  next
    case Bus_Mutex
    then show ?thesis using inner_bus_left [of "io_todo s t"] bus_owner(1) [OF ok] held by auto
  next
    case Log_Mutex
    then show ?thesis using log_owner [OF ok] held by (cases "lg_pc (io_log s) t") auto
  qed
  then show "1 \<le> hold_left m s t" "hold_left m s t \<le> 8" by simp_all
qed

text \<open>A statement of the owner of a mutex frees it or comes closer to that.\<close>

lemma bus_step_lock:
  assumes "io_exec t st s = Returns (s1, new)" and "inner st" and "io_bus_lock s = Some (Mx_Held t)"
  shows "io_bus_lock s1 = Some Mx_Free \<or>
    io_bus_lock s1 = Some (Mx_Held t) \<and> bus_left (new @ sts) < bus_left (st # sts)"
  using assms by (cases st) (auto simp: with_bus_lock_def)

lemma log_step_lock:
  assumes "log_do (Log_Step t) l = Returns l'" and "in_line (lg_pc l t)" and "lg_lock l = Some (Mx_Held t)"
  shows "lg_lock l' = Some Mx_Free \<or> lg_lock l' = Some (Mx_Held t) \<and> log_left (lg_pc l' t) < log_left (lg_pc l t)"
  using assms by (cases "lg_pc l t") (auto simp: with_lock_def)

lemma owner_step:
  assumes ok: "io_ok s" and held: "mutex_of m s = Some (Mx_Held t)" and step: "io_do rnd (Run t) s = Returns s'"
  shows "mutex_of m s' = Some Mx_Free \<or> mutex_of m s' = Some (Mx_Held t) \<and> hold_left m s' t < hold_left m s t"
proof -
  have io: "io_step rnd t s = Returns s'" using step by (simp split: if_splits)
  show ?thesis
  proof (cases m)
    case Ctx_Mutex
    then have "io_idle s t" using ctx_owner(2) [OF ok] held by simp
    with io show ?thesis
    proof (cases rule: io_step_cases)
      case (base c)
      then show ?thesis using section_step_lock [of "io_base s" t rnd c] Ctx_Mutex held control_okD(1) ok
        by (simp add: io_ok_def)
    qed (simp_all add: io_idle_def)
  next
    case Bus_Mutex
    then have sec: "bus_section s t" "lg_pc (io_log s) t = Lg_Idle" using bus_owner [OF ok] held by simp_all
    from io show ?thesis
    proof (cases rule: io_step_cases)
      case (exec st sts s1 new)
      then show ?thesis using bus_step_lock [of t st s s1 new sts] sec Bus_Mutex held by simp
    qed (use sec in \<open>simp_all add: io_idle_def\<close>)
  next
    case Log_Mutex
    then have sec: "log_section s t" using log_owner [OF ok] held by simp
    from io show ?thesis
    proof (cases rule: io_step_cases)
      case (log l)
      then show ?thesis using log_step_lock [of t "io_log s" l] sec Log_Mutex held by simp
    qed (use sec in \<open>simp_all add: io_idle_def\<close>)
  qed
qed

text \<open>What the statements of another thread leave alone of a task: where it is, and that it was created.\<close>

definition task_kept :: "task_id \<Rightarrow> io_threads \<Rightarrow> io_threads \<Rightarrow> bool" where
  "task_kept t s s' \<longleftrightarrow> lg_pc (io_log s') t = lg_pc (io_log s) t \<and> io_todo s' t = io_todo s t \<and>
     task_exited (io_base s') t = task_exited (io_base s) t \<and>
     (t \<in> set (th_handles (io_base s)) \<longrightarrow> t \<in> set (th_handles (io_base s')))"

lemma task_kept_trans: "task_kept t s1 s2 \<Longrightarrow> task_kept t s2 s3 \<Longrightarrow> task_kept t s1 s3"
  by (simp add: task_kept_def)

lemma other_step_kept:
  assumes ok: "io_ok s" and step: "io_do rnd (Run u) s = Returns s'" and t: "t \<noteq> u" "t \<noteq> T_Main"
  shows "task_kept t s s'"
proof -
  have io: "io_step rnd u s = Returns s'" using step by (simp split: if_splits)
  then show ?thesis
  proof (cases rule: io_step_cases)
    case (log l)
    then show ?thesis using log_do_frame [of u "io_log s" l t] t by (simp add: task_kept_def)
  next
    case (exec st sts s1 new)
    then show ?thesis using io_exec_frame(1,2) [OF exec(3)] io_exec_frame(3) [OF exec(3), of t] t
      by (simp add: task_kept_def)
  next
    case (base c)
    have "thread_ok (io_base s)" using ok control_okD(1) by (simp add: io_ok_def)
    note frame = base_frame [OF this base(3)]
    have "set (th_handles (io_base s)) \<subseteq> set (th_handles c)"
      using frame(3) main_stage(3) [of "io_base s" c] base(3) by (cases "u = T_Main") auto
    then show ?thesis using frame(2) [of t] t base(4) by (auto simp: task_kept_def)
  qed
qed

text \<open>The mutex a blocked task waits for.\<close>

definition awaited :: "io_threads \<Rightarrow> task_id \<Rightarrow> mutex_id" where
  "awaited s t = (if lg_pc (io_log s) t \<noteq> Lg_Idle then Log_Mutex else if io_todo s t \<noteq> [] then Bus_Mutex else Ctx_Mutex)"

lemma kept_awaited: "task_kept t s s' \<Longrightarrow> awaited s' t = awaited s t"
  by (simp add: task_kept_def awaited_def)

lemma kept_finished: "task_kept t s s' \<Longrightarrow> io_finished s' t = io_finished s t"
  by (simp add: task_kept_def io_finished_def io_idle_def)

lemma blocked_task_waits:
  assumes t: "t \<in> set (th_handles (io_base s))" "t \<noteq> T_Main" "\<not> io_finished s t" and blocks: "io_do rnd (Run t) s = Blocks"
  shows "\<exists>u. mutex_of (awaited s t) s = Some (Mx_Held u)"
proof -
  have step: "io_step rnd t s = Blocks" using blocks t(1) by simp
  consider (log) "lg_pc (io_log s) t \<noteq> Lg_Idle" | (bus) st sts where "lg_pc (io_log s) t = Lg_Idle" "io_todo s t = st # sts"
    | (ctx) "lg_pc (io_log s) t = Lg_Idle" "io_todo s t = []" by (cases "io_todo s t") auto
  then show ?thesis
  proof cases
    case log
    then show ?thesis using step log_blocks [of t "io_log s"] by (simp add: io_step_def awaited_def)
  next
    case bus
    then show ?thesis using step exec_blocks [of t st s] by (simp add: io_step_def awaited_def)
  next
    case ctx
    have "\<not> join_waits s t" using t(2) by (simp add: join_waits_def)
    then have "thread_do rnd (Run t) (io_base s) = Blocks" using step ctx by (simp add: io_step_def base_step_def)
    moreover have "\<not> task_exited (io_base s) t" using t(3) ctx by (simp add: io_finished_def io_idle_def)
    ultimately show ?thesis using task_blocks [OF t(1,2)] ctx by (auto simp: awaited_def)
  qed
qed

section \<open>The owner lets go\<close>

text \<open>From a reachable state the owner of a mutex frees it by itself, with its next statements.\<close>

lemma owner_releases:
  assumes "io_run round_f64 (io_init round_f64 arg True) ls s" and "mutex_of m s = Some (Mx_Held u)"
    and "count_list ls (Run T_Soc) + hold_left m s u \<le> 10 ^ 9"
  shows "\<exists>k s'. k \<le> hold_left m s u \<and> io_run round_f64 s (replicate k (Run u)) s' \<and> mutex_of m s' = Some Mx_Free \<and>
    (\<forall>t. t \<noteq> u \<and> t \<noteq> T_Main \<longrightarrow> task_kept t s s')"
  using assms
proof (induction "hold_left m s u" arbitrary: s ls rule: less_induct)
  case less
  note run = less.prems(1) and held = less.prems(2)
  have ok: "io_ok s" using io_reachable(1) [OF run] .
  have "io_do round_f64 (Run u) s \<noteq> Undefined" by (rule io_reachable_defined [OF run]) (use less.prems(3) in simp)
  then obtain s1 where s1: "io_do round_f64 (Run u) s = Returns s1"
    using owner_not_blocked [OF ok held, of round_f64] by (cases "io_do round_f64 (Run u) s") auto
  have kept: "task_kept t s s1" if "t \<noteq> u" "t \<noteq> T_Main" for t using other_step_kept [OF ok s1] that by simp
  have run1: "io_run round_f64 (io_init round_f64 arg True) (ls @ [Run u]) s1" using run s1 by (rule io_run.io_snoc)
  have one: "io_run round_f64 s [Run u] s1" using io_run.io_snoc [OF io_run.io_nil s1] by simp
  from owner_step [OF ok held s1] show ?case
  proof
    assume free: "mutex_of m s1 = Some Mx_Free"
    then show ?thesis using one kept hold_left_range(1) [OF ok held] by (intro exI [of _ 1] exI [of _ s1]) auto
  next
    assume next_: "mutex_of m s1 = Some (Mx_Held u) \<and> hold_left m s1 u < hold_left m s u"
    then have "count_list (ls @ [Run u]) (Run T_Soc) + hold_left m s1 u \<le> 10 ^ 9" using less.prems(3) by (auto split: if_splits)
    then obtain k s' where k: "k \<le> hold_left m s1 u" "io_run round_f64 s1 (replicate k (Run u)) s'"
      "mutex_of m s' = Some Mx_Free" "\<And>t. t \<noteq> u \<and> t \<noteq> T_Main \<Longrightarrow> task_kept t s1 s'"
      using less.hyps [OF _ run1] next_ by blast
    have "io_run round_f64 s (replicate (Suc k) (Run u)) s'" using io_run_append [OF k(2) one] by simp
    moreover have "task_kept t s s'" if "t \<noteq> u" "t \<noteq> T_Main" for t
      using task_kept_trans [OF kept k(4)] that by blast
    ultimately show ?thesis using k(1,3) next_ by (intro exI [of _ "Suc k"] exI [of _ s']) simp
  qed
qed

section \<open>A thread that hangs\<close>

text \<open>The heartbeat of a monitored task.\<close>

fun heartbeat_of :: "task_id \<Rightarrow> app_context_t \<Rightarrow> u32" where
  "heartbeat_of T_Sensor ctx = hb_sensor_ms ctx"
| "heartbeat_of T_Soc ctx = hb_soc_ms ctx"
| "heartbeat_of T_Fault ctx = hb_fault_ms ctx"
| "heartbeat_of _ ctx = 0"

abbreviation monitored :: "task_id \<Rightarrow> bool" where
  "monitored t \<equiv> t = T_Sensor \<or> t = T_Soc \<or> t = T_Fault"

text \<open>A thread outside its section leaves the context alone.\<close>

lemma outside_keeps_ctx:
  assumes "thread_do rnd (Run u) c = Returns c'" and "\<not> in_section c u"
  shows "th_ctx c' = th_ctx c"
proof (cases u)
  case T_Sensor
  with assms show ?thesis
    by (cases "th_sensor c") (auto simp: task_sensor_main_def case_prod_unfold Let_def split: if_splits)
next
  case T_Soc
  with assms show ?thesis by (cases "th_soc c") (auto simp: task_soc_main_def split: if_splits)
next
  case T_Fault
  with assms show ?thesis by (cases "th_fault c") (auto simp: task_fault_main_def split: if_splits)
next
  case T_Can
  with assms show ?thesis by (cases "th_can c") (auto simp: task_can_main_def split: if_splits)
next
  case T_Watchdog
  with assms show ?thesis by (cases "th_watchdog c") (auto simp: task_watchdog_main_def split: if_splits)
next
  case T_Main
  with assms show ?thesis by (auto simp: main_thread_def split: main_pc.splits list.splits if_splits)
qed

lemma hung_step:
  assumes ok: "thread_ok c" and sec: "in_section c t" and step: "thread_do rnd l c = Returns c'" and l: "l \<noteq> Run t"
  shows "in_section c' t \<and> th_ctx c' = th_ctx c"
proof (cases l)
  case (Run u)
  then have u: "u \<noteq> t" and step': "thread_do rnd (Run u) c = Returns c'" using l step by simp_all
  have "\<not> in_section c u" using section_owner [OF ok] sec u by auto
  then show ?thesis using outside_keeps_ctx [OF step'] base_frame(1) [OF ok step', of t] u sec by simp
next
  case (Elapse d)
  then have "c' = c\<lparr>th_tick := th_tick c + d\<rparr>" using step by simp
  then show ?thesis using sec by (cases t) simp_all
next
  case Create_Fails
  then obtain ts where "c' = c\<lparr>th_main := Ma_Create ts\<rparr>" "th_main c \<noteq> Ma_Print" "th_main c \<noteq> Ma_Unlock"
    using step by (auto split: main_pc.splits list.splits)
  then show ?thesis using sec by (cases t) simp_all
qed

lemma hung_run:
  assumes "io_run rnd s ls s'" and "io_ok s" and "in_section (io_base s) t" and "Run t \<notin> set ls"
  shows "in_section (io_base s') t \<and> th_ctx (io_base s') = th_ctx (io_base s)"
  using assms
proof (induction rule: io_run.induct)
  case (io_snoc s ls s' l s'')
  then have IH: "in_section (io_base s') t \<and> th_ctx (io_base s') = th_ctx (io_base s)" and l: "l \<noteq> Run t" by auto
  have "thread_ok (io_base s')" using io_run_ok [OF io_snoc.hyps(1) io_snoc.prems(1)] control_okD(1) by (simp add: io_ok_def)
  then show ?case using io_do_base [OF io_snoc.hyps(2)] hung_step [of "io_base s'" t rnd l "io_base s''"] IH l by auto
qed simp

text \<open>
  A watchdog that has read the tick while a heartbeat was too old is on its way to the report, or the
  machine is in SHUTDOWN.
\<close>

fun condemned :: "(nat \<Rightarrow> u32 \<Rightarrow> bool) \<Rightarrow> u32 \<Rightarrow> watchdog_thread_pc \<Rightarrow> bool" where
  "condemned old now (Wa_Lock n) \<longleftrightarrow> n = now"
| "condemned old now (Wa_Sensor n) \<longleftrightarrow> n = now"
| "condemned old now (Wa_Soc n h1) \<longleftrightarrow> n = now \<and> old 1 h1"
| "condemned old now (Wa_Fault n h1 h2) \<longleftrightarrow> n = now \<and> old 1 h1 \<and> old 2 h2"
| "condemned old now (Wa_Unlock n h1 h2 h3) \<longleftrightarrow> n = now \<and> old 1 h1 \<and> old 2 h2 \<and> old 3 h3"
| "condemned old now (Wa_Decide n h1 h2 h3) \<longleftrightarrow> n = now \<and> old 1 h1 \<and> old 2 h2 \<and> old 3 h3"
| "condemned old now (Wa_Log n) \<longleftrightarrow> True"
| "condemned old now (Wa_Lock_Report n) \<longleftrightarrow> True"
| "condemned old now (Wa_Report n) \<longleftrightarrow> True"
| "condemned old now _ \<longleftrightarrow> False"

fun monitor_index :: "task_id \<Rightarrow> nat" where
  "monitor_index T_Sensor = 1" | "monitor_index T_Soc = 2" | "monitor_index T_Fault = 3" | "monitor_index _ = 0"

definition watched :: "task_id \<Rightarrow> u32 \<Rightarrow> u32 \<Rightarrow> bms_threads \<Rightarrow> bool" where
  "watched t now h c \<longleftrightarrow> fm_state (fault_mgr (th_ctx c)) = BMS_STATE_SHUTDOWN \<or>
     heartbeat_of t (th_ctx c) = h \<and> condemned (\<lambda>i h'. i = monitor_index t \<longrightarrow> h' = h) now (th_watchdog c)"

lemma other_heartbeat:
  assumes "thread_do rnd (Run u) c = Returns c'" and "u \<noteq> t" and "monitored t"
  shows "heartbeat_of t (th_ctx c') = heartbeat_of t (th_ctx c)"
  using assms
  by (cases u; auto simp: thread_defs case_prod_unfold Let_def
      split: if_splits sensor_pc.splits soc_pc.splits fault_pc.splits can_pc.splits watchdog_thread_pc.splits
        main_pc.splits list.splits)

lemma shutdown_kept:
  assumes "thread_do rnd l c = Returns c'" and "fm_state (fault_mgr (th_ctx c)) = BMS_STATE_SHUTDOWN"
  shows "fm_state (fault_mgr (th_ctx c')) = BMS_STATE_SHUTDOWN"
proof (cases l)
  case (Run u)
  then show ?thesis using assms
    by (cases u; auto simp: thread_defs case_prod_unfold Let_def
        split: if_splits sensor_pc.splits soc_pc.splits fault_pc.splits can_pc.splits watchdog_thread_pc.splits
          main_pc.splits list.splits)
qed (use assms in \<open>auto split: main_pc.splits list.splits\<close>)

lemma watched_step:
  assumes stale: "now - h > WATCHDOG_STALE_MS" and t: "monitored t" and w: "watched t now h c"
    and step: "thread_do rnd l c = Returns c'" and l: "l \<noteq> Run t"
  shows "watched t now h c'"
proof (cases "fm_state (fault_mgr (th_ctx c)) = BMS_STATE_SHUTDOWN")
  case True
  then show ?thesis using shutdown_kept [OF step] by (simp add: watched_def)
next
  case False
  then have h: "heartbeat_of t (th_ctx c) = h" and pc: "condemned (\<lambda>i h'. i = monitor_index t \<longrightarrow> h' = h) now (th_watchdog c)"
    using w by (simp_all add: watched_def)
  show ?thesis
  proof (cases l)
    case (Run u)
    show ?thesis
    proof (cases "u = T_Watchdog")
      case True
      then have "task_watchdog_main c = Returns c'" using step Run by (simp split: if_splits)
      then show ?thesis using h pc t stale
        by (cases "th_watchdog c") (auto simp: task_watchdog_main_def watched_def heartbeats_stale_def)
    next
      case False
      have "th_watchdog c' = th_watchdog c"
        using False step Run Run_cases(3) [of rnd u c c']
        by (cases "u = T_Main") (auto simp: pcs_kept_def main_thread_def split: main_pc.splits list.splits if_splits)
      then show ?thesis using h pc other_heartbeat [of rnd u c c' t] step Run l t by (simp add: watched_def)
    qed
  next
    case (Elapse d)
    then show ?thesis using step h pc by (auto simp: watched_def)
  next
    case Create_Fails
    then show ?thesis using step h pc by (auto simp: watched_def split: main_pc.splits list.splits)
  qed
qed

lemma watched_run:
  assumes "io_run rnd s ls s'" and "now - h > WATCHDOG_STALE_MS" and "monitored t" and "watched t now h (io_base s)"
    and "Run t \<notin> set ls"
  shows "watched t now h (io_base s')"
  using assms
proof (induction rule: io_run.induct)
  case (io_snoc s ls s' l s'')
  then have "watched t now h (io_base s')" "l \<noteq> Run t" by auto
  then show ?case
    using io_do_base [OF io_snoc.hyps(2)] watched_step [OF io_snoc.prems(1,2), of "io_base s'" rnd l "io_base s''"] by auto
qed simp

lemma io_run_shutdown:
  assumes "io_run rnd s ls s'" and "fm_state (fault_mgr (th_ctx (io_base s))) = BMS_STATE_SHUTDOWN"
  shows "fm_state (fault_mgr (th_ctx (io_base s'))) = BMS_STATE_SHUTDOWN"
  using assms
proof (induction rule: io_run.induct)
  case (io_snoc s ls s' l s'')
  then show ?case using io_do_base [OF io_snoc.hyps(2)] shutdown_kept by auto
qed simp

section \<open>Properties\<close>

text \<open>The SoC task waits at its lock call while the sensor task is in its section.\<close>

definition contended_labels :: "thread_label list" where
  "contended_labels = replicate 2 (Run T_Main) @ replicate 9 (Run T_Sensor) @ replicate 7 (Run T_Soc)"

lemma contended:
  "\<exists>s. io_run rnd (io_init rnd None True) contended_labels s \<and> th_handles (io_base s) = [T_Sensor, T_Soc] \<and>
    th_sensor (io_base s) \<noteq> Se_Exit \<and> th_soc (io_base s) = So_Lock \<and> in_section (io_base s) T_Sensor \<and>
    io_do rnd (Run T_Soc) s = Blocks"
  unfolding io_run_exec
  by (simp add: contended_labels_def io_init_def io_exec_defs task_sensor_main_def task_soc_main_def eval_nat_numeral)

text \<open>
  C16. No task is ever locked out: in every reachable state of the whole program with its three mutexes, a
  created task that has not finished can execute its next statement after at most eight statements of one other
  thread, the owner of the mutex it waits for; no other cooperation is needed, whatever the task does: its work on the
  context, a log call, the registration or a send. For up to 900 million statements of the SoC task, with double
  arithmetic.
\<close>

theorem no_task_is_locked_out:
  assumes "io_run round_f64 (io_init round_f64 arg True) ls s" and "count_list ls (Run T_Soc) \<le> 9 * 10 ^ 8"
    and "t \<in> set (th_handles (io_base s))" and "\<not> io_finished s t"
  shows "\<exists>u k s' s''. k \<le> 8 \<and> io_run round_f64 s (replicate k (Run u)) s' \<and> io_do round_f64 (Run t) s' = Returns s''"
proof (cases "io_do round_f64 (Run t) s = Blocks")
  case False
  have "io_do round_f64 (Run t) s \<noteq> Undefined" by (rule io_reachable_defined [OF assms(1)]) (use assms(2) in simp)
  then obtain s'' where "io_do round_f64 (Run t) s = Returns s''" using False by (metis outcome.exhaust)
  then show ?thesis by (intro exI [of _ t] exI [of _ 0] exI [of _ s] exI [of _ s'']) simp
next
  case True
  have ok: "io_ok s" using io_reachable(1) [OF assms(1)] .
  have t: "t \<noteq> T_Main" using assms(3) ok control_okD(1) by (auto simp: io_ok_def thread_ok_def app_tasks_def)
  obtain u where u: "mutex_of (awaited s t) s = Some (Mx_Held u)" using blocked_task_waits [OF assms(3) t assms(4) True] by blast
  have "t \<noteq> u" using owner_not_blocked [OF ok u, of round_f64] True by blast
  moreover obtain k s' where k: "k \<le> hold_left (awaited s t) s u" "io_run round_f64 s (replicate k (Run u)) s'"
    "mutex_of (awaited s t) s' = Some Mx_Free" "\<forall>t. t \<noteq> u \<and> t \<noteq> T_Main \<longrightarrow> task_kept t s s'"
    using owner_releases [OF assms(1) u] assms(2) hold_left_range(2) [OF ok u] by auto
  ultimately have kept: "task_kept t s s'" using t by blast
  have run: "io_run round_f64 (io_init round_f64 arg True) (ls @ replicate k (Run u)) s'" by (rule io_run_append [OF k(2) assms(1)])
  have "count_list (ls @ replicate k (Run u)) (Run T_Soc) \<le> 10 ^ 9"
    using assms(2) k(1) hold_left_range(2) [OF ok u] count_le_length [of "replicate k (Run u)" "Run T_Soc"] by simp
  then have "io_do round_f64 (Run t) s' \<noteq> Undefined" by (rule io_reachable_defined [OF run])
  moreover have "io_do round_f64 (Run t) s' \<noteq> Blocks"
    using blocked_task_waits [of t s' round_f64] kept_awaited [OF kept] kept_finished [OF kept] k(3) assms(3,4) t kept
    by (auto simp: task_kept_def)
  ultimately obtain s'' where "io_do round_f64 (Run t) s' = Returns s''" by (metis outcome.exhaust)
  then show ?thesis using k(1,2) hold_left_range(2) [OF ok u]
    by (intro exI [of _ u] exI [of _ k] exI [of _ s'] exI [of _ s'']) simp
qed

theorem no_task_is_locked_out_witness:
  "\<exists>s. io_run round_f64 (io_init round_f64 None True) contended_labels s \<and> io_do round_f64 (Run T_Soc) s = Blocks \<and>
    (\<exists>u k s' s''. k \<le> 8 \<and> io_run round_f64 s (replicate k (Run u)) s' \<and> io_do round_f64 (Run T_Soc) s' = Returns s'')"
proof -
  obtain s where s: "io_run round_f64 (io_init round_f64 None True) contended_labels s" "th_handles (io_base s) = [T_Sensor, T_Soc]"
    "th_soc (io_base s) = So_Lock" "io_do round_f64 (Run T_Soc) s = Blocks" using contended by blast
  have "count_list contended_labels (Run T_Soc) \<le> 9 * 10 ^ 8"
    using count_le_length [of contended_labels "Run T_Soc"] by (simp add: contended_labels_def)
  moreover have "T_Soc \<in> set (th_handles (io_base s))" "\<not> io_finished s T_Soc"
    using s(2,3) by (simp_all add: io_finished_def task_exited_def)
  ultimately show ?thesis using no_task_is_locked_out [OF s(1)] s(1,4) by blast
qed

text \<open>
  C14. The watchdog catches a stalled task, in every interleaving of the statements of the whole program: when
  it has read the tick while the heartbeat of a monitored task is more than a second old, and that task executes
  nothing any more, then by the end of the watchdog's round the machine is in SHUTDOWN, and it stays there. The
  watchdog reads the three heartbeats one after the other under the lock, decides after releasing it and takes it
  again to report; time may pass and the other threads may run in between.
\<close>

theorem watchdog_catches_stalled_task:
  assumes "io_run rnd (io_init rnd arg True) ws s1" and "th_watchdog (io_base s1) = Wa_Lock now"
    and "monitored t" and "now - heartbeat_of t (th_ctx (io_base s1)) > WATCHDOG_STALE_MS"
    and "io_run rnd s1 ls s2" and "Run t \<notin> set ls" and "th_watchdog (io_base s2) = Wa_Delay"
    and "io_run rnd s2 ls' s3"
  shows "fm_state (fault_mgr (th_ctx (io_base s3))) = BMS_STATE_SHUTDOWN"
proof -
  have "watched t now (heartbeat_of t (th_ctx (io_base s1))) (io_base s1)" using assms(2) by (simp add: watched_def)
  from watched_run [OF assms(5,4,3) this assms(6)]
  have "fm_state (fault_mgr (th_ctx (io_base s2))) = BMS_STATE_SHUTDOWN" using assms(7) by (simp add: watched_def)
  then show ?thesis by (rule io_run_shutdown [OF assms(8)])
qed

text \<open>No task runs for 1001 ms, then the watchdog completes its first round.\<close>

lemma stale_1001: "heartbeats_stale 1001 0 0 0"
  by (simp add: heartbeats_stale_def WATCHDOG_STALE_MS_def)

lemma stalled_round:
  "\<exists>s1 s2. io_run rnd (io_init rnd None True) (replicate 5 (Run T_Main) @ Elapse 1001 # replicate 9 (Run T_Watchdog)) s1 \<and>
    th_watchdog (io_base s1) = Wa_Lock 1001 \<and> heartbeat_of T_Soc (th_ctx (io_base s1)) = 0 \<and>
    io_run rnd s1 (Elapse 7 # replicate 16 (Run T_Watchdog)) s2 \<and> th_watchdog (io_base s2) = Wa_Delay"
  unfolding io_run_exec
  by (simp add: io_init_def io_exec_defs task_watchdog_main_def stale_1001 eval_nat_numeral)

theorem watchdog_catches_stalled_task_witness:
  "\<exists>ls s. io_run round_f64 (io_init round_f64 None True) ls s \<and> fm_state (fault_mgr (th_ctx (io_base s))) = BMS_STATE_SHUTDOWN"
proof -
  let ?ws = "replicate 5 (Run T_Main) @ Elapse 1001 # replicate 9 (Run T_Watchdog)"
  let ?ls = "Elapse 7 # replicate 16 (Run T_Watchdog)"
  obtain s1 s2 where s: "io_run round_f64 (io_init round_f64 None True) ?ws s1" "th_watchdog (io_base s1) = Wa_Lock 1001"
    "heartbeat_of T_Soc (th_ctx (io_base s1)) = 0" "io_run round_f64 s1 ?ls s2" "th_watchdog (io_base s2) = Wa_Delay"
    using stalled_round by blast
  have "fm_state (fault_mgr (th_ctx (io_base s2))) = BMS_STATE_SHUTDOWN"
    using s(3) by (intro watchdog_catches_stalled_task [OF s(1,2) _ _ s(4) _ s(5) io_run.io_nil, where t = T_Soc])
      (simp_all add: WATCHDOG_STALE_MS_def)
  then show ?thesis using io_run_append [OF s(4,1)] by blast
qed

text \<open>
  C26. What the watchdog cannot catch: a thread that hangs while it owns the mutex of the context. From every
  reachable state in which a thread is in its section, in every continuation in which that thread executes
  nothing, the whole shared context stays as it is, heartbeats, fault manager and state machine included, the
  mutex stays taken and \<open>main\<close> does not return. So the watchdog, which needs the mutex to read the
  heartbeats and again to report, never reports, however much time passes.
\<close>

theorem hung_section_freezes_program:
  assumes "io_run rnd (io_init rnd arg True) ls s" and "in_section (io_base s) t"
    and "io_run rnd s ls' s'" and "Run t \<notin> set ls'"
  shows "th_ctx (io_base s') = th_ctx (io_base s) \<and> th_lock (io_base s') = Mx_Held t \<and> \<not> io_finished s' T_Main"
proof -
  have ok: "io_ok s" "io_ok s'" using io_reachable(1) [OF assms(1)] io_run_ok [OF assms(3)] by simp_all
  have hung: "in_section (io_base s') t \<and> th_ctx (io_base s') = th_ctx (io_base s)" by (rule hung_run [OF assms(3) ok(1) assms(2,4)])
  have inv: "thread_ok (io_base s')" using ok(2) control_okD(1) by (simp add: io_ok_def)
  have lock: "th_lock (io_base s') = Mx_Held t" using hung section_owner [OF inv, of t] by simp
  then have "th_main (io_base s') \<noteq> Ma_Exit" using inv by (auto simp: thread_ok_def)
  with lock show ?thesis using hung by (simp add: io_finished_def task_exited_def)
qed

theorem hung_section_freezes_program_witness:
  "\<exists>s s'. io_run round_f64 (io_init round_f64 None True) contended_labels s \<and> io_run round_f64 s [Elapse 5000] s' \<and>
    th_tick (io_base s') = th_tick (io_base s) + 5000 \<and> th_ctx (io_base s') = th_ctx (io_base s) \<and>
    th_lock (io_base s') = Mx_Held T_Sensor"
proof -
  obtain s where s: "io_run round_f64 (io_init round_f64 None True) contended_labels s" "in_section (io_base s) T_Sensor"
    using contended by blast
  define s' where "s' = s\<lparr>io_base := (io_base s)\<lparr>th_tick := th_tick (io_base s) + 5000\<rparr>\<rparr>"
  have "io_do round_f64 (Elapse 5000) s = Returns s'" by (simp add: s'_def)
  from io_run.io_snoc [OF io_run.io_nil this] have run: "io_run round_f64 s [Elapse 5000] s'" by simp
  have "Run T_Sensor \<notin> set [Elapse 5000]" by simp
  note frozen = hung_section_freezes_program [OF s run this]
  have "th_tick (io_base s') = th_tick (io_base s) + 5000" by (simp add: s'_def)
  then show ?thesis
    by (intro exI [of _ s] exI [of _ s'] conjI s(1) run frozen [THEN conjunct1] frozen [THEN conjunct2, THEN conjunct1])
qed

end
