(* ===== verification/Availability.thy ===== *)
theory Availability
  imports Bms_System Scenario_Faults
begin

text \<open>
  The simulated pack through the whole system, in the scenarios that are not dangerous: which state and
  which fault mask the fault manager ends up with, in any interleaving of the tasks.
\<close>

section \<open>Readings of a scenario\<close>

definition mild_scenario :: "cell_scenario_t \<Rightarrow> bool" where
  "mild_scenario sc \<longleftrightarrow> sc = SCENARIO_NOMINAL \<or> sc = SCENARIO_UNDERVOLTAGE \<or> sc = SCENARIO_CELL_IMBALANCE"

lemma mild_severity: "mild_scenario sc \<Longrightarrow> fault_manager_get_severity (scenario_mask sc) \<noteq> BMS_ASIL_D"
  by (auto simp: mild_scenario_def scenario_mask_def fault_manager_get_severity_def FAULT_SEVERITIES_def config_defs)

definition calm_reading :: "cell_reading_t \<Rightarrow> bool" where
  "calm_reading r \<longleftrightarrow> hard_fault_mask r = 0 \<and> \<not> warning_zone r"

lemma seed_calm: "calm_reading seed_reading"
  by (simp add: calm_reading_def seed_reading_def hard_fault_mask_def warning_zone_def scenario_preds nth_append all_less_5)

lemma nominal_calm:
  assumes "cell_model_ok m" and "drift_of (g_elapsed_ms m + dt) \<le> 600" and "g_scenario m = SCENARIO_NOMINAL"
  shows "calm_reading (step_reading dt m)"
proof -
  obtain d where d: "drift_of (g_elapsed_ms m + dt) = d" "0 \<le> d" "d \<le> 600"
    using assms(2) drift_of_nonneg by blast
  note cells = step_cells [OF assms(1) d(1,3)]
  have "hard_fault_mask (step_reading dt m) = 0"
    using scenario_hard_faults [OF assms(1,2)] assms(3) by (simp add: scenario_mask_def)
  moreover have "\<not> warning_zone (step_reading dt m)"
    using d(2,3) by (simp add: warning_zone_def cells scenario_preds assms(3))
  ultimately show ?thesis by (simp add: calm_reading_def)
qed

section \<open>The invariant\<close>

text \<open>
  Until the first faulty reading is evaluated the machine is in NORMAL and has not recorded an entry;
  from then on it is in FAULT with exactly one entry, because the reading keeps the fault.
\<close>

definition mild_reading :: "cell_scenario_t \<Rightarrow> cell_reading_t \<Rightarrow> bool" where
  "mild_reading sc r \<longleftrightarrow> calm_reading r \<or> scenario_mask sc \<noteq> 0 \<and> hard_fault_mask r = scenario_mask sc"

definition unfaulted :: "fault_manager_t \<Rightarrow> bool" where
  "unfaulted fm \<longleftrightarrow> fm_state fm = BMS_STATE_NORMAL \<and> fault_entry_count fm = 0 \<and> active_faults fm = 0"

definition faulted_once :: "cell_scenario_t \<Rightarrow> fault_manager_t \<Rightarrow> bool" where
  "faulted_once sc fm \<longleftrightarrow>
     fm_state fm = BMS_STATE_FAULT \<and> fault_entry_count fm = 1 \<and> active_faults fm = scenario_mask sc"

definition mild_ok :: "cell_scenario_t \<Rightarrow> bms_system \<Rightarrow> bool" where
  "mild_ok sc s \<longleftrightarrow> sys_ok s \<and> g_scenario (s_cells s) = sc \<and> mild_reading sc (latest_reading (s_ctx s)) \<and>
     (unfaulted (sys_fault s) \<or> faulted_once sc (sys_fault s) \<and> \<not> calm_reading (latest_reading (s_ctx s)))"

lemma mild_step_reading:
  assumes "cell_model_ok m" and "drift_of (g_elapsed_ms m + dt) \<le> 600" and "mild_scenario (g_scenario m)"
  shows "mild_reading (g_scenario m) (step_reading dt m)"
    and "scenario_mask (g_scenario m) \<noteq> 0 \<Longrightarrow> \<not> calm_reading (step_reading dt m)"
proof -
  show "mild_reading (g_scenario m) (step_reading dt m)"
  proof (cases "g_scenario m = SCENARIO_NOMINAL")
    case True
    then show ?thesis using nominal_calm [OF assms(1,2)] by (simp add: mild_reading_def)
  next
    case False
    then have "scenario_mask (g_scenario m) \<noteq> 0"
      using assms(3) by (auto simp: mild_scenario_def scenario_mask_def config_defs)
    then show ?thesis using scenario_hard_faults [OF assms(1,2)] by (simp add: mild_reading_def)
  qed
  show "scenario_mask (g_scenario m) \<noteq> 0 \<Longrightarrow> \<not> calm_reading (step_reading dt m)"
    using scenario_hard_faults [OF assms(1,2)] by (simp add: calm_reading_def)
qed

lemma evaluate_calm:
  assumes "fm_ok fm" and "unfaulted fm" and "calm_reading r"
  shows "unfaulted (fault_manager_evaluate fm r t)"
  using assms evaluate_clear [OF assms(1), of r t] by (simp add: unfaulted_def calm_reading_def Let_def)

lemma evaluate_mild:
  assumes ok: "fm_ok fm" and fm: "unfaulted fm \<or> faulted_once sc fm" and sc: "mild_scenario sc" "scenario_mask sc \<noteq> 0"
    and r: "hard_fault_mask r = scenario_mask sc"
  shows "faulted_once sc (fault_manager_evaluate fm r t)"
proof -
  have state: "fm_state fm \<noteq> BMS_STATE_SHUTDOWN" using fm by (auto simp: unfaulted_def faulted_once_def)
  have count: "fault_entry_count (enter_fault fm (scenario_mask sc) t) = 1"
    using fm by (auto simp: unfaulted_def faulted_once_def enter_fault_def Let_def record_fault_entry_def FAULT_LATCH_COUNT_def)
  then have "\<not> latch_should_trip (enter_fault fm (scenario_mask sc) t) t"
    by (simp add: latch_should_trip_def FAULT_LATCH_COUNT_def)
  then show ?thesis
    using evaluate_faulty [OF ok state, of r t] sc r count mild_severity [OF sc(1)]
    by (simp add: faulted_once_def Let_def)
qed

lemma sys_do_cells:
  assumes "sys_do rnd l s = Some s'"
  shows "s_cells s' = (if l = Sensor_Cycle then fst (cell_model_step TASK_PERIOD_SENSOR_MS (s_cells s)) else s_cells s)"
    and "l \<noteq> Fault_Cycle \<Longrightarrow> l \<noteq> Watchdog_Report \<Longrightarrow> sys_fault s' = sys_fault s"
  using assms
  by (cases l; auto simp: case_prod_unfold Let_def task_soc_cycle_def split: if_splits option.splits watchdog_pc.splits)+

lemma mild_ok_do:
  assumes sc: "mild_scenario sc" and ok: "mild_ok sc s" and step: "sys_do round_f64 l s = Some s'"
    and quiet: "l \<noteq> Watchdog_Report"
    and drift: "l = Sensor_Cycle \<longrightarrow> drift_of (g_elapsed_ms (s_cells s) + TASK_PERIOD_SENSOR_MS) \<le> 600"
  shows "mild_ok sc s'" and "l = Sensor_Cycle \<Longrightarrow> scenario_mask sc \<noteq> 0 \<Longrightarrow> \<not> calm_reading (latest_reading (s_ctx s'))"
    and "l = Fault_Cycle \<Longrightarrow> \<not> calm_reading (latest_reading (s_ctx s)) \<Longrightarrow> faulted_once sc (sys_fault s')"
proof -
  have sys: "sys_ok s" "sys_ok s'" using ok sys_do_ok [OF _ step] by (simp_all add: mild_ok_def)
  have scen: "g_scenario (s_cells s) = sc" "g_scenario (s_cells s') = sc"
    using ok sys_do_reading(1) [OF step] by (simp_all add: mild_ok_def)
  note read = sys_do_reading(2) [OF step] and fault = sys_do_cells(2) [OF step]
  have new: "mild_reading sc (latest_reading (s_ctx s'))" "scenario_mask sc \<noteq> 0 \<Longrightarrow> \<not> calm_reading (latest_reading (s_ctx s'))"
    if "l = Sensor_Cycle"
    using mild_step_reading [of "s_cells s" TASK_PERIOD_SENSOR_MS] that drift sys(1) sc scen(1) read
    by (simp_all add: sys_ok_def step_reading_def)
  then show "l = Sensor_Cycle \<Longrightarrow> scenario_mask sc \<noteq> 0 \<Longrightarrow> \<not> calm_reading (latest_reading (s_ctx s'))" by blast
  have eval: "sys_fault s' = fault_manager_evaluate (sys_fault s) (latest_reading (s_ctx s)) (the (s_fault_now s))"
    if "l = Fault_Cycle" using step that by (auto simp: case_prod_unfold Let_def split: option.splits)
  have fm: "fm_ok (sys_fault s)" using sys(1) by (simp add: sys_ok_def app_ok_def)
  have mask: "scenario_mask sc \<noteq> 0 \<and> hard_fault_mask (latest_reading (s_ctx s)) = scenario_mask sc"
    if "\<not> calm_reading (latest_reading (s_ctx s))" using ok that by (auto simp: mild_ok_def mild_reading_def)
  show faulted: "faulted_once sc (sys_fault s')" if "l = Fault_Cycle" "\<not> calm_reading (latest_reading (s_ctx s))"
    using evaluate_mild [OF fm _ sc] ok mask [OF that(2)] eval [OF that(1)] by (auto simp: mild_ok_def)
  show "mild_ok sc s'"
  proof (cases "l = Fault_Cycle")
    case True
    then have same: "latest_reading (s_ctx s') = latest_reading (s_ctx s)" using read by simp
    show ?thesis
    proof (cases "calm_reading (latest_reading (s_ctx s))")
      case calm: True
      then have "unfaulted (sys_fault s')" using evaluate_calm [OF fm] ok eval [OF True] by (auto simp: mild_ok_def)
      then show ?thesis using ok sys(2) scen(2) same by (simp add: mild_ok_def)
    next
      case False
      then show ?thesis using faulted [OF True] ok sys(2) scen(2) same by (simp add: mild_ok_def)
    qed
  next
    case False
    then have "sys_fault s' = sys_fault s" using fault quiet by blast
    then show ?thesis
    proof (cases "l = Sensor_Cycle")
      case True
      then show ?thesis using ok sys(2) scen(2) new [OF True] mask \<open>sys_fault s' = sys_fault s\<close>
        by (auto simp: mild_ok_def)
    next
      case False
      then show ?thesis using ok sys(2) scen(2) read \<open>sys_fault s' = sys_fault s\<close> by (simp add: mild_ok_def)
    qed
  qed
qed

text \<open>Ten minutes of simulated time are less than 6000 steps of the sensor task.\<close>

definition elapsed :: "bms_system \<Rightarrow> int" where
  "elapsed s = uint (g_elapsed_ms (s_cells s))"

lemma elapsed_do:
  assumes "sys_do rnd l s = Some s'" and "elapsed s + 100 * int (count_list (l # ls) Sensor_Cycle) < 600000"
  shows "elapsed s' = elapsed s + (if l = Sensor_Cycle then 100 else 0)"
    and "l = Sensor_Cycle \<longrightarrow> drift_of (g_elapsed_ms (s_cells s) + TASK_PERIOD_SENSOR_MS) \<le> 600"
proof -
  have sum: "uint (g_elapsed_ms (s_cells s) + TASK_PERIOD_SENSOR_MS) = elapsed s + 100" "elapsed s + 100 < 600000" "0 \<le> elapsed s"
    if "l = Sensor_Cycle"
    using assms(2) that by (simp_all add: elapsed_def uint_word_ariths TASK_PERIOD_SENSOR_MS_def)
  then show "elapsed s' = elapsed s + (if l = Sensor_Cycle then 100 else 0)"
    using sys_do_cells(1) [OF assms(1)] by (simp add: elapsed_def cell_model_step_def Let_def)
  show "l = Sensor_Cycle \<longrightarrow> drift_of (g_elapsed_ms (s_cells s) + TASK_PERIOD_SENSOR_MS) \<le> 600"
  proof
    assume that: "l = Sensor_Cycle"
    have "(elapsed s + 100) div 1000 \<le> 600" "0 \<le> (elapsed s + 100) div 1000" using sum [OF that] by auto
    then show "drift_of (g_elapsed_ms (s_cells s) + TASK_PERIOD_SENSOR_MS) \<le> 600" using sum(1) [OF that] by (simp add: drift_of_def)
  qed
qed

definition mild_budget :: "bms_system \<Rightarrow> sys_label list \<Rightarrow> bool" where
  "mild_budget s ls \<longleftrightarrow> elapsed s + 100 * int (count_list ls Sensor_Cycle) < 600000 \<and> Watchdog_Report \<notin> set ls"

lemma mild_budget_append:
  assumes "sys_run rnd s xs s'" and "mild_budget s (xs @ ys)"
  shows "mild_budget s' ys" and "mild_budget s xs"
proof -
  show "mild_budget s xs" using assms(2) by (simp add: mild_budget_def)
  show "mild_budget s' ys"
    using assms
  proof (induction rule: sys_run.induct)
    case (run_cons l s s1 ls s2)
    have "elapsed s1 = elapsed s + (if l = Sensor_Cycle then 100 else 0)"
      using elapsed_do(1) [OF run_cons.hyps(1), of "ls @ ys"] run_cons.prems by (simp add: mild_budget_def)
    then have "mild_budget s1 (ls @ ys)" using run_cons.prems by (auto simp: mild_budget_def split: if_splits)
    then show ?case by (rule run_cons.IH)
  qed simp
qed

text \<open>What every step keeps, a run within the ten minutes keeps.\<close>

lemma mild_run:
  assumes "sys_run round_f64 s ls s'" and "mild_scenario sc" and "mild_ok sc s" and "mild_budget s ls"
  shows "mild_ok sc s'" and "\<not> calm_reading (latest_reading (s_ctx s)) \<Longrightarrow> \<not> calm_reading (latest_reading (s_ctx s'))"
    and "faulted_once sc (sys_fault s) \<Longrightarrow> faulted_once sc (sys_fault s')"
proof -
  have "mild_ok sc s' \<and> (\<not> calm_reading (latest_reading (s_ctx s)) \<longrightarrow> \<not> calm_reading (latest_reading (s_ctx s'))) \<and>
      (faulted_once sc (sys_fault s) \<longrightarrow> faulted_once sc (sys_fault s'))"
    using assms(1,3,4)
  proof (induction rule: sys_run.induct)
    case (run_cons l s s1 ls s2)
    have b: "elapsed s + 100 * int (count_list (l # ls) Sensor_Cycle) < 600000" "l \<noteq> Watchdog_Report"
      using run_cons.prems(2) by (auto simp: mild_budget_def)
    note step = mild_ok_do [OF assms(2) run_cons.prems(1) run_cons.hyps(1) b(2) elapsed_do(2) [OF run_cons.hyps(1) b(1)]]
    have "mild_budget s1 ls" using mild_budget_append(1) [of round_f64 s "[l]" s1 ls] run_cons by (simp add: sys_run_Cons)
    note IH = run_cons.IH [OF step(1) this]
    have nc: "scenario_mask sc \<noteq> 0" if "\<not> calm_reading (latest_reading (s_ctx s))"
      using that run_cons.prems(1) by (auto simp: mild_ok_def mild_reading_def)
    have "\<not> calm_reading (latest_reading (s_ctx s1))" if "\<not> calm_reading (latest_reading (s_ctx s))"
      using step(2) nc that sys_do_reading(2) [OF run_cons.hyps(1)] by (cases "l = Sensor_Cycle") auto
    moreover have "faulted_once sc (sys_fault s1)" if f: "faulted_once sc (sys_fault s)"
    proof (cases "l = Fault_Cycle")
      case True
      have "\<not> calm_reading (latest_reading (s_ctx s))"
        using f run_cons.prems(1) by (auto simp: mild_ok_def unfaulted_def faulted_once_def)
      with True show ?thesis by (rule step(3))
    next
      case False
      then show ?thesis using sys_do_cells(2) [OF run_cons.hyps(1)] b(2) f by simp
    qed
    ultimately show ?case using IH by blast
  qed simp
  then show "mild_ok sc s'" "\<not> calm_reading (latest_reading (s_ctx s)) \<Longrightarrow> \<not> calm_reading (latest_reading (s_ctx s'))"
    "faulted_once sc (sys_fault s) \<Longrightarrow> faulted_once sc (sys_fault s')" by blast+
qed

lemma sys_init_mild:
  assumes "mild_scenario (parse_scenario arg)"
  shows "mild_ok (parse_scenario arg) (sys_init round_f64 arg)"
    and "mild_budget (sys_init round_f64 arg) ls \<longleftrightarrow> count_list ls Sensor_Cycle < 6000 \<and> Watchdog_Report \<notin> set ls"
proof -
  have init: "latest_reading (s_ctx (sys_init round_f64 arg)) = seed_reading" "unfaulted (sys_fault (sys_init round_f64 arg))"
    "g_scenario (s_cells (sys_init round_f64 arg)) = parse_scenario arg" "elapsed (sys_init round_f64 arg) = 0"
    by (simp_all add: sys_init_def app_context_init_def unfaulted_def fault_manager_init_def elapsed_def
        cell_model_set_scenario_def cell_model_init_def)
  then show "mild_ok (parse_scenario arg) (sys_init round_f64 arg)"
    using seed_calm by (simp add: mild_ok_def mild_reading_def)
  show "mild_budget (sys_init round_f64 arg) ls \<longleftrightarrow> count_list ls Sensor_Cycle < 6000 \<and> Watchdog_Report \<notin> set ls"
    using init(4) by (auto simp: mild_budget_def)
qed

section \<open>Properties\<close>

text \<open>
  A healthy pack is never cut off: in the nominal scenario, for the first ten minutes of sensor
  readings and as long as the watchdog reports nothing, the machine stays in NORMAL without any active
  fault, in every interleaving of the tasks.
\<close>

lemma healthy_pack_stays_available:
  assumes "sys_run round_f64 (sys_init round_f64 arg) ls s" and "parse_scenario arg = SCENARIO_NOMINAL"
    and "count_list ls Sensor_Cycle < 6000" and "Watchdog_Report \<notin> set ls"
  shows "fm_state (fault_mgr (s_ctx s)) = BMS_STATE_NORMAL \<and> active_faults (fault_mgr (s_ctx s)) = 0"
proof -
  have sc: "mild_scenario (parse_scenario arg)" using assms(2) by (simp add: mild_scenario_def)
  have "mild_ok (parse_scenario arg) s"
    using mild_run(1) [OF assms(1) sc] sys_init_mild [OF sc] assms(3,4) by blast
  then show ?thesis using assms(2)
    by (auto simp: mild_ok_def mild_reading_def scenario_mask_def unfaulted_def)
qed

text \<open>
  C29. A pack with a fault below the highest severity is diagnosed and not cut off by the fault task: in the
  undervoltage and imbalance scenarios, in every interleaving without a report of the watchdog in which the sensor
  task completes a cycle and the fault task one afterwards, within the first ten minutes of readings, the machine is
  in FAULT with exactly the faults of the scenario and has recorded one entry, so the three-strikes rule does
  not trip. A report of the watchdog, for a late task or by the race at its tick, is excluded, since it ends in
  SHUTDOWN.
\<close>

theorem mild_faults_are_diagnosed:
  assumes "sys_run round_f64 (sys_init round_f64 (Some arg)) (xs @ Sensor_Cycle # ys @ Fault_Cycle # zs) s"
    and "arg = ''undervoltage'' \<or> arg = ''imbalance''"
    and "count_list (xs @ Sensor_Cycle # ys @ Fault_Cycle # zs) Sensor_Cycle < 6000"
    and "Watchdog_Report \<notin> set (xs @ ys @ zs)"
  shows "fm_state (fault_mgr (s_ctx s)) = BMS_STATE_FAULT \<and> fault_entry_count (fault_mgr (s_ctx s)) = 1 \<and>
    active_faults (fault_mgr (s_ctx s)) =
      (if arg = ''imbalance'' then FAULT_BIT_CELL_IMBALANCE else FAULT_BIT_UNDERVOLTAGE OR FAULT_BIT_CELL_IMBALANCE)"
proof -
  let ?s0 = "sys_init round_f64 (Some arg)" and ?sc = "parse_scenario (Some arg)"
  let ?ls = "xs @ Sensor_Cycle # ys @ Fault_Cycle # zs"
  have sc: "mild_scenario ?sc" and mask: "scenario_mask ?sc \<noteq> 0" "scenario_mask ?sc =
      (if arg = ''imbalance'' then FAULT_BIT_CELL_IMBALANCE else FAULT_BIT_UNDERVOLTAGE OR FAULT_BIT_CELL_IMBALANCE)"
    using assms(2) by (auto simp: parse_scenario_def mild_scenario_def scenario_mask_def config_defs)
  obtain s1 s2 s3 s4 where
    r: "sys_run round_f64 ?s0 xs s1" "sys_do round_f64 Sensor_Cycle s1 = Some s2"
       "sys_run round_f64 s2 ys s3" "sys_do round_f64 Fault_Cycle s3 = Some s4" "sys_run round_f64 s4 zs s"
    using assms(1) by (auto simp: sys_run_Cons sys_run_append)
  have r': "sys_run round_f64 s1 [Sensor_Cycle] s2" "sys_run round_f64 s3 [Fault_Cycle] s4" using r(2,4) by (simp_all add: sys_run_Cons)
  have b0: "mild_budget ?s0 ?ls" using sys_init_mild(2) [OF sc] assms(3,4) by auto
  note b1 = mild_budget_append [OF r(1) b0]
  have b1': "mild_budget s1 ([Sensor_Cycle] @ ys @ Fault_Cycle # zs)" using b1(1) by simp
  note b2 = mild_budget_append [OF r'(1) b1']
  note b3 = mild_budget_append [OF r(3) b2(1)]
  have b3': "mild_budget s3 ([Fault_Cycle] @ zs)" using b3(1) by simp
  note b4 = mild_budget_append [OF r'(2) b3']
  have m1: "mild_ok ?sc s1" using mild_run(1) [OF r(1) sc sys_init_mild(1) [OF sc] b1(2)] .
  have drift: "drift_of (g_elapsed_ms (s_cells s1) + TASK_PERIOD_SENSOR_MS) \<le> 600"
    using elapsed_do(2) [OF r(2), of "[]"] b2(2) by (simp add: mild_budget_def)
  have m2: "mild_ok ?sc s2" "\<not> calm_reading (latest_reading (s_ctx s2))"
    using mild_ok_do(1,2) [OF sc m1 r(2)] drift mask(1) by simp_all
  have m3: "mild_ok ?sc s3" "\<not> calm_reading (latest_reading (s_ctx s3))"
    using mild_run(1,2) [OF r(3) sc m2(1) b3(2)] m2(2) by simp_all
  have m4: "mild_ok ?sc s4" "faulted_once ?sc (sys_fault s4)"
    using mild_ok_do(1,3) [OF sc m3(1) r(4)] m3(2) by simp_all
  have "faulted_once ?sc (sys_fault s)" using mild_run(3) [OF r(5) sc m4(1) b4(1) m4(2)] .
  then show ?thesis unfolding mask(2) [symmetric] faulted_once_def by blast
qed

theorem mild_faults_are_diagnosed_witness:
  "\<exists>s. sys_run round_f64 (sys_init round_f64 (Some ''imbalance''))
      [Fault_Read_Tick, Sensor_Cycle, Time 7, Fault_Cycle, Can_Cycle] s \<and>
    fm_state (fault_mgr (s_ctx s)) = BMS_STATE_FAULT \<and> active_faults (fault_mgr (s_ctx s)) = 8"
proof -
  obtain s where s: "sys_run round_f64 (sys_init round_f64 (Some ''imbalance''))
      [Fault_Read_Tick, Sensor_Cycle, Time 7, Fault_Cycle, Can_Cycle] s"
    by (auto simp: sys_run_Cons case_prod_unfold Let_def sys_init_def)
  with mild_faults_are_diagnosed [of "''imbalance''" "[Fault_Read_Tick]" "[Time 7]" "[Can_Cycle]" s]
  show ?thesis by (auto simp: FAULT_BIT_CELL_IMBALANCE_def)
qed

end
