(* ===== verification/Schedule.thy ===== *)
theory Schedule
  imports Availability
begin

text \<open>
  Schedules: what the order of the steps and the time between them must satisfy for the watchdog to stay
  silent. The age of a heartbeat is computed from the labels of a run alone; a run is on time when no
  heartbeat ever gets older than the watchdog's limit, and prompt when the watchdog takes the lock in the
  millisecond in which it has read the tick. The second condition is needed: without it the watchdog can
  shut down a system whose heartbeats are all recent.
\<close>

section \<open>Ages of the heartbeats\<close>

text \<open>The fault task stamps the tick it has read before its cycle, so that moment has an age of its own.\<close>

record ages =
  ag_sensor :: nat
  ag_soc :: nat
  ag_fault :: nat
  ag_read :: nat

definition no_ages :: ages where
  "no_ages = \<lparr>ag_sensor = 0, ag_soc = 0, ag_fault = 0, ag_read = 0\<rparr>"

fun age_step :: "sys_label \<Rightarrow> ages \<Rightarrow> ages" where
  "age_step (Time d) a =
     \<lparr>ag_sensor = ag_sensor a + unat d, ag_soc = ag_soc a + unat d, ag_fault = ag_fault a + unat d,
      ag_read = ag_read a + unat d\<rparr>"
| "age_step Sensor_Cycle a = a\<lparr>ag_sensor := 0\<rparr>"
| "age_step Soc_Cycle a = a\<lparr>ag_soc := 0\<rparr>"
| "age_step Fault_Read_Tick a = a\<lparr>ag_read := 0\<rparr>"
| "age_step Fault_Cycle a = a\<lparr>ag_fault := ag_read a\<rparr>"
| "age_step _ a = a"

fun on_time :: "ages \<Rightarrow> sys_label list \<Rightarrow> bool" where
  "on_time a [] \<longleftrightarrow> True"
| "on_time a (l # ls) \<longleftrightarrow>
     (let a' = age_step l a in ag_sensor a' \<le> 1000 \<and> ag_soc a' \<le> 1000 \<and> ag_fault a' \<le> 1000 \<and> on_time a' ls)"

text \<open>No time passes while the watchdog is between reading the tick and its check.\<close>

fun prompt :: "bool \<Rightarrow> sys_label list \<Rightarrow> bool" where
  "prompt reading [] \<longleftrightarrow> True"
| "prompt reading (Time d # ls) \<longleftrightarrow> (reading \<longrightarrow> d = 0) \<and> prompt reading ls"
| "prompt reading (Watchdog_Read_Tick # ls) \<longleftrightarrow> prompt True ls"
| "prompt reading (Watchdog_Check # ls) \<longleftrightarrow> prompt False ls"
| "prompt reading (_ # ls) \<longleftrightarrow> prompt reading ls"

section \<open>The invariant\<close>

text \<open>
  The ages are the differences of ticks the watchdog computes, and a tick it has read is the current one.
\<close>

definition ages_ok :: "ages \<Rightarrow> bool \<Rightarrow> bms_system \<Rightarrow> bool" where
  "ages_ok a reading s \<longleftrightarrow>
     ag_sensor a \<le> 1000 \<and> ag_soc a \<le> 1000 \<and> ag_fault a \<le> 1000 \<and>
     s_tick s - hb_sensor_ms (s_ctx s) = of_nat (ag_sensor a) \<and> s_tick s - hb_soc_ms (s_ctx s) = of_nat (ag_soc a) \<and>
     s_tick s - hb_fault_ms (s_ctx s) = of_nat (ag_fault a) \<and>
     (\<forall>now. s_fault_now s = Some now \<longrightarrow> s_tick s - now = of_nat (ag_read a)) \<and>
     (case s_watchdog s of
        Wd_Asleep \<Rightarrow> \<not> reading | Wd_Tick_Read now \<Rightarrow> reading \<and> now = s_tick s | Wd_Found_Stale now \<Rightarrow> False)"

lemma recent_not_stale:
  assumes "ages_ok a reading s"
  shows "\<not> watchdog_stale (s_tick s) (s_ctx s)"
proof -
  have "\<not> (of_nat n :: u32) > 1000" if "n \<le> 1000" for n
    using that by (simp add: word_less_nat_alt unat_of_nat not_less)
  then show ?thesis using assms by (simp add: ages_ok_def watchdog_stale_def WATCHDOG_STALE_MS_def)
qed

fun reading_after :: "bool \<Rightarrow> sys_label \<Rightarrow> bool" where
  "reading_after reading Watchdog_Read_Tick = True" | "reading_after reading Watchdog_Check = False"
| "reading_after reading _ = reading"

lemma prompt_Cons: "prompt reading (l # ls) \<longleftrightarrow> (\<forall>d. l = Time d \<and> reading \<longrightarrow> d = 0) \<and> prompt (reading_after reading l) ls"
  by (cases l) auto

lemma ages_ok_do:
  assumes ok: "ages_ok a reading s" and step: "sys_do rnd l s = Some s'"
    and late: "ag_sensor (age_step l a) \<le> 1000" "ag_soc (age_step l a) \<le> 1000" "ag_fault (age_step l a) \<le> 1000"
    and calm: "\<forall>d. l = Time d \<and> reading \<longrightarrow> d = 0"
  shows "ages_ok (age_step l a) (reading_after reading l) s'" and "l \<noteq> Watchdog_Report"
proof -
  show "l \<noteq> Watchdog_Report" using ok step by (auto simp: ages_ok_def split: watchdog_pc.splits)
  show "ages_ok (age_step l a) (reading_after reading l) s'"
  proof (cases l)
    case (Time d)
    have add: "s_tick s + d - h = of_nat (n + unat d)" if "s_tick s - h = of_nat n" for h n
      using that by (simp add: algebra_simps)
    have "s_watchdog s = Wd_Tick_Read now \<Longrightarrow> d = 0" for now using ok calm Time by (auto simp: ages_ok_def)
    then show ?thesis using ok step late add by (auto simp: ages_ok_def Time split: watchdog_pc.splits)
  next
    case Soc_Cycle
    then obtain ctx where ctx: "task_soc_cycle rnd (s_tick s) (s_ctx s) = Some ctx" "s' = s\<lparr>s_ctx := ctx\<rparr>" using step by auto
    have "hb_soc_ms ctx = s_tick s" "hb_sensor_ms ctx = hb_sensor_ms (s_ctx s)" "hb_fault_ms ctx = hb_fault_ms (s_ctx s)"
      using soc_cycle_frame [OF ctx(1)] by simp_all
    then show ?thesis using ok by (simp add: ages_ok_def Soc_Cycle ctx(2) split: watchdog_pc.splits)
  next
    case Watchdog_Check
    then show ?thesis using ok step recent_not_stale [OF ok]
      by (auto simp: ages_ok_def split: watchdog_pc.splits)
  next
    case Fault_Cycle
    then show ?thesis using ok step late by (auto simp: ages_ok_def case_prod_unfold Let_def split: option.splits watchdog_pc.splits)
  qed (use ok step late in \<open>auto simp: ages_ok_def case_prod_unfold Let_def split: if_splits watchdog_pc.splits\<close>)
qed

lemma ages_run:
  assumes "sys_run rnd s ls s'" and "ages_ok a reading s" and "on_time a ls" and "prompt reading ls"
  shows "Watchdog_Report \<notin> set ls \<and> (\<exists>a' reading'. ages_ok a' reading' s')"
  using assms
proof (induction arbitrary: a reading rule: sys_run.induct)
  case (run_cons l s s1 ls s2)
  have late: "ag_sensor (age_step l a) \<le> 1000" "ag_soc (age_step l a) \<le> 1000" "ag_fault (age_step l a) \<le> 1000"
    "on_time (age_step l a) ls" using run_cons.prems(2) by (simp_all add: Let_def)
  note p = run_cons.prems(3) [unfolded prompt_Cons]
  note step = ages_ok_do [OF run_cons.prems(1) run_cons.hyps(1) late(1-3) p [THEN conjunct1]]
  show ?case using run_cons.IH [OF step(1) late(4) p [THEN conjunct2]] step(2) by auto
qed auto

lemma sys_init_ages: "ages_ok no_ages False (sys_init rnd arg)"
  by (simp add: ages_ok_def no_ages_def sys_init_def app_context_init_def)

section \<open>Properties\<close>

text \<open>
  C12. The watchdog stays silent as long as the tasks are on time: in every run in which no heartbeat gets
  older than a second, by the times between the steps, and no time passes while the watchdog is between
  reading the tick and its check, the watchdog never finds a stale heartbeat, whatever the interleaving and
  also across the wrap of the 32-bit tick.
\<close>

theorem punctual_tasks_keep_watchdog_silent:
  assumes "sys_run rnd (sys_init rnd arg) ls s" and "on_time no_ages ls" and "prompt False ls"
  shows "Watchdog_Report \<notin> set ls \<and> (\<forall>now. s_watchdog s \<noteq> Wd_Found_Stale now)"
  using ages_run [OF assms(1) sys_init_ages assms(2,3)] by (auto simp: ages_ok_def)

theorem punctual_tasks_keep_watchdog_silent_witness:
  "\<exists>s. sys_run round_f64 (sys_init round_f64 None)
      [Time 400, Sensor_Cycle, Fault_Read_Tick, Time 1, Fault_Cycle, Time 500, Watchdog_Read_Tick, Sensor_Cycle, Watchdog_Check] s \<and>
    (\<forall>now. s_watchdog s \<noteq> Wd_Found_Stale now)"
proof -
  let ?ls = "[Time 400, Sensor_Cycle, Fault_Read_Tick, Time 1, Fault_Cycle, Time 500, Watchdog_Read_Tick, Sensor_Cycle, Watchdog_Check]"
  let ?s0 = "sys_init round_f64 None"
  obtain s where s: "sys_run round_f64 ?s0 ?ls s"
    by (auto simp: sys_run_Cons case_prod_unfold Let_def sys_init_def)
  have "on_time no_ages ?ls" by (simp add: no_ages_def)
  moreover have "prompt False ?ls" by simp
  ultimately show ?thesis using punctual_tasks_keep_watchdog_silent [OF s] s by blast
qed

text \<open>
  C34. A healthy pack is not cut off by a punctual system: in the nominal scenario, for the first ten minutes of
  sensor readings, in every interleaving of the five tasks in which no heartbeat gets older than a second and no
  time passes while the watchdog is between reading the tick and its check, the machine stays in NORMAL
  without any active fault. Without the condition on the watchdog this is false: it then can take a new heartbeat
  for a stale one.
\<close>

theorem healthy_system_stays_available:
  assumes "sys_run round_f64 (sys_init round_f64 arg) ls s" and "parse_scenario arg = SCENARIO_NOMINAL"
    and "count_list ls Sensor_Cycle < 6000" and "on_time no_ages ls" and "prompt False ls"
  shows "fm_state (fault_mgr (s_ctx s)) = BMS_STATE_NORMAL \<and> active_faults (fault_mgr (s_ctx s)) = 0"
  using ages_run [OF assms(1) sys_init_ages assms(4,5)] healthy_pack_stays_available [OF assms(1-3)] by blast

theorem healthy_system_stays_available_witness:
  "\<exists>s. sys_run round_f64 (sys_init round_f64 (Some ''nominal''))
      [Time 400, Sensor_Cycle, Fault_Read_Tick, Time 1, Fault_Cycle, Time 500, Watchdog_Read_Tick, Watchdog_Check] s \<and>
    fm_state (fault_mgr (s_ctx s)) = BMS_STATE_NORMAL"
proof -
  let ?ls = "[Time 400, Sensor_Cycle, Fault_Read_Tick, Time 1, Fault_Cycle, Time 500, Watchdog_Read_Tick, Watchdog_Check]"
  obtain s where s: "sys_run round_f64 (sys_init round_f64 (Some ''nominal'')) ?ls s"
    by (auto simp: sys_run_Cons case_prod_unfold Let_def sys_init_def)
  have "on_time no_ages ?ls" "prompt False ?ls" by (simp_all add: no_ages_def)
  with healthy_system_stays_available [OF s] s show ?thesis by (auto simp: parse_scenario_def)
qed

end
