(* ===== verification/Can_Hal_Socketcan.thy ===== *)
theory Can_Hal_Socketcan
  imports Can_Hal_Virtual Can_Messages
begin

text \<open>
  The Linux back end of the CAN layer, \<open>src/can/can_hal_socketcan.c\<close>. The kernel is outside the
  model: what \<open>socket\<close>, \<open>ioctl\<close>, \<open>bind\<close>, \<open>read\<close> and \<open>write\<close> return are
  arguments. A result of \<open>read\<close> is classified as the code does, by its length: a CAN-FD frame, a
  classic frame, another length, a retryable error or a final one. Both frame types are read into one
  buffer whose payload starts at the same offset, so a classic frame overwrites the first eight payload
  bytes only.
\<close>

section \<open>Frames on the socket\<close>

definition CAN_SFF_MASK :: u32 where [frame_defs]: "CAN_SFF_MASK = 0x7FF"

definition CAN_EFF_FLAG :: u32 where [frame_defs]: "CAN_EFF_FLAG = 0x80000000"

definition CLASSIC_CAN_MAX_LEN :: nat where [config_defs]: "CLASSIC_CAN_MAX_LEN = 8"

datatype sock_frame =
  Fd_Frame u32 u8 "u8 list"
| Classic_Frame u32 u8 "u8 list"

datatype sock_read = Read_Frame sock_frame | Read_Other_Length | Read_Again | Read_Failed

text \<open>The payload bytes of the buffer after a frame was read into it.\<close>

fun raw_after :: "u8 list \<Rightarrow> sock_frame \<Rightarrow> u8 list" where
  "raw_after raw (Fd_Frame _ _ d) = d"
| "raw_after raw (Classic_Frame _ _ d) = d @ drop 8 raw"

fun raw_header :: "sock_frame \<Rightarrow> u32 \<times> u8" where
  "raw_header (Fd_Frame i n _) = (i, n)"
| "raw_header (Classic_Frame i n _) = (i, n)"

text \<open>
  The frame the reader hands to the subscribers: the local variable \<open>frame\<close> is not
  initialised, \<open>junk\<close> are the bytes it happens to hold.
\<close>

definition rx_frame :: "u8 list \<Rightarrow> u8 list \<Rightarrow> sock_frame \<Rightarrow> can_frame_t" where
  "rx_frame junk raw sf =
     (let (i, payload_len) = raw_header sf;
          n = (if unat payload_len > CAN_MAX_DLC then of_nat CAN_MAX_DLC else payload_len)
      in \<lparr>can_id = i AND CAN_SFF_MASK, dlc = n,
          data = take (unat n) (raw_after raw sf) @ drop (unat n) junk\<rparr>)"

section \<open>The receive loop\<close>

text \<open>
  One round of \<open>rx_task_main\<close>: the running flag it tests, what \<open>read\<close> returns, the bytes of
  the uninitialised frame, and the subscribers it copies under the lock.
\<close>

record ('cb, 'ctx) rx_round =
  rx_running :: bool
  rx_read :: sock_read
  rx_junk :: "u8 list"
  rx_subs :: "('cb, 'ctx) subscriber_t list"

text \<open>The loop returns the effect of the callbacks and whether it has ended within these rounds.\<close>

fun rx_task_main ::
  "('cb \<Rightarrow> can_frame_t \<Rightarrow> 'ctx option \<Rightarrow> 'w \<Rightarrow> 'w) \<Rightarrow> u8 list \<Rightarrow> ('cb, 'ctx) rx_round list \<Rightarrow> 'w \<Rightarrow> 'w \<times> bool" where
  "rx_task_main call raw [] w = (w, False)"
| "rx_task_main call raw (r # rs) w =
     (if \<not> rx_running r then (w, True)
      else case rx_read r of
        Read_Again \<Rightarrow> rx_task_main call raw rs w
      | Read_Failed \<Rightarrow> (w, True)
      | Read_Other_Length \<Rightarrow> rx_task_main call raw rs w
      | Read_Frame sf \<Rightarrow>
          let frame = rx_frame (rx_junk r) raw sf;
              w' = foldl (\<lambda>w s. case sub_cb s of None \<Rightarrow> w | Some cb \<Rightarrow> call cb frame (sub_ctx s) w) w (rx_subs r)
          in rx_task_main call (raw_after raw sf) rs w')"

section \<open>Sending\<close>

definition tx_frame :: "can_frame_t \<Rightarrow> sock_frame" where
  "tx_frame f =
     (let n = unat (dlc f)
      in if n \<le> CLASSIC_CAN_MAX_LEN
         then Classic_Frame (can_id f AND CAN_SFF_MASK) (dlc f) (take n (data f) @ replicate (8 - n) 0)
         else Fd_Frame (can_id f AND CAN_SFF_MASK) (dlc f) (take n (data f) @ replicate (64 - n) 0))"

text \<open>
  The result code and the frame passed to \<open>write\<close>, if any; \<open>written\<close> tells whether
  \<open>write\<close> accepted the whole frame.
\<close>

definition socketcan_send :: "int \<Rightarrow> bool \<Rightarrow> can_frame_t option \<Rightarrow> int \<times> sock_frame option" where
  "socketcan_send g_sock written frame =
     (case frame of None \<Rightarrow> (- 1, None)
      | Some f \<Rightarrow>
          if unat (dlc f) > CAN_MAX_DLC \<or> g_sock < 0 then (- 1, None)
          else (if written then 0 else - 1, Some (tx_frame f)))"

section \<open>Opening and closing\<close>

text \<open>
  \<open>sk_open\<close> is the set of descriptors the process holds, so that a leak would show. The reader
  task is its running flag and whether it was created.
\<close>

record ('cb, 'ctx) socketcan_hal =
  sk_sock :: int
  sk_open :: "int set"
  sk_table :: "('cb, 'ctx) virtual_bus"
  sk_rx_task :: bool
  sk_running :: bool

definition socketcan_start :: "('cb, 'ctx) socketcan_hal" where
  "socketcan_start = \<lparr>sk_sock = - 1, sk_open = {}, sk_table = \<lparr>g_subs = replicate MAX_SUBSCRIBERS null_subscriber,
     g_sub_count = 0, g_bus_lock = False\<rparr>, sk_rx_task = False, sk_running = False\<rparr>"

definition sk_close :: "('cb, 'ctx) socketcan_hal \<Rightarrow> ('cb, 'ctx) socketcan_hal" where
  "sk_close h = h\<lparr>sk_open := sk_open h - {sk_sock h}, sk_sock := - 1\<rparr>"

definition socketcan_init ::
  "int \<Rightarrow> bool \<Rightarrow> bool \<Rightarrow> bool \<Rightarrow> bool \<Rightarrow> ('cb, 'ctx) socketcan_hal \<Rightarrow> ('cb, 'ctx) socketcan_hal \<times> int" where
  "socketcan_init fd ioctl_ok bind_ok lock_created task_created h =
     (let h1 = h\<lparr>sk_sock := fd\<rparr>
      in if fd < 0 then (h1, - 1)
         else let h2 = h1\<lparr>sk_open := insert fd (sk_open h1)\<rparr>
              in if \<not> ioctl_ok then (sk_close h2, - 1)
                 else if \<not> bind_ok then (sk_close h2, - 1)
                 else (h2\<lparr>sk_table := fst (can_hal_init lock_created), sk_running := True,
                          sk_rx_task := task_created\<rparr>, 0))"

text \<open>
  The arguments \<open>ioctl_ok\<close> and \<open>bind_ok\<close> come from calls on an interface that the environment
  selects. The value of \<open>BMS_CAN_IFACE\<close> is a C string without its terminator, or absent.
  \<open>ifr_name\<close> is the buffer after \<open>memset\<close> and \<open>strncpy\<close>; the kernel reads it up to
  the first null byte. \<open>IFNAMSIZ\<close> is 16 in \<open>net/if.h\<close>.
\<close>

definition DEFAULT_CAN_IFACE :: string where [config_defs]: "DEFAULT_CAN_IFACE = ''vcan0''"

definition IFNAMSIZ :: nat where [config_defs]: "IFNAMSIZ = 16"

definition RX_POLL_TIMEOUT_MS :: int where [config_defs]: "RX_POLL_TIMEOUT_MS = 200"

definition can_iface :: "string option \<Rightarrow> string" where
  "can_iface env = (case env of None \<Rightarrow> DEFAULT_CAN_IFACE | Some s \<Rightarrow> s)"

definition ifr_name :: "string \<Rightarrow> string" where
  "ifr_name iface = strncpy_to (replicate IFNAMSIZ (CHR 0x00)) iface (IFNAMSIZ - 1)"

text \<open>
  The calls \<open>can_hal_init\<close> makes on the kernel, in order. \<open>index_of\<close> is the answer of
  \<open>ioctl(SIOCGIFINDEX)\<close> to an interface name, \<open>bind_ok\<close> that of \<open>bind\<close> to an index; the
  results of the two \<open>setsockopt\<close> calls are ignored by the code.
\<close>

datatype sock_call =
  Call_Socket
| Call_Enable_Fd int
| Call_Get_Index int string
| Call_Bind int int
| Call_Receive_Timeout int int
| Call_Close int

definition socketcan_open ::
  "int \<Rightarrow> string option \<Rightarrow> (string \<Rightarrow> int option) \<Rightarrow> (int \<Rightarrow> bool) \<Rightarrow> bool \<Rightarrow> bool \<Rightarrow>
   ('cb, 'ctx) socketcan_hal \<Rightarrow> (('cb, 'ctx) socketcan_hal \<times> int) \<times> sock_call list" where
  "socketcan_open fd env index_of bind_ok lock_created task_created h =
     (let name = ifr_name (can_iface env);
          opened = [Call_Socket, Call_Enable_Fd fd, Call_Get_Index fd (c_string name)];
          init = (\<lambda>i b. socketcan_init fd i b lock_created task_created h)
      in if fd < 0 then (init False False, [Call_Socket])
         else case index_of (c_string name) of
           None \<Rightarrow> (init False False, opened @ [Call_Close fd])
         | Some i \<Rightarrow>
             if \<not> bind_ok i then (init True False, opened @ [Call_Bind fd i, Call_Close fd])
             else (init True True,
                   opened @ [Call_Bind fd i, Call_Receive_Timeout fd (RX_POLL_TIMEOUT_MS * 1000)]))"

definition socketcan_subscribe ::
  "('cb, 'ctx) socketcan_hal \<Rightarrow> 'cb option \<Rightarrow> 'ctx option \<Rightarrow> ('cb, 'ctx) socketcan_hal \<times> int" where
  "socketcan_subscribe h cb ctx =
     (if g_sub_count (sk_table h) \<ge> MAX_SUBSCRIBERS then (h, - 1)
      else (h\<lparr>sk_table := subscribe_write (sk_table h) cb ctx\<rparr>, 0))"

text \<open>
  Shutdown in its three stages: stop the flag, join the reader, then close the descriptor and drop the
  table. Joining is recorded by the task being gone.
\<close>

definition shutdown_stop :: "('cb, 'ctx) socketcan_hal \<Rightarrow> ('cb, 'ctx) socketcan_hal" where
  "shutdown_stop h = h\<lparr>sk_running := False\<rparr>"

definition shutdown_join :: "('cb, 'ctx) socketcan_hal \<Rightarrow> ('cb, 'ctx) socketcan_hal" where
  "shutdown_join h = (if sk_rx_task h then h\<lparr>sk_rx_task := False\<rparr> else h)"

definition shutdown_close :: "('cb, 'ctx) socketcan_hal \<Rightarrow> ('cb, 'ctx) socketcan_hal" where
  "shutdown_close h =
     (let h1 = (if sk_sock h \<ge> 0 then sk_close h else h)
      in h1\<lparr>sk_table := (sk_table h1)\<lparr>g_bus_lock := False, g_sub_count := 0\<rparr>\<rparr>)"

definition socketcan_shutdown :: "('cb, 'ctx) socketcan_hal \<Rightarrow> ('cb, 'ctx) socketcan_hal" where
  "socketcan_shutdown h = shutdown_close (shutdown_join (shutdown_stop h))"

section \<open>Lemmas\<close>

lemma sff_mask_small: "i < 0x800 \<Longrightarrow> i AND CAN_SFF_MASK = i" for i :: u32
proof -
  assume i: "i < 0x800"
  have "CAN_SFF_MASK = mask 11" by (simp add: CAN_SFF_MASK_def mask_eq_exp_minus_1)
  then have "i AND CAN_SFF_MASK = take_bit 11 i" by (simp only: take_bit_eq_mask)
  also have "\<dots> = i"
  proof (rule word_uint_eqI)
    have "0 \<le> uint i" "uint i < 2 ^ 11" using i by (simp_all add: word_less_def)
    then show "uint (take_bit 11 i) = uint i" by (simp add: unsigned_take_bit_eq take_bit_int_eq_self)
  qed
  finally show ?thesis .
qed

lemma rx_tx_frame:
  assumes "frame_ok f" and "unat (dlc f) \<le> CAN_MAX_DLC" and "can_id f < 0x800"
  shows "rx_frame junk raw (tx_frame f) = f\<lparr>data := take (unat (dlc f)) (data f) @ drop (unat (dlc f)) junk\<rparr>"
proof -
  have len: "length (data f) = 64" "unat (dlc f) \<le> 64"
    using assms(1,2) by (simp_all add: frame_ok_def CAN_MAX_DLC_def)
  show ?thesis
    using len assms(2) sff_mask_small [OF assms(3)]
    by (cases f) (simp add: rx_frame_def tx_frame_def Let_def)
qed

lemma rx_tx_take:
  "frame_ok f \<Longrightarrow> unat (dlc f) \<le> CAN_MAX_DLC \<Longrightarrow> take (unat (dlc f)) (data f) =
     take (unat (dlc f)) (take (unat (dlc f)) (data f) @ drop (unat (dlc f)) junk)"
  by (simp add: frame_ok_def)

lemma rx_frame_bound: "unat (dlc (rx_frame junk raw sf)) \<le> CAN_MAX_DLC"
  by (simp add: rx_frame_def Let_def case_prod_unfold CAN_MAX_DLC_def)

definition live_round :: "('cb, 'ctx) rx_round \<Rightarrow> bool" where
  "live_round r \<longleftrightarrow> rx_running r \<and> rx_read r \<noteq> Read_Failed"

lemma rx_live_continues:
  "list_all live_round rs \<Longrightarrow> snd (rx_task_main call raw rs w) = False"
  by (induction rs arbitrary: raw w) (auto simp: live_round_def Let_def split: sock_read.splits)

lemma rx_stops_at:
  assumes "list_all live_round rs" and "\<not> live_round r"
  shows "rx_task_main call raw (rs @ r # rest) w = (fst (rx_task_main call raw rs w), True)"
  using assms by (induction rs arbitrary: raw w)
    (auto simp: live_round_def Let_def split: sock_read.splits)

text \<open>Reads that carry no frame leave no trace: only the frames count.\<close>

lemma rx_skips_other:
  assumes "list_all live_round rs"
  shows "rx_task_main call raw rs w =
    rx_task_main call raw (filter (\<lambda>r. case rx_read r of Read_Frame _ \<Rightarrow> True | _ \<Rightarrow> False) rs) w"
  using assms by (induction rs arbitrary: raw w)
    (auto simp: live_round_def Let_def split: sock_read.splits)

definition socketcan_ok :: "('cb, 'ctx) socketcan_hal \<Rightarrow> bool" where
  "socketcan_ok h \<longleftrightarrow> bus_ok (sk_table h)"

definition socketcan_entries :: "('cb, 'ctx) socketcan_hal \<Rightarrow> ('cb, 'ctx) subscriber_t list" where
  "socketcan_entries h = bus_entries (sk_table h)"

interpretation socketcan_table: subscriber_table socketcan_ok socketcan_entries MAX_SUBSCRIBERS socketcan_subscribe
proof -
  have eq: "socketcan_subscribe h cb ctx =
      (h\<lparr>sk_table := fst (can_hal_subscribe (sk_table h) cb ctx)\<rparr>, snd (can_hal_subscribe (sk_table h) cb ctx))"
    for h :: "('cb, 'ctx) socketcan_hal" and cb ctx
    by (simp add: socketcan_subscribe_def can_hal_subscribe_def)
  show "subscriber_table socketcan_ok socketcan_entries MAX_SUBSCRIBERS
      (socketcan_subscribe :: ('cb, 'ctx) socketcan_hal \<Rightarrow> _)"
  proof (unfold_locales, unfold socketcan_ok_def socketcan_entries_def eq, goal_cases)
    case (1 t)
    then show ?case by (rule virtual_table.entries_bounded)
  next
    case (2 t cb ctx)
    then show ?case using virtual_table.subscribe_wf by simp
  next
    case (3 t cb ctx)
    then show ?case using virtual_table.subscribe_ok [of "sk_table t"] by simp
  next
    case (4 t cb ctx)
    then show ?case using virtual_table.subscribe_full [of "sk_table t"] by simp
  qed
qed

section \<open>Properties\<close>

text \<open>
  C37. The socket transport is transparent to the protocol: a frame with a standard identifier and at
  most 64 bytes, sent by one node and received by another, keeps its identifier and length, and each of
  the four decoders gives the same answer as on the frame that was sent, whatever the receiver's
  buffers held before.
\<close>

theorem socket_transport_is_transparent:
  assumes "frame_ok f" and "unat (dlc f) \<le> CAN_MAX_DLC" and "can_id f < 0x800"
  shows "(let g = rx_frame junk raw (tx_frame f)
    in can_id g = can_id f \<and> dlc g = dlc f \<and>
       can_protocol_unpack_status g = can_protocol_unpack_status f \<and>
       can_protocol_unpack_cell_voltages g = can_protocol_unpack_cell_voltages f \<and>
       can_protocol_unpack_fault g = can_protocol_unpack_fault f \<and>
       can_protocol_unpack_charge_command g = can_protocol_unpack_charge_command f)"
  unfolding rx_tx_frame [OF assms] Let_def
  using rx_tx_take [OF assms(1,2), of junk] status_msg.unpack_ignores_tail cells_msg.unpack_ignores_tail
    fault_msg.unpack_ignores_tail charge_msg.unpack_ignores_tail by simp

theorem socket_transport_is_transparent_witness:
  "can_protocol_unpack_cell_voltages (rx_frame (replicate 64 0xAA) (replicate 64 0xBB)
     (tx_frame (can_protocol_pack_cell_voltages \<lparr>cv_cell_mv = [3700, 3701, 3702, 3703, 3704]\<rparr>))) =
   Some \<lparr>cv_cell_mv = [3700, 3701, 3702, 3703, 3704]\<rparr>"
proof -
  let ?m = "\<lparr>cv_cell_mv = [3700, 3701, 3702, 3703, 3704]\<rparr>"
  have "frame_ok (can_protocol_pack_cell_voltages ?m)" by (rule cells_msg.pack_header(3))
  moreover have "unat (dlc (can_protocol_pack_cell_voltages ?m)) \<le> CAN_MAX_DLC"
    by (rule cells_msg.pack_dlc_bound)
  moreover have "can_id (can_protocol_pack_cell_voltages ?m) < 0x800"
    by (simp add: cells_msg.pack_header(1) CAN_ID_CELL_VOLTAGES_def)
  moreover have "can_protocol_unpack_cell_voltages (can_protocol_pack_cell_voltages ?m) = Some ?m"
    by (rule cells_msg.unpack_pack) (simp add: cell_count_ok_def config_defs)
  ultimately show ?thesis
    using socket_transport_is_transparent [of "can_protocol_pack_cell_voltages ?m" "replicate 64 0xAA"
        "replicate 64 0xBB"] by (simp add: Let_def)
qed

text \<open>
  The reader drops the frame-format flags with the identifier mask, so identifiers of extended
  frames alias standard ones: an extended frame of an unrelated node whose low eleven bits are 0x080 is
  delivered, and decoded, as a fault report.
\<close>

lemma extended_identifier_aliases_fault_report:
  "can_protocol_unpack_fault (rx_frame junk raw
     (Classic_Frame (CAN_EFF_FLAG OR 0x12345080) 3 [0, 1, 4, 0, 0, 0, 0, 0])) =
   Some \<lparr>fr_fault_bitmask = 1, fr_severity = 4\<rparr>"
proof -
  have "rx_frame junk raw (Classic_Frame (CAN_EFF_FLAG OR 0x12345080) 3 [0, 1, 4, 0, 0, 0, 0, 0]) =
      \<lparr>can_id = 0x080, dlc = 3, data = [0, 1, 4] @ drop 3 junk\<rparr>"
    by (simp add: rx_frame_def CAN_EFF_FLAG_def CAN_SFF_MASK_def CAN_MAX_DLC_def)
  then show ?thesis
    by (simp add: can_protocol_unpack_fault_def CAN_ID_FAULT_REPORT_def get_u16_def)
qed

text \<open>
  The reader thread stops: at the first round in which the running flag is cleared or the socket
  fails, it returns with the effect of the earlier rounds only, whatever would have arrived later, and
  until then it does not return.
\<close>

lemma reader_stops_when_told:
  assumes "list_all (\<lambda>r. rx_running r \<and> rx_read r \<noteq> Read_Failed) rs"
    and "\<not> rx_running r \<or> rx_read r = Read_Failed"
  shows "rx_task_main call raw (rs @ r # rest) w = (fst (rx_task_main call raw rs w), True) \<and>
    snd (rx_task_main call raw rs w) = False"
proof -
  have live: "list_all live_round rs" and stop: "\<not> live_round r"
    using assms by (auto simp: live_round_def list_all_iff)
  show ?thesis
    using rx_stops_at [OF live stop, of call raw rest w] rx_live_continues [OF live, of call raw w] by simp
qed

text \<open>
  Opening and closing balance: whichever call fails, \<open>can_hal_init\<close> either succeeds with
  exactly the new descriptor open or fails with none open and every later send rejected; after a
  shutdown nothing is open, the reader is gone and sends are rejected.
\<close>

lemma socketcan_lifecycle:
  "(let (h, rc) = socketcan_init fd ioctl_ok bind_ok lock_created task_created socketcan_start
    in if rc = 0 then sk_open h = {fd} \<and> sk_sock h = fd \<and> 0 \<le> fd \<and> socketcan_entries h = []
       else sk_open h = {} \<and> socketcan_send (sk_sock h) written frame = (- 1, None)) \<and>
   (let (h, rc) = socketcan_init fd ioctl_ok bind_ok lock_created task_created socketcan_start;
        h' = socketcan_shutdown h
    in sk_open h' = {} \<and> \<not> sk_running h' \<and> \<not> sk_rx_task h' \<and>
       socketcan_send (sk_sock h') written frame = (- 1, None))"
  by (cases frame)
    (auto simp: socketcan_init_def socketcan_start_def sk_close_def socketcan_send_def
      socketcan_entries_def socketcan_shutdown_def shutdown_close_def shutdown_join_def shutdown_stop_def Let_def)

text \<open>
  The name the kernel receives is the configured one, cut after fifteen characters, and the buffer is
  always terminated.
\<close>

lemma ifr_name_kernel:
  shows "length (ifr_name s) = IFNAMSIZ"
    and "CHR 0x00 \<notin> set s \<Longrightarrow> c_string (ifr_name s) = take (IFNAMSIZ - 1) s"
  using length_strncpy_zeroed [of 15 s] c_string_strncpy [of s 15]
  by (simp_all add: ifr_name_def IFNAMSIZ_def numeral_nat)

text \<open>
  A long name is cut without an error, so it opens the interface its first fifteen characters name;
  the default is short enough.
\<close>

lemma long_names_are_cut:
  assumes "CHR 0x00 \<notin> set s" and "CHR 0x00 \<notin> set t" and "take (IFNAMSIZ - 1) s = take (IFNAMSIZ - 1) t"
  shows "socketcan_open fd (Some s) index_of bind_ok l c h = socketcan_open fd (Some t) index_of bind_ok l c h"
proof -
  have eq: "c_string (ifr_name s) = c_string (ifr_name t)" using assms by (simp add: ifr_name_kernel)
  show ?thesis by (simp only: socketcan_open_def can_iface_def Let_def option.case eq)
qed

lemma default_iface_is_whole: "c_string (ifr_name (can_iface None)) = DEFAULT_CAN_IFACE"
  by (simp add: can_iface_def ifr_name_kernel DEFAULT_CAN_IFACE_def IFNAMSIZ_def)

text \<open>
  The calls and the result agree: the function succeeds exactly when the interface exists and could be
  bound, it then has set the receive timeout the reader needs to notice a shutdown, and it closes
  exactly the descriptor it opened exactly when it fails after opening it. The descriptors held
  afterwards are the ones opened and not closed.
\<close>

lemma socketcan_open_calls:
  assumes "socketcan_open fd env index_of bind_ok l t socketcan_start = ((h, rc), calls)"
  shows "(rc = 0) = (0 \<le> fd \<and> (\<exists>i. index_of (c_string (ifr_name (can_iface env))) = Some i \<and> bind_ok i))"
    and "(rc = 0) = (Call_Receive_Timeout fd 200000 \<in> set calls)"
    and "(Call_Close fd \<in> set calls) = (0 \<le> fd \<and> rc \<noteq> 0)"
    and "sk_open h = {d. 0 \<le> d \<and> Call_Enable_Fd d \<in> set calls \<and> Call_Close d \<notin> set calls}"
  using assms
  by (auto simp: socketcan_open_def socketcan_init_def socketcan_start_def sk_close_def Let_def
      RX_POLL_TIMEOUT_MS_def split: if_splits option.splits)

end
