(* ===== verification/Socketcan_Threads.thy ===== *)
theory Socketcan_Threads
  imports Can_Hal_Socketcan Closing
begin

text \<open>
  The threads around the Linux back end, one statement at a time: the reader of
  \<open>src/can/can_hal_socketcan.c\<close>, a client that registers callbacks, and the thread that calls
  \<open>can_hal_shutdown\<close>, which comes after the client has ended, as in \<open>src/main.c\<close>. The result of
  each \<open>read\<close> is part of a label; reading from a descriptor that has been closed is undefined. The
  order of the shutdown, flag, join, close, destruction of the mutex, is what keeps the reader safe. A
  callback returns and does not call the back end.
\<close>

section \<open>Threads\<close>

datatype sk_thread = Sk_Reader | Sk_Client | Sk_Closer

datatype 'cb rx_pc =
  Rx_Test | Rx_Read | Rx_Lock can_frame_t | Rx_Copy can_frame_t
| Rx_Unlock can_frame_t "('cb, unit) subscriber_t list" | Rx_Deliver can_frame_t "('cb, unit) subscriber_t list" | Rx_Exit

text \<open>The callbacks a client has still to register.\<close>

datatype 'cb client_pc = Cl_Test "'cb list" | Cl_Lock 'cb "'cb list" | Cl_Write 'cb "'cb list" | Cl_Unlock "'cb list"

datatype closer_pc = Sd_Wait | Sd_Stop | Sd_Join | Sd_Close | Sd_Destroy | Sd_Count | Sd_Done

record 'cb sk_threads =
  sk_hal :: "('cb, unit) socketcan_hal"
  sk_lock :: "sk_thread osal_mutex option"
  sk_raw :: "u8 list"
  sk_rx :: "'cb rx_pc"
  sk_client :: "'cb client_pc"
  sk_closer :: closer_pc
  sk_calls :: "('cb \<times> can_frame_t) list"

definition sk_locked ::
  "(sk_thread osal_mutex \<Rightarrow> sk_thread osal_mutex outcome) \<Rightarrow> 'cb sk_threads \<Rightarrow> 'cb sk_threads outcome" where
  "sk_locked f s =
     (case sk_lock s of None \<Rightarrow> Undefined | Some m \<Rightarrow> map_outcome (\<lambda>m'. s\<lparr>sk_lock := Some m'\<rparr>) (f m))"

section \<open>The statements\<close>

definition sk_reader :: "'cb sk_threads \<Rightarrow> 'cb sk_threads outcome" where
  "sk_reader s = (case sk_rx s of
     Rx_Test \<Rightarrow> Returns (s\<lparr>sk_rx := if sk_running (sk_hal s) then Rx_Read else Rx_Exit\<rparr>)
   | Rx_Read \<Rightarrow> Blocks
   | Rx_Lock f \<Rightarrow> map_outcome (\<lambda>s. s\<lparr>sk_rx := Rx_Copy f\<rparr>) (sk_locked (osal_mutex_lock Sk_Reader) s)
   | Rx_Copy f \<Rightarrow>
       Returns (s\<lparr>sk_rx := Rx_Unlock f (take (g_sub_count (sk_table (sk_hal s))) (g_subs (sk_table (sk_hal s))))\<rparr>)
   | Rx_Unlock f subs \<Rightarrow> map_outcome (\<lambda>s. s\<lparr>sk_rx := Rx_Deliver f subs\<rparr>) (sk_locked (osal_mutex_unlock Sk_Reader) s)
   | Rx_Deliver f [] \<Rightarrow> Returns (s\<lparr>sk_rx := Rx_Test\<rparr>)
   | Rx_Deliver f (sub # subs) \<Rightarrow>
       Returns (case sub_cb sub of None \<Rightarrow> s\<lparr>sk_rx := Rx_Deliver f subs\<rparr>
                | Some cb \<Rightarrow> s\<lparr>sk_calls := sk_calls s @ [(cb, f)], sk_rx := Rx_Deliver f subs\<rparr>)
   | Rx_Exit \<Rightarrow> Blocks)"

text \<open>The read statement, with what \<open>read\<close> returns and the bytes of the uninitialised frame.\<close>

definition sk_read :: "sock_read \<Rightarrow> u8 list \<Rightarrow> 'cb sk_threads \<Rightarrow> 'cb sk_threads outcome" where
  "sk_read r junk s =
     (if sk_rx s \<noteq> Rx_Read then Blocks
      else if sk_sock (sk_hal s) \<notin> sk_open (sk_hal s) then Undefined
      else Returns (case r of
          Read_Again \<Rightarrow> s\<lparr>sk_rx := Rx_Test\<rparr>
        | Read_Failed \<Rightarrow> s\<lparr>sk_rx := Rx_Exit\<rparr>
        | Read_Other_Length \<Rightarrow> s\<lparr>sk_rx := Rx_Test\<rparr>
        | Read_Frame sf \<Rightarrow> s\<lparr>sk_raw := raw_after (sk_raw s) sf, sk_rx := Rx_Lock (rx_frame junk (sk_raw s) sf)\<rparr>))"

definition sk_register :: "'cb sk_threads \<Rightarrow> 'cb sk_threads outcome" where
  "sk_register s = (case sk_client s of
     Cl_Test [] \<Rightarrow> Blocks
   | Cl_Test (cb # cbs) \<Rightarrow>
       Returns (s\<lparr>sk_client := if g_sub_count (sk_table (sk_hal s)) \<ge> MAX_SUBSCRIBERS then Cl_Test cbs else Cl_Lock cb cbs\<rparr>)
   | Cl_Lock cb cbs \<Rightarrow> map_outcome (\<lambda>s. s\<lparr>sk_client := Cl_Write cb cbs\<rparr>) (sk_locked (osal_mutex_lock Sk_Client) s)
   | Cl_Write cb cbs \<Rightarrow>
       Returns (s\<lparr>sk_hal := (sk_hal s)\<lparr>sk_table := subscribe_write (sk_table (sk_hal s)) (Some cb) (Some ())\<rparr>,
                 sk_client := Cl_Unlock cbs\<rparr>)
   | Cl_Unlock cbs \<Rightarrow> map_outcome (\<lambda>s. s\<lparr>sk_client := Cl_Test cbs\<rparr>) (sk_locked (osal_mutex_unlock Sk_Client) s))"

definition sk_shutdown :: "'cb sk_threads \<Rightarrow> 'cb sk_threads outcome" where
  "sk_shutdown s = (case sk_closer s of
     Sd_Wait \<Rightarrow> if sk_client s = Cl_Test [] then Returns (s\<lparr>sk_closer := Sd_Stop\<rparr>) else Blocks
   | Sd_Stop \<Rightarrow> Returns (s\<lparr>sk_hal := shutdown_stop (sk_hal s), sk_closer := Sd_Join\<rparr>)
   | Sd_Join \<Rightarrow>
       if sk_rx_task (sk_hal s) \<and> sk_rx s \<noteq> Rx_Exit then Blocks
       else Returns (s\<lparr>sk_hal := shutdown_join (sk_hal s), sk_closer := Sd_Close\<rparr>)
   | Sd_Close \<Rightarrow>
       Returns (s\<lparr>sk_hal := if sk_sock (sk_hal s) \<ge> 0 then sk_close (sk_hal s) else sk_hal s, sk_closer := Sd_Destroy\<rparr>)
   | Sd_Destroy \<Rightarrow> map_outcome (\<lambda>_. s\<lparr>sk_lock := None, sk_closer := Sd_Count\<rparr>) (osal_mutex_destroy (sk_lock s))
   | Sd_Count \<Rightarrow>
       Returns (s\<lparr>sk_hal := (sk_hal s)\<lparr>sk_table := (sk_table (sk_hal s))\<lparr>g_sub_count := 0\<rparr>\<rparr>, sk_closer := Sd_Done\<rparr>)
   | Sd_Done \<Rightarrow> Blocks)"

datatype sk_label = Sk_Read sock_read "u8 list" | Sk_Run sk_thread

fun sk_do :: "sk_label \<Rightarrow> 'cb sk_threads \<Rightarrow> 'cb sk_threads outcome" where
  "sk_do (Sk_Read r junk) s = sk_read r junk s"
| "sk_do (Sk_Run Sk_Reader) s = sk_reader s"
| "sk_do (Sk_Run Sk_Client) s = sk_register s"
| "sk_do (Sk_Run Sk_Closer) s = sk_shutdown s"

text \<open>
  The state after a successful \<open>can_hal_init\<close>; \<open>created\<close> tells whether the reader task could be
  created, \<open>raw\<close> is what its buffer happens to hold.
\<close>

definition sk_init :: "int \<Rightarrow> bool \<Rightarrow> u8 list \<Rightarrow> 'cb list \<Rightarrow> 'cb sk_threads" where
  "sk_init fd created raw cbs =
     \<lparr>sk_hal = fst (socketcan_init fd True True True created socketcan_start), sk_lock = Some Mx_Free, sk_raw = raw,
      sk_rx = (if created then Rx_Test else Rx_Exit), sk_client = Cl_Test cbs, sk_closer = Sd_Wait, sk_calls = []\<rparr>"

inductive sk_steps :: "'cb sk_threads \<Rightarrow> sk_label list \<Rightarrow> 'cb sk_threads \<Rightarrow> bool" where
  sk_nil: "sk_steps s [] s"
| sk_cons: "sk_do l s = Returns s' \<Longrightarrow> sk_steps s' ls s'' \<Longrightarrow> sk_steps s (l # ls) s''"

inductive_simps sk_steps_Nil [simp]: "sk_steps s [] s'"
inductive_simps sk_steps_Cons: "sk_steps s (l # ls) s''"

section \<open>The invariant\<close>

fun rx_section :: "'cb rx_pc \<Rightarrow> bool" where
  "rx_section (Rx_Copy _) = True" | "rx_section (Rx_Unlock _ _) = True" | "rx_section _ = False"

fun cl_section :: "'cb client_pc \<Rightarrow> bool" where
  "cl_section (Cl_Write _ _) = True" | "cl_section (Cl_Unlock _) = True" | "cl_section _ = False"

text \<open>How far the shutdown is.\<close>

fun stage :: "closer_pc \<Rightarrow> nat" where
  "stage Sd_Wait = 0" | "stage Sd_Stop = 1" | "stage Sd_Join = 2" | "stage Sd_Close = 3" | "stage Sd_Destroy = 4"
| "stage Sd_Count = 5" | "stage Sd_Done = 6"

fun cl_room :: "'cb client_pc \<Rightarrow> nat \<Rightarrow> bool" where
  "cl_room (Cl_Lock _ _) n \<longleftrightarrow> n < MAX_SUBSCRIBERS" | "cl_room (Cl_Write _ _) n \<longleftrightarrow> n < MAX_SUBSCRIBERS" | "cl_room _ n \<longleftrightarrow> True"

text \<open>Who is inside a section owns the mutex, which exists as long as the back end is \<open>alive\<close>.\<close>

fun sk_lock_ok :: "sk_thread osal_mutex option \<Rightarrow> bool \<Rightarrow> bool \<Rightarrow> bool \<Rightarrow> bool" where
  "sk_lock_ok None rx cl alive \<longleftrightarrow> \<not> alive \<and> \<not> rx \<and> \<not> cl"
| "sk_lock_ok (Some Mx_Free) rx cl alive \<longleftrightarrow> alive \<and> \<not> rx \<and> \<not> cl"
| "sk_lock_ok (Some (Mx_Held t)) rx cl alive \<longleftrightarrow>
     alive \<and> (t = Sk_Reader \<and> rx \<and> \<not> cl \<or> t = Sk_Client \<and> cl \<and> \<not> rx)"
| "sk_lock_ok (Some Mx_None) rx cl alive \<longleftrightarrow> False"

definition sk_ok :: "'cb sk_threads \<Rightarrow> bool" where
  "sk_ok s \<longleftrightarrow>
     sk_lock_ok (sk_lock s) (rx_section (sk_rx s)) (cl_section (sk_client s)) (stage (sk_closer s) < 5) \<and>
     (0 < stage (sk_closer s) \<longrightarrow> sk_client s = Cl_Test []) \<and>
     (3 \<le> stage (sk_closer s) \<or> \<not> sk_rx_task (sk_hal s) \<longrightarrow> sk_rx s = Rx_Exit) \<and>
     (stage (sk_closer s) < 4 \<longrightarrow> sk_sock (sk_hal s) \<in> sk_open (sk_hal s)) \<and>
     (sk_running (sk_hal s) \<longleftrightarrow> stage (sk_closer s) < 2) \<and>
     bus_ok (sk_table (sk_hal s)) \<and> cl_room (sk_client s) (g_sub_count (sk_table (sk_hal s)))"

lemma sk_init_ok: "0 \<le> fd \<Longrightarrow> sk_ok (sk_init fd created raw cbs)"
  by (simp add: sk_ok_def sk_init_def socketcan_init_def Let_def can_hal_init_def bus_ok_def)

lemma sk_locked_iff:
  "sk_locked (osal_mutex_lock t) s = Returns s' \<longleftrightarrow> sk_lock s = Some Mx_Free \<and> s' = s\<lparr>sk_lock := Some (Mx_Held t)\<rparr>"
  "sk_locked (osal_mutex_unlock t) s = Returns s' \<longleftrightarrow> sk_lock s = Some (Mx_Held t) \<and> s' = s\<lparr>sk_lock := Some Mx_Free\<rparr>"
  by (auto simp: sk_locked_def split: option.splits)

lemma rx_step_ok:
  assumes "sk_ok s" and "sk_rx s \<noteq> Rx_Exit" and "rx_section (sk_rx s') = rx_section (sk_rx s)"
    and "sk_lock s' = sk_lock s" "sk_client s' = sk_client s" "sk_closer s' = sk_closer s" "sk_hal s' = sk_hal s"
  shows "sk_ok s'"
  using assms by (auto simp: sk_ok_def)

lemma reader_ok:
  assumes ok: "sk_ok s" and step: "sk_reader s = Returns s'"
  shows "sk_ok s'"
proof (cases "sk_rx s")
  case (Rx_Lock f)
  then have "sk_lock s = Some Mx_Free" "s' = s\<lparr>sk_lock := Some (Mx_Held Sk_Reader), sk_rx := Rx_Copy f\<rparr>"
    using step by (auto simp: sk_reader_def sk_locked_iff)
  then show ?thesis using ok Rx_Lock by (auto simp: sk_ok_def)
next
  case (Rx_Unlock f subs)
  then have "sk_lock s = Some (Mx_Held Sk_Reader)" "s' = s\<lparr>sk_lock := Some Mx_Free, sk_rx := Rx_Deliver f subs\<rparr>"
    using step by (auto simp: sk_reader_def sk_locked_iff)
  then show ?thesis using ok Rx_Unlock by (auto simp: sk_ok_def)
next
  case (Rx_Deliver f subs)
  then show ?thesis using step by (intro rx_step_ok [OF ok]; cases subs) (auto simp: sk_reader_def split: option.splits)
next
  case Rx_Test
  then show ?thesis using step by (intro rx_step_ok [OF ok]) (auto simp: sk_reader_def split: if_splits)
next
  case (Rx_Copy f)
  then show ?thesis using step by (intro rx_step_ok [OF ok]) (auto simp: sk_reader_def)
qed (use step in \<open>simp_all add: sk_reader_def\<close>)

lemma read_ok:
  assumes ok: "sk_ok s" and step: "sk_read r junk s = Returns s'"
  shows "sk_ok s'"
  using step by (intro rx_step_ok [OF ok]; cases r) (auto simp: sk_read_def split: if_splits)

lemma register_ok:
  assumes ok: "sk_ok s" and step: "sk_register s = Returns s'"
  shows "sk_ok s'"
proof (cases "sk_client s")
  case (Cl_Test cbs)
  then obtain cb cbs' where cbs: "cbs = cb # cbs'" using step by (cases cbs) (simp_all add: sk_register_def)
  then have "s' = s\<lparr>sk_client := if g_sub_count (sk_table (sk_hal s)) \<ge> MAX_SUBSCRIBERS then Cl_Test cbs' else Cl_Lock cb cbs'\<rparr>"
    using step Cl_Test by (simp add: sk_register_def)
  then show ?thesis using ok Cl_Test cbs
    by (auto simp: sk_ok_def)
next
  case (Cl_Lock cb cbs)
  then have "sk_lock s = Some Mx_Free" "s' = s\<lparr>sk_lock := Some (Mx_Held Sk_Client), sk_client := Cl_Write cb cbs\<rparr>"
    using step by (auto simp: sk_register_def sk_locked_iff)
  then show ?thesis using ok Cl_Lock by (auto simp: sk_ok_def)
next
  case (Cl_Write cb cbs)
  then have "s' = s\<lparr>sk_hal := (sk_hal s)\<lparr>sk_table := subscribe_write (sk_table (sk_hal s)) (Some cb) (Some ())\<rparr>,
      sk_client := Cl_Unlock cbs\<rparr>" using step by (simp add: sk_register_def)
  then show ?thesis
    using ok Cl_Write
    by (auto simp: sk_ok_def bus_ok_def subscribe_write_def)
next
  case (Cl_Unlock cbs)
  then have "sk_lock s = Some (Mx_Held Sk_Client)" "s' = s\<lparr>sk_lock := Some Mx_Free, sk_client := Cl_Test cbs\<rparr>"
    using step by (auto simp: sk_register_def sk_locked_iff)
  then show ?thesis using ok Cl_Unlock by (auto simp: sk_ok_def)
qed

lemma shutdown_ok:
  assumes ok: "sk_ok s" and step: "sk_shutdown s = Returns s'"
  shows "sk_ok s'"
proof -
  show ?thesis
  proof (cases "sk_closer s")
    case Sd_Wait
    then have "sk_client s = Cl_Test []" "s' = s\<lparr>sk_closer := Sd_Stop\<rparr>" using step by (simp_all add: sk_shutdown_def split: if_splits)
    then show ?thesis using ok Sd_Wait by (auto simp: sk_ok_def)
  next
    case Sd_Stop
    then have "s' = s\<lparr>sk_hal := shutdown_stop (sk_hal s), sk_closer := Sd_Join\<rparr>" using step by (simp add: sk_shutdown_def)
    then show ?thesis using ok Sd_Stop by (auto simp: sk_ok_def shutdown_stop_def)
  next
    case Sd_Join
    then have "sk_rx_task (sk_hal s) \<longrightarrow> sk_rx s = Rx_Exit" "s' = s\<lparr>sk_hal := shutdown_join (sk_hal s), sk_closer := Sd_Close\<rparr>"
      using step by (simp_all add: sk_shutdown_def split: if_splits)
    then show ?thesis using ok Sd_Join by (auto simp: sk_ok_def shutdown_join_def)
  next
    case Sd_Close
    then have "s' = s\<lparr>sk_hal := if sk_sock (sk_hal s) \<ge> 0 then sk_close (sk_hal s) else sk_hal s, sk_closer := Sd_Destroy\<rparr>"
      using step by (simp add: sk_shutdown_def)
    then show ?thesis using ok Sd_Close by (cases "sk_sock (sk_hal s) \<ge> 0") (auto simp: sk_ok_def sk_close_def)
  next
    case Sd_Destroy
    then have "sk_lock s = None \<or> sk_lock s = Some Mx_Free" "s' = s\<lparr>sk_lock := None, sk_closer := Sd_Count\<rparr>"
      using step by (cases "(sk_lock s)" rule: osal_mutex_destroy.cases; auto simp: sk_shutdown_def)+
    then show ?thesis using ok Sd_Destroy by (auto simp: sk_ok_def)
  next
    case Sd_Count
    then have "s' = s\<lparr>sk_hal := (sk_hal s)\<lparr>sk_table := (sk_table (sk_hal s))\<lparr>g_sub_count := 0\<rparr>\<rparr>, sk_closer := Sd_Done\<rparr>"
      using step by (simp add: sk_shutdown_def)
    then show ?thesis using ok Sd_Count by (auto simp: sk_ok_def bus_ok_def)
  qed (use step in \<open>simp add: sk_shutdown_def\<close>)
qed

lemma sk_do_ok: "sk_ok s \<Longrightarrow> sk_do l s = Returns s' \<Longrightarrow> sk_ok s'"
  using reader_ok read_ok register_ok shutdown_ok by (cases "(l, s)" rule: sk_do.cases) auto

lemma sk_steps_ok: "sk_steps s ls s' \<Longrightarrow> sk_ok s \<Longrightarrow> sk_ok s'"
  by (induction rule: sk_steps.induct) (auto intro: sk_do_ok)

section \<open>No undefined statement\<close>

lemma sk_lockD:
  assumes "sk_lock_ok lock rx cl alive"
  shows "alive \<Longrightarrow> \<exists>m. lock = Some m \<and> m \<noteq> Mx_None" and "rx \<Longrightarrow> lock = Some (Mx_Held Sk_Reader)"
    and "cl \<Longrightarrow> lock = Some (Mx_Held Sk_Client)" and "alive \<Longrightarrow> \<not> rx \<Longrightarrow> \<not> cl \<Longrightarrow> lock = Some Mx_Free"
  using assms by (cases "(lock, rx, cl, alive)" rule: sk_lock_ok.cases; auto)+

lemma sk_okD:
  assumes "sk_ok s"
  shows "sk_lock_ok (sk_lock s) (rx_section (sk_rx s)) (cl_section (sk_client s)) (stage (sk_closer s) < 5)"
    and "sk_rx s \<noteq> Rx_Exit \<Longrightarrow> stage (sk_closer s) < 3" and "sk_client s \<noteq> Cl_Test [] \<Longrightarrow> stage (sk_closer s) = 0"
    and "stage (sk_closer s) < 4 \<Longrightarrow> sk_sock (sk_hal s) \<in> sk_open (sk_hal s)"
  using assms by (auto simp: sk_ok_def)

lemma sk_do_defined:
  assumes "sk_ok s"
  shows "sk_do l s \<noteq> Undefined"
proof (cases "(l, s)" rule: sk_do.cases)
  case (1 r junk)
  have "sk_rx s = Rx_Read \<Longrightarrow> sk_sock (sk_hal s) \<in> sk_open (sk_hal s)" using sk_okD(2,4) [OF assms] by simp
  then show ?thesis using 1 by (simp add: sk_read_def)
next
  case 2
  note lock = sk_lockD [OF sk_okD(1) [OF assms]]
  have "sk_reader s \<noteq> Undefined"
  proof (cases "sk_rx s")
    case (Rx_Lock f)
    then obtain m where "sk_lock s = Some m" "m \<noteq> Mx_None" using lock(1) sk_okD(2) [OF assms] by auto
    then show ?thesis using Rx_Lock by (simp add: sk_reader_def sk_locked_def)
  next
    case (Rx_Unlock f subs)
    then show ?thesis using lock(2) by (simp add: sk_reader_def sk_locked_def)
  next
    case (Rx_Deliver f subs)
    then show ?thesis by (cases subs) (simp_all add: sk_reader_def)
  qed (simp_all add: sk_reader_def)
  with 2 show ?thesis by simp
next
  case 3
  note lock = sk_lockD [OF sk_okD(1) [OF assms]]
  have "sk_register s \<noteq> Undefined"
  proof (cases "sk_client s")
    case (Cl_Test cbs)
    then show ?thesis by (cases cbs) (simp_all add: sk_register_def)
  next
    case (Cl_Lock cb cbs)
    then obtain m where "sk_lock s = Some m" "m \<noteq> Mx_None" using lock(1) sk_okD(3) [OF assms] by auto
    then show ?thesis using Cl_Lock by (simp add: sk_register_def sk_locked_def)
  next
    case (Cl_Unlock cbs)
    then show ?thesis using lock(3) by (simp add: sk_register_def sk_locked_def)
  qed (simp add: sk_register_def)
  with 3 show ?thesis by simp
next
  case 4
  have "sk_closer s = Sd_Destroy \<Longrightarrow> sk_lock s = Some Mx_Free"
    using sk_lockD(4) [OF sk_okD(1) [OF assms]] sk_okD(2,3) [OF assms] by fastforce
  then have "sk_shutdown s \<noteq> Undefined" by (cases "sk_closer s") (auto simp: sk_shutdown_def)
  with 4 show ?thesis by simp
qed

section \<open>The end\<close>

text \<open>The statements left once the flag is cleared, each read counted as one.\<close>

fun rx_left :: "'cb rx_pc \<Rightarrow> nat" where
  "rx_left Rx_Exit = 0" | "rx_left Rx_Test = 1" | "rx_left (Rx_Deliver _ subs) = 2 + length subs"
| "rx_left (Rx_Unlock _ subs) = 3 + length subs" | "rx_left (Rx_Copy _) = 12" | "rx_left (Rx_Lock _) = 13" | "rx_left Rx_Read = 14"

definition sk_left :: "'cb sk_threads \<Rightarrow> nat" where
  "sk_left s = rx_left (sk_rx s) + (6 - stage (sk_closer s))"

lemma sk_step_left:
  assumes ok: "sk_ok s" and step: "sk_do l s = Returns s'" and stop: "2 \<le> stage (sk_closer s)"
  shows "sk_left s' < sk_left s" and "2 \<le> stage (sk_closer s')"
proof -
  have run: "\<not> sk_running (sk_hal s)" "sk_client s = Cl_Test []" "length (g_subs (sk_table (sk_hal s))) = 8"
    using ok stop by (auto simp: sk_ok_def bus_ok_def MAX_SUBSCRIBERS_def)
  have "sk_left s' < sk_left s \<and> 2 \<le> stage (sk_closer s')"
  proof (cases "(l, s)" rule: sk_do.cases)
    case (1 r junk)
    then show ?thesis using step stop by (cases r) (auto simp: sk_read_def sk_left_def split: if_splits)
  next
    case 2
    then have r: "sk_reader s = Returns s'" using step by simp
    show ?thesis
    proof (cases "sk_rx s")
      case (Rx_Deliver f subs)
      then show ?thesis using r stop by (cases subs) (auto simp: sk_reader_def sk_left_def split: option.splits)
    next
      case (Rx_Copy f)
      then show ?thesis using r stop run(3) by (auto simp: sk_reader_def sk_left_def)
    next
      case Rx_Test
      then show ?thesis using r stop run(1) by (auto simp: sk_reader_def sk_left_def)
    qed (use r stop in \<open>auto simp: sk_reader_def sk_left_def sk_locked_iff\<close>)
  next
    case 3
    then show ?thesis using step run(2) by (simp add: sk_register_def)
  next
    case 4
    then show ?thesis using step stop
      by (cases "sk_closer s") (auto simp: sk_shutdown_def sk_left_def split: if_splits)
  qed
  then show "sk_left s' < sk_left s" "2 \<le> stage (sk_closer s')" by simp_all
qed

text \<open>Some statement can be executed until the shutdown is done: a read returns at the latest after its timeout.\<close>

lemma sk_progress:
  assumes ok: "sk_ok s" and stop: "2 \<le> stage (sk_closer s)" and open_end: "sk_closer s \<noteq> Sd_Done"
  shows "\<exists>l s'. sk_do l s = Returns s'"
proof -
  have cl: "sk_client s = Cl_Test []" and
    lock: "sk_lock_ok (sk_lock s) (rx_section (sk_rx s)) (cl_section (sk_client s)) (stage (sk_closer s) < 5)"
    using ok stop by (auto simp: sk_ok_def)
  have "\<exists>l. sk_do l s \<noteq> Blocks"
  proof (cases "sk_closer s = Sd_Join \<and> sk_rx s \<noteq> Rx_Exit")
    case True
    show ?thesis
    proof (cases "sk_rx s = Rx_Read")
      case True
      then have "sk_do (Sk_Read Read_Again []) s \<noteq> Blocks" by (simp add: sk_read_def)
      then show ?thesis ..
    next
      case False
      have "sk_lock s \<noteq> Some (Mx_Held t)" if "\<not> rx_section (sk_rx s)" for t using lock cl that by (cases "sk_lock s") auto
      then have "sk_do (Sk_Run Sk_Reader) s \<noteq> Blocks"
        using True False by (cases "sk_rx s") (auto simp: sk_reader_def sk_locked_def split: list.splits option.splits)
      then show ?thesis ..
    qed
  next
    case False
    have "sk_do (Sk_Run Sk_Closer) s \<noteq> Blocks"
      using False stop open_end by (cases "sk_closer s") (auto simp: sk_shutdown_def)
    then show ?thesis ..
  qed
  then show ?thesis using sk_do_defined [OF ok] by (metis outcome.exhaust)
qed

lemma sk_left_le:
  assumes "2 \<le> stage (sk_closer s)" and "sk_rx s \<noteq> Rx_Exit \<longrightarrow> rx_left (sk_rx s) \<le> 14"
  shows "sk_left s \<le> 18"
  using assms by (cases "sk_rx s") (auto simp: sk_left_def)

text \<open>The copy of the table holds at most eight subscribers.\<close>

fun rx_subs_ok :: "'cb rx_pc \<Rightarrow> bool" where
  "rx_subs_ok (Rx_Unlock _ subs) \<longleftrightarrow> length subs \<le> 8" | "rx_subs_ok (Rx_Deliver _ subs) \<longleftrightarrow> length subs \<le> 8"
| "rx_subs_ok _ \<longleftrightarrow> True"

lemma rx_subs_do:
  assumes "sk_ok s" and "rx_subs_ok (sk_rx s)" and "sk_do l s = Returns s'"
  shows "rx_subs_ok (sk_rx s')"
proof (cases "(l, s)" rule: sk_do.cases)
  case (1 r junk)
  then show ?thesis using assms(3) by (cases r) (auto simp: sk_read_def split: if_splits)
next
  case 2
  have len: "length (g_subs (sk_table (sk_hal s))) = 8" using assms(1) by (simp add: sk_ok_def bus_ok_def MAX_SUBSCRIBERS_def)
  show ?thesis
  proof (cases "sk_rx s")
    case (Rx_Deliver f subs)
    then show ?thesis using 2 assms(2,3) by (cases subs) (auto simp: sk_reader_def split: option.splits)
  qed (use 2 assms len in \<open>auto simp: sk_reader_def sk_locked_iff\<close>)
next
  case 3
  then show ?thesis using assms(2,3)
    by (auto simp: sk_register_def sk_locked_iff split: client_pc.splits list.splits)
next
  case 4
  then show ?thesis using assms(2,3)
    by (cases "sk_closer s") (auto simp: sk_shutdown_def split: if_splits)
qed

lemma rx_subs_steps: "sk_steps s ls s' \<Longrightarrow> sk_ok s \<Longrightarrow> rx_subs_ok (sk_rx s) \<Longrightarrow> rx_subs_ok (sk_rx s')"
  by (induction rule: sk_steps.induct) (auto dest: sk_do_ok rx_subs_do)

lemma sk_stage_left: "rx_subs_ok (sk_rx s) \<Longrightarrow> 2 \<le> stage (sk_closer s) \<Longrightarrow> sk_left s \<le> 18"
  by (rule sk_left_le) (cases "sk_rx s"; auto)+

lemma sk_steps_exec: "sk_steps s ls s' \<longleftrightarrow> exec_steps sk_do ls s = Returns s'"
proof
  show "sk_steps s ls s' \<Longrightarrow> exec_steps sk_do ls s = Returns s'"
    by (induction rule: sk_steps.induct) auto
  show "exec_steps sk_do ls s = Returns s' \<Longrightarrow> sk_steps s ls s'"
    by (induction ls arbitrary: s) (auto intro: sk_steps.intros split: outcome.splits)
qed

interpretation sk_closing: closing_machine sk_do "\<lambda>_. True" "\<lambda>_ s. sk_ok s \<and> rx_subs_ok (sk_rx s)"
  "\<lambda>s. 2 \<le> stage (sk_closer s)" "\<lambda>s. sk_closer s = Sd_Done" sk_left 18
  using sk_do_ok rx_subs_do sk_step_left sk_progress
  by unfold_locales (simp_all add: Suc_le_eq, blast+)

section \<open>Properties\<close>

text \<open>
  C27. The shutdown of the socket is orderly, however the reader, the registrations and the shutdown
  interleave and whatever the reads return: no statement is undefined, so the reader never reads from a
  closed descriptor and nobody uses the mutex after its destruction; the descriptor is open until the reader
  has ended. Once the flag is cleared at most 18 statements are left, each read counted as one, some statement
  can be executed until the shutdown is done, and it gets done.
\<close>

theorem socket_shutdown_is_orderly:
  assumes "0 \<le> fd" and "sk_steps (sk_init fd created raw cbs) ls s"
  shows "sk_do l s \<noteq> Undefined \<and>
    (sk_rx s \<noteq> Rx_Exit \<longrightarrow> sk_sock (sk_hal s) \<in> sk_open (sk_hal s)) \<and>
    (\<not> sk_running (sk_hal s) \<longrightarrow>
      (\<forall>ls' s'. sk_steps s ls' s' \<longrightarrow> length ls' \<le> 18) \<and>
      (sk_closer s = Sd_Done \<or> (\<exists>l s'. sk_do l s = Returns s')) \<and>
      (\<exists>ls' s'. sk_steps s ls' s' \<and> sk_closer s' = Sd_Done))"
proof -
  have ok: "sk_ok s" using sk_steps_ok [OF assms(2) sk_init_ok [OF assms(1)]] .
  have "rx_subs_ok (sk_rx (sk_init fd created raw cbs))" by (simp add: sk_init_def)
  then have subs: "rx_subs_ok (sk_rx s)" using rx_subs_steps [OF assms(2) sk_init_ok [OF assms(1)]] by blast
  have "(\<forall>ls' s'. sk_steps s ls' s' \<longrightarrow> length ls' \<le> 18) \<and>
      (sk_closer s = Sd_Done \<or> (\<exists>l s'. sk_do l s = Returns s')) \<and>
      (\<exists>ls' s'. sk_steps s ls' s' \<and> sk_closer s' = Sd_Done)" if "\<not> sk_running (sk_hal s)"
  proof -
    have stop: "2 \<le> stage (sk_closer s)" using ok that by (auto simp: sk_ok_def)
    have left: "0 + sk_left s \<le> 18" using sk_stage_left [OF subs stop] by simp
    note down = sk_closing.winds_down [OF conjI [OF ok subs] stop left]
    have "length ls' \<le> 18" if "sk_steps s ls' s'" for ls' s'
      using down(1) [of ls' s'] that left by (simp add: sk_steps_exec)
    then show ?thesis using down(2,3) by (auto simp: sk_steps_exec)
  qed
  moreover have "sk_rx s \<noteq> Rx_Exit \<Longrightarrow> sk_sock (sk_hal s) \<in> sk_open (sk_hal s)" using sk_okD(2,4) [OF ok] by simp
  ultimately show ?thesis using sk_do_defined [OF ok, of l] by blast
qed

theorem socket_shutdown_is_orderly_witness:
  "\<exists>s. sk_steps (sk_init 3 True [] [7 :: nat])
      [Sk_Run Sk_Reader, Sk_Run Sk_Client, Sk_Run Sk_Client, Sk_Run Sk_Client, Sk_Run Sk_Client, Sk_Run Sk_Closer, Sk_Run Sk_Closer] s \<and>
    sk_rx s = Rx_Read \<and> sk_sock (sk_hal s) \<in> sk_open (sk_hal s) \<and>
    (\<exists>ls' s'. sk_steps s ls' s' \<and> sk_closer s' = Sd_Done)"
proof -
  let ?ls = "[Sk_Run Sk_Reader, Sk_Run Sk_Client, Sk_Run Sk_Client, Sk_Run Sk_Client, Sk_Run Sk_Client, Sk_Run Sk_Closer, Sk_Run Sk_Closer]"
  obtain s where s: "sk_steps (sk_init 3 True [] [7 :: nat]) ?ls s" "sk_rx s = Rx_Read" "\<not> sk_running (sk_hal s)"
    by (auto simp: sk_steps_Cons sk_init_def socketcan_init_def Let_def can_hal_init_def sk_reader_def sk_register_def
        sk_shutdown_def sk_locked_def shutdown_stop_def MAX_SUBSCRIBERS_def)
  from socket_shutdown_is_orderly [OF _ s(1)] s show ?thesis by (intro exI [of _ s]) simp
qed

end
