(* ===== verification/Board_Config.thy ===== *)
theory Board_Config
  imports Bms_Prelude
begin

text \<open>
  The kernel configuration of the emulated board,
  \<open>targets/qemu_mps2_an385/FreeRTOSConfig.h\<close>: every macro as a natural number. The kernel
  that reads them is third-party code.
\<close>

named_theorems board_defs \<open>definitions of the board's configuration\<close>

section \<open>Macros\<close>

definition configUSE_PREEMPTION :: nat where [board_defs]: "configUSE_PREEMPTION = 1"

definition configUSE_PORT_OPTIMISED_TASK_SELECTION :: nat where [board_defs]: "configUSE_PORT_OPTIMISED_TASK_SELECTION = 0"

definition configUSE_TICKLESS_IDLE :: nat where [board_defs]: "configUSE_TICKLESS_IDLE = 0"

definition configCPU_CLOCK_HZ :: nat where [board_defs]: "configCPU_CLOCK_HZ = 25000000"

definition configTICK_RATE_HZ :: nat where [board_defs]: "configTICK_RATE_HZ = 1000"

definition configMAX_PRIORITIES :: nat where [board_defs]: "configMAX_PRIORITIES = 9"

definition configMINIMAL_STACK_SIZE :: nat where [board_defs]: "configMINIMAL_STACK_SIZE = 128"

definition configTOTAL_HEAP_SIZE :: nat where [board_defs]: "configTOTAL_HEAP_SIZE = 32 * 1024"

definition configMAX_TASK_NAME_LEN :: nat where [board_defs]: "configMAX_TASK_NAME_LEN = 16"

definition configUSE_16_BIT_TICKS :: nat where [board_defs]: "configUSE_16_BIT_TICKS = 0"

definition configIDLE_SHOULD_YIELD :: nat where [board_defs]: "configIDLE_SHOULD_YIELD = 1"

definition configUSE_MUTEXES :: nat where [board_defs]: "configUSE_MUTEXES = 1"

definition configUSE_RECURSIVE_MUTEXES :: nat where [board_defs]: "configUSE_RECURSIVE_MUTEXES = 0"

definition configUSE_COUNTING_SEMAPHORES :: nat where [board_defs]: "configUSE_COUNTING_SEMAPHORES = 1"

definition configQUEUE_REGISTRY_SIZE :: nat where [board_defs]: "configQUEUE_REGISTRY_SIZE = 0"

definition configUSE_QUEUE_SETS :: nat where [board_defs]: "configUSE_QUEUE_SETS = 0"

definition configUSE_TIME_SLICING :: nat where [board_defs]: "configUSE_TIME_SLICING = 1"

definition configCHECK_FOR_STACK_OVERFLOW :: nat where [board_defs]: "configCHECK_FOR_STACK_OVERFLOW = 2"

definition configUSE_MALLOC_FAILED_HOOK :: nat where [board_defs]: "configUSE_MALLOC_FAILED_HOOK = 1"

definition configUSE_IDLE_HOOK :: nat where [board_defs]: "configUSE_IDLE_HOOK = 0"

definition configUSE_TICK_HOOK :: nat where [board_defs]: "configUSE_TICK_HOOK = 0"

definition configGENERATE_RUN_TIME_STATS :: nat where [board_defs]: "configGENERATE_RUN_TIME_STATS = 0"

definition configUSE_TRACE_FACILITY :: nat where [board_defs]: "configUSE_TRACE_FACILITY = 1"

definition configUSE_STATS_FORMATTING_FUNCTIONS :: nat where [board_defs]: "configUSE_STATS_FORMATTING_FUNCTIONS = 1"

definition configUSE_TIMERS :: nat where [board_defs]: "configUSE_TIMERS = 0"

definition configUSE_CO_ROUTINES :: nat where [board_defs]: "configUSE_CO_ROUTINES = 0"

definition configSUPPORT_STATIC_ALLOCATION :: nat where [board_defs]: "configSUPPORT_STATIC_ALLOCATION = 0"

definition configSUPPORT_DYNAMIC_ALLOCATION :: nat where [board_defs]: "configSUPPORT_DYNAMIC_ALLOCATION = 1"

definition INCLUDE_vTaskDelete :: nat where [board_defs]: "INCLUDE_vTaskDelete = 1"

definition INCLUDE_vTaskDelay :: nat where [board_defs]: "INCLUDE_vTaskDelay = 1"

definition INCLUDE_xTaskGetTickCount :: nat where [board_defs]: "INCLUDE_xTaskGetTickCount = 1"

definition INCLUDE_uxTaskPriorityGet :: nat where [board_defs]: "INCLUDE_uxTaskPriorityGet = 0"

definition INCLUDE_vTaskPrioritySet :: nat where [board_defs]: "INCLUDE_vTaskPrioritySet = 0"

definition INCLUDE_eTaskGetState :: nat where [board_defs]: "INCLUDE_eTaskGetState = 0"

definition INCLUDE_xTaskGetSchedulerState :: nat where [board_defs]: "INCLUDE_xTaskGetSchedulerState = 0"

definition INCLUDE_xTaskGetIdleTaskHandle :: nat where [board_defs]: "INCLUDE_xTaskGetIdleTaskHandle = 0"

definition INCLUDE_vTaskCleanUpResources :: nat where [board_defs]: "INCLUDE_vTaskCleanUpResources = 0"

definition INCLUDE_vTaskSuspend :: nat where [board_defs]: "INCLUDE_vTaskSuspend = 0"

definition INCLUDE_xTaskGetCurrentTaskHandle :: nat where [board_defs]: "INCLUDE_xTaskGetCurrentTaskHandle = 0"

definition INCLUDE_uxTaskGetStackHighWaterMark :: nat where [board_defs]: "INCLUDE_uxTaskGetStackHighWaterMark = 1"

definition configPRIO_BITS :: nat where [board_defs]: "configPRIO_BITS = 8"

definition configLIBRARY_LOWEST_INTERRUPT_PRIORITY :: nat where [board_defs]: "configLIBRARY_LOWEST_INTERRUPT_PRIORITY = 0xff"

definition configLIBRARY_MAX_SYSCALL_INTERRUPT_PRIORITY :: nat where [board_defs]: "configLIBRARY_MAX_SYSCALL_INTERRUPT_PRIORITY = 0x20"

definition configKERNEL_INTERRUPT_PRIORITY :: nat where
  [board_defs]: "configKERNEL_INTERRUPT_PRIORITY = push_bit (8 - configPRIO_BITS) configLIBRARY_LOWEST_INTERRUPT_PRIORITY"

definition configMAX_SYSCALL_INTERRUPT_PRIORITY :: nat where
  [board_defs]: "configMAX_SYSCALL_INTERRUPT_PRIORITY =
     push_bit (8 - configPRIO_BITS) configLIBRARY_MAX_SYSCALL_INTERRUPT_PRIORITY"

end
