(* ===== verification/Osal_Tasks.thy ===== *)
theory Osal_Tasks
  imports Osal_Mutex Board_Config
begin

text \<open>
  Creation, end and joining of tasks in the two ports of the OS abstraction
  (\<open>osal_task_create\<close>, the trampolines and \<open>osal_task_join\<close> of \<open>src/osal/osal_posix.c\<close> and
  \<open>src/osal/osal_freertos.c\<close>). The control block is heap memory that the new thread reads and the
  joiner frees: the two run concurrently, one statement at a time, and reading or freeing memory that
  is gone is an undefined outcome. The locale \<open>join_protocol\<close> states what a port promises and
  is interpreted for both.
\<close>

section \<open>The control block of the POSIX port\<close>

record ('f, 'a) osal_task =
  tk_name :: string
  tk_fn :: 'f
  tk_arg :: 'a

text \<open>
  The result of \<open>pthread_create\<close> is not looked at: the second component says whether there is a
  thread behind the handle. The priority is ignored.
\<close>

definition osal_task_create ::
  "bool \<Rightarrow> bool \<Rightarrow> string \<Rightarrow> 'f \<Rightarrow> 'a \<Rightarrow> int \<Rightarrow> ('f, 'a) osal_task option \<times> bool" where
  "osal_task_create calloc_ok pthread_ok name fn arg priority =
     (if \<not> calloc_ok then (None, False)
      else (Some \<lparr>tk_name = strncpy_to (replicate 32 (CHR 0x00)) name 31, tk_fn = fn, tk_arg = arg\<rparr>, pthread_ok))"

lemma task_name:
  assumes "CHR 0x00 \<notin> set name"
  shows "length (strncpy_to (replicate 32 (CHR 0x00)) name 31) = 32"
    and "c_string (strncpy_to (replicate 32 (CHR 0x00)) name 31) = take 31 name"
  using length_strncpy_zeroed [of 31 name] c_string_strncpy [OF assms, of 31] by (simp_all add: numeral_nat)

section \<open>What joining promises\<close>

text \<open>
  One task and its joiner. An event lets the task's thread or the joiner execute its next statement, or
  lets some ticks pass. A statement that blocks is tried again at a later event.
\<close>

datatype join_event = Task_Step | Joiner_Step | Ticks nat

fun event_ticks :: "join_event \<Rightarrow> nat" where
  "event_ticks (Ticks n) = n" | "event_ticks _ = 0"

definition elapsed_ticks :: "join_event list \<Rightarrow> nat" where
  "elapsed_ticks es = sum_list (map event_ticks es)"

fun run_schedule :: "('e \<Rightarrow> 's \<Rightarrow> 's outcome) \<Rightarrow> 'e list \<Rightarrow> 's \<Rightarrow> 's outcome" where
  "run_schedule step [] s = Returns s"
| "run_schedule step (e # es) s =
     (case step e s of
        Returns s' \<Rightarrow> run_schedule step es s' | Blocks \<Rightarrow> run_schedule step es s | Undefined \<Rightarrow> Undefined)"

lemma run_schedule_append:
  "run_schedule step (es @ fs) s =
    (case run_schedule step es s of Returns s' \<Rightarrow> run_schedule step fs s' | r \<Rightarrow> r)"
  by (induction es arbitrary: s) (auto split: outcome.splits)

text \<open>An invariant of the steps holds after every schedule that does not become undefined.\<close>

lemma run_schedule_invariant:
  assumes "\<And>e s s'. P s \<Longrightarrow> step e s = Returns s' \<Longrightarrow> P s'"
  shows "run_schedule step es s = Returns s' \<Longrightarrow> P s \<Longrightarrow> P s'"
  by (induction es arbitrary: s) (auto split: outcome.splits dest: assms)

text \<open>
  The contract. The invariant is indexed with the number of ticks that may still pass, of which an event
  uses up its cost: a port may promise a safe join for a limited time only.
\<close>

locale join_protocol =
  fixes step :: "join_event \<Rightarrow> 's \<Rightarrow> 's outcome"
    and inv :: "nat \<Rightarrow> 's \<Rightarrow> bool"
    and cost :: "join_event \<Rightarrow> nat"
    and finished joined :: "'s \<Rightarrow> bool"
  assumes inv_less: "inv n s \<Longrightarrow> m \<le> n \<Longrightarrow> inv m s"
    and step_inv: "inv n s \<Longrightarrow> cost e \<le> n \<Longrightarrow> step e s = Returns s' \<Longrightarrow> inv (n - cost e) s'"
    and joiner_free: "cost Joiner_Step = 0"
    and step_defined: "inv n s \<Longrightarrow> cost e \<le> n \<Longrightarrow> step e s \<noteq> Undefined"
    and joined_finished: "inv n s \<Longrightarrow> joined s \<Longrightarrow> finished s"
    and join_proceeds: "inv n s \<Longrightarrow> finished s \<Longrightarrow> \<not> joined s \<Longrightarrow> step Joiner_Step s \<noteq> Blocks"
begin

lemma schedule_defined:
  "inv n s \<Longrightarrow> sum_list (map cost es) \<le> n \<Longrightarrow> \<exists>s'. run_schedule step es s = Returns s' \<and> inv 0 s'"
proof (induction es arbitrary: n s)
  case Nil
  then show ?case by (auto intro: inv_less)
next
  case (Cons e es)
  have le: "cost e \<le> n" "sum_list (map cost es) \<le> n - cost e" using Cons.prems(2) by simp_all
  show ?case
  proof (cases "step e s")
    case (Returns s')
    then show ?thesis using Cons.IH [OF step_inv [OF Cons.prems(1) le(1)] le(2)] by simp
  next
    case Blocks
    then show ?thesis using Cons.IH [OF Cons.prems(1)] le by simp
  qed (use step_defined [OF Cons.prems(1) le(1)] in simp)
qed

lemma schedule_joins_safely:
  assumes "inv n s" and "sum_list (map cost es) \<le> n"
  shows "\<exists>s'. run_schedule step es s = Returns s' \<and> inv 0 s' \<and> (joined s' \<longrightarrow> finished s') \<and>
    (finished s' \<and> \<not> joined s' \<longrightarrow> (\<exists>s''. step Joiner_Step s' = Returns s''))"
proof -
  obtain s' where s': "run_schedule step es s = Returns s'" "inv 0 s'" using schedule_defined [OF assms] by blast
  have "cost Joiner_Step \<le> 0 \<or> step Joiner_Step s' \<noteq> Undefined \<Longrightarrow> finished s' \<and> \<not> joined s' \<Longrightarrow>
      \<exists>s''. step Joiner_Step s' = Returns s''"
    using step_defined [OF s'(2), of Joiner_Step] join_proceeds [OF s'(2)] by (cases "step Joiner_Step s'") auto
  then show ?thesis using s' joined_finished [OF s'(2)] joiner_free by auto
qed

end

section \<open>POSIX\<close>

datatype thread_pc = Th_Load | Th_Body | Th_Returned

datatype joiner_pc = Jo_Wait | Jo_Free | Jo_Done

record posix_life =
  pl_block :: bool
  pl_thread :: thread_pc
  pl_joiner :: joiner_pc

text \<open>The trampoline loads the function and its argument from the control block, then calls it.\<close>

definition thread_trampoline :: "posix_life \<Rightarrow> posix_life outcome" where
  "thread_trampoline s = (case pl_thread s of
     Th_Load \<Rightarrow> if pl_block s then Returns (s\<lparr>pl_thread := Th_Body\<rparr>) else Undefined
   | Th_Body \<Rightarrow> Returns (s\<lparr>pl_thread := Th_Returned\<rparr>)
   | Th_Returned \<Rightarrow> Blocks)"

definition osal_task_join :: "posix_life \<Rightarrow> posix_life outcome" where
  "osal_task_join s = (case pl_joiner s of
     Jo_Wait \<Rightarrow>
       if \<not> pl_block s then Undefined
       else if pl_thread s = Th_Returned then Returns (s\<lparr>pl_joiner := Jo_Free\<rparr>) else Blocks
   | Jo_Free \<Rightarrow> if pl_block s then Returns (s\<lparr>pl_block := False, pl_joiner := Jo_Done\<rparr>) else Undefined
   | Jo_Done \<Rightarrow> Blocks)"

fun posix_step :: "join_event \<Rightarrow> posix_life \<Rightarrow> posix_life outcome" where
  "posix_step Task_Step s = thread_trampoline s"
| "posix_step Joiner_Step s = osal_task_join s"
| "posix_step (Ticks _) s = Returns s"

definition posix_start :: posix_life where
  "posix_start = \<lparr>pl_block = True, pl_thread = Th_Load, pl_joiner = Jo_Wait\<rparr>"

definition posix_inv :: "posix_life \<Rightarrow> bool" where
  "posix_inv s \<longleftrightarrow> (pl_block s \<longleftrightarrow> pl_joiner s \<noteq> Jo_Done) \<and> (pl_joiner s \<noteq> Jo_Wait \<longrightarrow> pl_thread s = Th_Returned)"

lemma posix_step_cases:
  assumes "posix_inv s"
  shows "posix_step e s = Returns s' \<Longrightarrow> posix_inv s'" and "posix_step e s \<noteq> Undefined"
  using assms
  by (cases e; auto simp: thread_trampoline_def osal_task_join_def posix_inv_def
      split: thread_pc.splits joiner_pc.splits if_splits)+

interpretation posix_join: join_protocol posix_step "\<lambda>_. posix_inv" "\<lambda>_. 0"
  "\<lambda>s. pl_thread s = Th_Returned" "\<lambda>s. pl_joiner s = Jo_Done"
proof
  show "posix_inv s \<Longrightarrow> posix_step e s = Returns s' \<Longrightarrow> posix_inv s'" for s e s' by (rule posix_step_cases(1))
  show "posix_inv s \<Longrightarrow> posix_step e s \<noteq> Undefined" for s e by (rule posix_step_cases(2))
  show "posix_inv s \<Longrightarrow> pl_joiner s = Jo_Done \<Longrightarrow> pl_thread s = Th_Returned" for s by (simp add: posix_inv_def)
  show "posix_inv s \<Longrightarrow> pl_thread s = Th_Returned \<Longrightarrow> pl_joiner s \<noteq> Jo_Done \<Longrightarrow> posix_step Joiner_Step s \<noteq> Blocks" for s
    by (cases "pl_joiner s") (simp_all add: posix_inv_def osal_task_join_def)
qed simp_all

section \<open>FreeRTOS\<close>

text \<open>
  The semaphore is \<^const>\<open>None\<close> once deleted; its content says whether it has been given. While the
  joiner waits for it the ticks are counted: the kernel documents that \<open>portMAX_DELAY\<close> waits without
  limit only when \<open>INCLUDE_vTaskSuspend\<close> is 1; otherwise the wait ends after that many ticks.
\<close>

definition portMAX_DELAY :: nat where
  "portMAX_DELAY = (if configUSE_16_BIT_TICKS = 1 then 2 ^ 16 - 1 else 2 ^ 32 - 1)"

datatype rtos_thread_pc = Rt_Load | Rt_Body | Rt_Give | Rt_Delete | Rt_Deleted

datatype rtos_joiner_pc = Rj_Call | Rj_Wait | Rj_Sem_Delete | Rj_Free | Rj_Done

record rtos_life =
  rl_block :: bool
  rl_sem :: "bool option"
  rl_thread :: rtos_thread_pc
  rl_joiner :: rtos_joiner_pc
  rl_waited :: nat

definition task_trampoline :: "rtos_life \<Rightarrow> rtos_life outcome" where
  "task_trampoline s = (case rl_thread s of
     Rt_Load \<Rightarrow> if rl_block s then Returns (s\<lparr>rl_thread := Rt_Body\<rparr>) else Undefined
   | Rt_Body \<Rightarrow> Returns (s\<lparr>rl_thread := Rt_Give\<rparr>)
   | Rt_Give \<Rightarrow>
       if \<not> rl_block s \<or> rl_sem s = None then Undefined
       else Returns (s\<lparr>rl_sem := Some True, rl_thread := Rt_Delete\<rparr>)
   | Rt_Delete \<Rightarrow> Returns (s\<lparr>rl_thread := Rt_Deleted\<rparr>)
   | Rt_Deleted \<Rightarrow> Blocks)"

text \<open>
  The join reads the semaphore from the control block, waits, deletes the semaphore and frees the block. It
  does not look at the result of the wait: when the time runs out it goes on as if the task had ended.
\<close>

definition rtos_task_join_life :: "rtos_life \<Rightarrow> rtos_life outcome" where
  "rtos_task_join_life s = (case rl_joiner s of
     Rj_Call \<Rightarrow> if rl_block s then Returns (s\<lparr>rl_joiner := Rj_Wait, rl_waited := 0\<rparr>) else Undefined
   | Rj_Wait \<Rightarrow>
       if rl_sem s = None then Undefined
       else if rl_sem s = Some True then Returns (s\<lparr>rl_sem := Some False, rl_joiner := Rj_Sem_Delete\<rparr>)
       else if INCLUDE_vTaskSuspend \<noteq> 1 \<and> portMAX_DELAY \<le> rl_waited s then Returns (s\<lparr>rl_joiner := Rj_Sem_Delete\<rparr>)
       else Blocks
   | Rj_Sem_Delete \<Rightarrow>
       if \<not> rl_block s \<or> rl_sem s = None then Undefined
       else Returns (s\<lparr>rl_sem := None, rl_joiner := Rj_Free\<rparr>)
   | Rj_Free \<Rightarrow> if rl_block s then Returns (s\<lparr>rl_block := False, rl_joiner := Rj_Done\<rparr>) else Undefined
   | Rj_Done \<Rightarrow> Blocks)"

fun rtos_step :: "join_event \<Rightarrow> rtos_life \<Rightarrow> rtos_life outcome" where
  "rtos_step Task_Step s = task_trampoline s"
| "rtos_step Joiner_Step s = rtos_task_join_life s"
| "rtos_step (Ticks n) s = Returns (if rl_joiner s = Rj_Wait then s\<lparr>rl_waited := rl_waited s + n\<rparr> else s)"

definition rtos_start :: rtos_life where
  "rtos_start = \<lparr>rl_block = True, rl_sem = Some False, rl_thread = Rt_Load, rl_joiner = Rj_Call, rl_waited = 0\<rparr>"

definition rtos_given :: "rtos_life \<Rightarrow> bool" where
  "rtos_given s \<longleftrightarrow> rl_thread s = Rt_Delete \<or> rl_thread s = Rt_Deleted"

definition rtos_inv :: "nat \<Rightarrow> rtos_life \<Rightarrow> bool" where
  "rtos_inv n s \<longleftrightarrow> (rl_block s \<longleftrightarrow> rl_joiner s \<noteq> Rj_Done) \<and>
     (case rl_joiner s of
        Rj_Call \<Rightarrow> rl_sem s = Some (rtos_given s) \<and> n < portMAX_DELAY
      | Rj_Wait \<Rightarrow> rl_sem s = Some (rtos_given s) \<and> rl_waited s + n < portMAX_DELAY
      | Rj_Sem_Delete \<Rightarrow> rl_sem s = Some False \<and> rtos_given s
      | _ \<Rightarrow> rl_sem s = None \<and> rtos_given s)"

lemmas rtos_defs = task_trampoline_def rtos_task_join_life_def rtos_inv_def rtos_given_def

lemma rtos_step_inv:
  assumes "rtos_inv n s" and "event_ticks e \<le> n" and "rtos_step e s = Returns s'"
  shows "rtos_inv (n - event_ticks e) s'"
proof (cases e)
  case Task_Step
  with assms show ?thesis by (auto simp: rtos_defs split: rtos_thread_pc.splits rtos_joiner_pc.splits if_splits)
next
  case Joiner_Step
  with assms show ?thesis by (auto simp: rtos_defs split: rtos_joiner_pc.splits if_splits)
next
  case (Ticks k)
  with assms show ?thesis by (auto simp: rtos_inv_def rtos_given_def split: rtos_joiner_pc.splits if_splits)
qed

lemma rtos_step_defined:
  assumes "rtos_inv n s"
  shows "rtos_step e s \<noteq> Undefined"
  using assms by (cases e) (auto simp: rtos_defs split: rtos_thread_pc.splits rtos_joiner_pc.splits if_splits)

interpretation rtos_join: join_protocol rtos_step rtos_inv event_ticks rtos_given "\<lambda>s. rl_joiner s = Rj_Done"
proof
  show "rtos_inv n s \<Longrightarrow> m \<le> n \<Longrightarrow> rtos_inv m s" for n m s
    by (auto simp: rtos_inv_def split: rtos_joiner_pc.splits)
  show "rtos_inv n s \<Longrightarrow> rtos_given s \<Longrightarrow> rl_joiner s \<noteq> Rj_Done \<Longrightarrow> rtos_step Joiner_Step s \<noteq> Blocks" for n s
    by (auto simp: rtos_inv_def rtos_task_join_life_def split: rtos_joiner_pc.splits if_splits)
  show "rtos_inv n s \<Longrightarrow> rl_joiner s = Rj_Done \<Longrightarrow> rtos_given s" for n s
    by (simp add: rtos_inv_def)
  show "event_ticks Joiner_Step = 0" by simp
qed (rule rtos_step_inv rtos_step_defined; assumption)+

text \<open>Without any limit on the time: as long as the joiner waits, the block and the semaphore exist.\<close>

definition rtos_waiting_ok :: "rtos_life \<Rightarrow> bool" where
  "rtos_waiting_ok s \<longleftrightarrow> (rl_joiner s = Rj_Call \<or> rl_joiner s = Rj_Wait \<longrightarrow> rl_block s \<and> rl_sem s = Some (rtos_given s))"

lemma rtos_run_waiting:
  assumes "run_schedule rtos_step es rtos_start = Returns s"
  shows "rtos_waiting_ok s"
proof (rule run_schedule_invariant [OF _ assms])
  show "rtos_waiting_ok rtos_start" by (simp add: rtos_waiting_ok_def rtos_start_def rtos_given_def)
  fix e s s' assume "rtos_waiting_ok s" "rtos_step e s = Returns s'"
  then show "rtos_waiting_ok s'"
    by (cases e) (auto simp: rtos_waiting_ok_def rtos_defs split: rtos_thread_pc.splits rtos_joiner_pc.splits if_splits)
qed

text \<open>A task whose control block is gone reaches it within two statements.\<close>

lemma freed_task_undefined:
  assumes "\<not> rl_block s" and "rl_joiner s = Rj_Done" and "\<not> rtos_given s"
    and "(if rl_thread s = Rt_Body then 2 else 1) \<le> count_list es Task_Step"
  shows "run_schedule rtos_step es s = Undefined"
  using assms
proof (induction es arbitrary: s)
  case (Cons e es)
  show ?case
  proof (cases e)
    case Task_Step
    show ?thesis
    proof (cases "rl_thread s")
      case Rt_Body
      let ?s = "s\<lparr>rl_thread := Rt_Give\<rparr>"
      have "run_schedule rtos_step es ?s = Undefined"
        using Cons.prems Task_Step Rt_Body by (intro Cons.IH) (simp_all add: rtos_given_def)
      then show ?thesis by (simp add: Task_Step Rt_Body task_trampoline_def)
    qed (use Cons.prems Task_Step in \<open>simp_all add: task_trampoline_def rtos_given_def\<close>)
  next
    case Joiner_Step
    then show ?thesis using Cons by (simp add: rtos_task_join_life_def)
  next
    case (Ticks n)
    then show ?thesis using Cons by simp
  qed
qed (simp split: if_splits)

section \<open>Properties\<close>

text \<open>
  C32. Joining a task is safe, for every interleaving of the task's thread with the joiner and any passing
  of time: on POSIX always, on FreeRTOS as long as less than \<open>portMAX_DELAY\<close> ticks (almost fifty days)
  pass in the schedule. No statement touches freed memory or a deleted semaphore; the join returns only after
  the task's function has returned, and then the control block and the semaphore are released; and once
  the task has ended the joiner is never blocked.
\<close>

theorem join_waits_for_the_task:
  "(\<exists>s. run_schedule posix_step es posix_start = Returns s \<and>
      (pl_joiner s = Jo_Done \<longrightarrow> pl_thread s = Th_Returned \<and> \<not> pl_block s) \<and>
      (pl_thread s = Th_Returned \<and> pl_joiner s \<noteq> Jo_Done \<longrightarrow> (\<exists>s'. posix_step Joiner_Step s = Returns s'))) \<and>
   (elapsed_ticks es < portMAX_DELAY \<longrightarrow>
    (\<exists>s. run_schedule rtos_step es rtos_start = Returns s \<and>
      (rl_joiner s = Rj_Done \<longrightarrow> rtos_given s \<and> \<not> rl_block s \<and> rl_sem s = None) \<and>
      (rtos_given s \<and> rl_joiner s \<noteq> Rj_Done \<longrightarrow> (\<exists>s'. rtos_step Joiner_Step s = Returns s'))))"
proof (intro conjI impI)
  have "posix_inv posix_start" by (simp add: posix_inv_def posix_start_def)
  from posix_join.schedule_joins_safely [OF this, of es 0]
  show "\<exists>s. run_schedule posix_step es posix_start = Returns s \<and>
      (pl_joiner s = Jo_Done \<longrightarrow> pl_thread s = Th_Returned \<and> \<not> pl_block s) \<and>
      (pl_thread s = Th_Returned \<and> pl_joiner s \<noteq> Jo_Done \<longrightarrow> (\<exists>s'. posix_step Joiner_Step s = Returns s'))"
    by (auto simp: posix_inv_def)
  assume "elapsed_ticks es < portMAX_DELAY"
  then have "rtos_inv (elapsed_ticks es) rtos_start" by (simp add: rtos_inv_def rtos_start_def rtos_given_def)
  from rtos_join.schedule_joins_safely [OF this, of es]
  show "\<exists>s. run_schedule rtos_step es rtos_start = Returns s \<and>
      (rl_joiner s = Rj_Done \<longrightarrow> rtos_given s \<and> \<not> rl_block s \<and> rl_sem s = None) \<and>
      (rtos_given s \<and> rl_joiner s \<noteq> Rj_Done \<longrightarrow> (\<exists>s'. rtos_step Joiner_Step s = Returns s'))"
    by (auto simp: elapsed_ticks_def rtos_inv_def)
qed

theorem join_waits_for_the_task_witness:
  "\<exists>s t. run_schedule posix_step [Joiner_Step, Task_Step, Task_Step, Joiner_Step, Joiner_Step] posix_start = Returns s \<and>
    pl_joiner s = Jo_Done \<and> pl_thread s = Th_Returned \<and> \<not> pl_block s \<and>
    run_schedule rtos_step
      [Joiner_Step, Task_Step, Joiner_Step, Ticks 70000, Task_Step, Task_Step, Joiner_Step, Joiner_Step, Joiner_Step]
      rtos_start = Returns t \<and> rl_joiner t = Rj_Done \<and> rtos_given t \<and> rl_sem t = None"
proof -
  let ?es = "[Joiner_Step, Task_Step, Task_Step, Joiner_Step, Joiner_Step]"
  let ?fs = "[Joiner_Step, Task_Step, Joiner_Step, Ticks 70000, Task_Step, Task_Step, Joiner_Step, Joiner_Step, Joiner_Step]"
  obtain s where s: "run_schedule posix_step ?es posix_start = Returns s" "pl_joiner s = Jo_Done"
    by (auto simp: posix_start_def thread_trampoline_def osal_task_join_def)
  obtain t where t: "run_schedule rtos_step ?fs rtos_start = Returns t" "rl_joiner t = Rj_Done"
    by (auto simp: rtos_start_def task_trampoline_def rtos_task_join_life_def portMAX_DELAY_def configUSE_16_BIT_TICKS_def)
  have "elapsed_ticks ?fs < portMAX_DELAY"
    by (simp add: elapsed_ticks_def portMAX_DELAY_def configUSE_16_BIT_TICKS_def)
  with join_waits_for_the_task [of ?es] join_waits_for_the_task [of ?fs] s t show ?thesis by auto
qed

text \<open>
  A task's name fits its 32 bytes and is terminated: whatever the length of the name, reading it
  back as a C string gives its first 31 characters, and a creation that returns no handle has
  allocated nothing.
\<close>

lemma task_name_is_terminated:
  assumes "CHR 0x00 \<notin> set name" and "osal_task_create calloc_ok pthread_ok name fn arg priority = (r, started)"
  shows "(r = None \<longleftrightarrow> \<not> calloc_ok) \<and> (r = None \<longrightarrow> \<not> started) \<and>
    (\<forall>t. r = Some t \<longrightarrow> length (tk_name t) = 32 \<and> c_string (tk_name t) = take 31 name \<and> tk_fn t = fn \<and> tk_arg t = arg)"
  using assms task_name [OF assms(1)] by (auto simp: osal_task_create_def split: if_splits)

text \<open>
  C40. With the board's kernel configuration a join ends before a task that takes too long: from every reachable
  state in which the joiner waits and the task has not signalled its end, once \<open>portMAX_DELAY\<close> ticks of
  waiting have passed the next three statements of the joiner delete the semaphore and free the control block of
  the task that still runs; and then every schedule in which the task executes two more statements touches the
  freed block.
\<close>

theorem join_timeout_frees_running_task:
  assumes "run_schedule rtos_step es rtos_start = Returns s" and "rl_joiner s = Rj_Wait" and "\<not> rtos_given s"
    and "portMAX_DELAY \<le> rl_waited s + n"
  shows "\<exists>s'. run_schedule rtos_step [Ticks n, Joiner_Step, Joiner_Step, Joiner_Step] s = Returns s' \<and>
    rl_joiner s' = Rj_Done \<and> \<not> rl_block s' \<and> rl_sem s' = None \<and> \<not> rtos_given s' \<and>
    (\<forall>fs. 2 \<le> count_list fs Task_Step \<longrightarrow> run_schedule rtos_step fs s' = Undefined)"
proof -
  let ?s = "s\<lparr>rl_waited := rl_waited s + n, rl_sem := None, rl_block := False, rl_joiner := Rj_Done\<rparr>"
  have "rl_block s" "rl_sem s = Some False" using rtos_run_waiting [OF assms(1)] assms(2,3) by (simp_all add: rtos_waiting_ok_def)
  then have "run_schedule rtos_step [Ticks n, Joiner_Step, Joiner_Step, Joiner_Step] s = Returns ?s"
    using assms(2,4) by (simp add: rtos_task_join_life_def INCLUDE_vTaskSuspend_def)
  moreover have "run_schedule rtos_step fs ?s = Undefined" if "2 \<le> count_list fs Task_Step" for fs
    using assms(3) that by (intro freed_task_undefined) (auto simp: rtos_given_def)
  ultimately show ?thesis using assms(3) by (intro exI [of _ ?s]) (simp add: rtos_given_def)
qed

theorem join_timeout_frees_running_task_witness:
  "\<exists>s. run_schedule rtos_step [Task_Step, Joiner_Step, Ticks 5, Ticks (2 ^ 32), Joiner_Step, Joiner_Step, Joiner_Step]
      rtos_start = Returns s \<and> \<not> rl_block s \<and> \<not> rtos_given s \<and>
    run_schedule rtos_step [Task_Step, Ticks 1, Task_Step] s = Undefined"
proof -
  obtain s where s: "run_schedule rtos_step [Task_Step, Joiner_Step, Ticks 5] rtos_start = Returns s"
    "rl_joiner s = Rj_Wait" "\<not> rtos_given s"
    by (auto simp: rtos_start_def task_trampoline_def rtos_task_join_life_def rtos_given_def)
  have "portMAX_DELAY \<le> rl_waited s + 2 ^ 32" by (simp add: portMAX_DELAY_def configUSE_16_BIT_TICKS_def)
  from join_timeout_frees_running_task [OF s this] obtain s' where
    s': "run_schedule rtos_step [Ticks (2 ^ 32), Joiner_Step, Joiner_Step, Joiner_Step] s = Returns s'"
    "\<not> rl_block s'" "\<not> rtos_given s'" "\<forall>fs. 2 \<le> count_list fs Task_Step \<longrightarrow> run_schedule rtos_step fs s' = Undefined"
    by blast
  have "run_schedule rtos_step ([Task_Step, Joiner_Step, Ticks 5] @ [Ticks (2 ^ 32), Joiner_Step, Joiner_Step, Joiner_Step])
      rtos_start = Returns s'"
    using s(1) s'(1) by (simp only: run_schedule_append outcome.case)
  moreover have "run_schedule rtos_step [Task_Step, Ticks 1, Task_Step] s' = Undefined"
    using s'(4) by (simp del: run_schedule.simps)
  ultimately show ?thesis using s'(2,3) by (intro exI [of _ s']) (simp del: run_schedule.simps)
qed

end
