(* ===== verification/Can_Harness.thy ===== *)
theory Can_Harness
  imports Can_Messages Logger
begin

text \<open>
  The two programs that drive the message layer from outside: the fuzzing harness
  \<open>fuzz/fuzz_can_protocol.c\<close>, which turns arbitrary bytes into a frame and decodes it with every
  decoder, and \<open>dbc/verify_dbc.c\<close>, which prints packed frames as text for the comparison with the
  signal database.
\<close>

section \<open>The fuzzing harness\<close>

definition fuzz_frame :: "u8 list \<Rightarrow> can_frame_t option" where
  "fuzz_frame bytes =
     (if length bytes < 5 then None
      else let payload_avail = length bytes - 5;
               copy_len = (if payload_avail < CAN_MAX_DLC then payload_avail else CAN_MAX_DLC)
           in Some (zero_frame\<lparr>can_id := push_bit 24 (ucast (bytes ! 0)) OR push_bit 16 (ucast (bytes ! 1))
                                 OR push_bit 8 (ucast (bytes ! 2)) OR ucast (bytes ! 3),
                              dlc := bytes ! 4,
                              data := take copy_len (drop 5 bytes) @ drop copy_len (data zero_frame)\<rparr>))"

text \<open>The return value is always 0; the results of the decoders are what the harness exercises.\<close>

definition LLVMFuzzerTestOneInput ::
  "u8 list \<Rightarrow> (bms_status_t option \<times> cell_voltages_t option \<times> fault_report_t option \<times> charge_command_t option) option" where
  "LLVMFuzzerTestOneInput bytes =
     map_option (\<lambda>frame. (can_protocol_unpack_status frame, can_protocol_unpack_cell_voltages frame,
       can_protocol_unpack_fault frame, can_protocol_unpack_charge_command frame)) (fuzz_frame bytes)"

lemma fuzz_frame_ok: "fuzz_frame bytes = Some f \<Longrightarrow> frame_ok f"
  by (auto simp: fuzz_frame_def frame_ok_def zero_frame_def config_defs Let_def split: if_splits)

text \<open>The decoders look at no byte past the tenth, whatever length the frame claims.\<close>

lemma decoders_read_ten_bytes:
  assumes "can_id g = can_id f" and "dlc g = dlc f" and "\<And>i. i < 10 \<Longrightarrow> data g ! i = data f ! i"
  shows "can_protocol_unpack_status g = can_protocol_unpack_status f"
    and "can_protocol_unpack_cell_voltages g = can_protocol_unpack_cell_voltages f"
    and "can_protocol_unpack_fault g = can_protocol_unpack_fault f"
    and "can_protocol_unpack_charge_command g = can_protocol_unpack_charge_command f"
  using assms
  by (simp_all add: can_protocol_unpack_status_def can_protocol_unpack_cell_voltages_def can_protocol_unpack_fault_def
      can_protocol_unpack_charge_command_def get_u16_def config_defs)

definition id_bytes :: "u32 \<Rightarrow> u8 list" where
  "id_bytes i = [ucast (drop_bit 24 i), ucast (drop_bit 16 i), ucast (drop_bit 8 i), ucast i]"

lemma id_bytes_join:
  "push_bit 24 (ucast (ucast (drop_bit 24 i) :: u8)) OR push_bit 16 (ucast (ucast (drop_bit 16 i) :: u8))
     OR push_bit 8 (ucast (ucast (drop_bit 8 i) :: u8)) OR ucast (ucast i :: u8) = (i :: u32)"
  (is "?join = i")
proof (rule bit_word_eqI)
  fix n assume n: "n < LENGTH(32)"
  consider "n < 8" | "8 \<le> n" "n < 16" | "16 \<le> n" "n < 24" | "24 \<le> n" by linarith
  then show "bit ?join n \<longleftrightarrow> bit i n" by cases (use n in \<open>auto simp: bit_simps\<close>)
qed

lemma fuzz_frame_surjective:
  assumes "frame_ok f"
  shows "fuzz_frame (id_bytes (can_id f) @ dlc f # data f) = Some f"
  using assms by (simp add: fuzz_frame_def id_bytes_def frame_ok_def Let_def id_bytes_join zero_frame_def config_defs)

section \<open>Printing frames\<close>

text \<open>Hexadecimal digits as \<open>%X\<close> prints them, and a minimal width filled with zeros.\<close>

definition hex_digit :: "nat \<Rightarrow> char" where
  "hex_digit d = char_of (if d < 10 then 48 + d else 55 + d)"

fun hex :: "nat \<Rightarrow> string" where
  "hex n = (if n < 16 then [hex_digit n] else hex (n div 16) @ [hex_digit (n mod 16)])"

declare hex.simps [simp del]

definition zero_pad :: "nat \<Rightarrow> string \<Rightarrow> string" where
  "zero_pad w s = replicate (w - length s) (CHR ''0'') @ s"

definition print_frame :: "can_frame_t \<Rightarrow> string" where
  "print_frame f =
     zero_pad 3 (hex (unat (can_id f))) @ '' '' @ decimal (unat (dlc f)) @ '' '' @
     concat (map (\<lambda>i. zero_pad 2 (hex (unat (data f ! i)))) [0..<unat (dlc f)]) @ ''\<newline>''"

definition verify_dbc_main :: "string list" where
  "verify_dbc_main =
     [print_frame (can_protocol_pack_status \<lparr>st_pack_voltage_mv = 18465, st_pack_current_ca = - 200,
        st_soc_percent_x2 = 196, st_state = bms_state_code BMS_STATE_SHUTDOWN\<rparr>),
      print_frame (can_protocol_pack_cell_voltages \<lparr>cv_cell_mv = [3650, 3700, 3695, 3712, 3680]\<rparr>),
      print_frame (can_protocol_pack_fault \<lparr>fr_fault_bitmask = 0x0009, fr_severity = 4\<rparr>)]"

section \<open>Reading a printed frame back\<close>

definition digit_value :: "char \<Rightarrow> nat" where
  "digit_value ch = (let v = of_char ch in if v < 58 then v - 48 else v - 55)"

definition number_value :: "nat \<Rightarrow> string \<Rightarrow> nat" where
  "number_value base s = foldl (\<lambda>n ch. n * base + digit_value ch) 0 s"

fun byte_pairs :: "string \<Rightarrow> nat list" where
  "byte_pairs (a # b # s) = number_value 16 [a, b] # byte_pairs s"
| "byte_pairs _ = []"

definition field :: "string \<Rightarrow> string \<times> string" where
  "field s = (let f = takeWhile (\<lambda>ch. ch \<noteq> CHR '' '' \<and> ch \<noteq> CHR ''\<newline>'') s in (f, drop (Suc (length f)) s))"

definition read_frame :: "string \<Rightarrow> nat \<times> nat \<times> nat list" where
  "read_frame line =
     (let (i, s1) = field line; (d, s2) = field s1; (b, s3) = field s2
      in (number_value 16 i, number_value 10 d, byte_pairs b))"

lemma number_value_snoc: "number_value b (s @ [ch]) = number_value b s * b + digit_value ch"
  by (simp add: number_value_def)

lemma digit_value_hex: "d < 16 \<Longrightarrow> digit_value (hex_digit d) = d"
  by (simp add: digit_value_def hex_digit_def of_char_of Let_def)

lemma number_value_hex: "number_value 16 (hex n) = n"
proof (induction n rule: hex.induct)
  case (1 n)
  show ?case
    using 1 by (subst hex.simps) (simp add: number_value_snoc digit_value_hex, simp add: number_value_def digit_value_hex)
qed

lemma number_value_decimal: "number_value 10 (decimal n) = n"
proof (induction n rule: decimal.induct)
  case (1 n)
  have "digit_value (char_of (48 + d)) = d" if "d < 10" for d :: nat
    using that by (simp add: digit_value_def of_char_of Let_def)
  then show ?case
    using 1 by (subst decimal.simps) (simp add: number_value_snoc, simp add: number_value_def)
qed

lemma number_value_zero_pad: "number_value b (zero_pad w s) = number_value b s"
proof -
  have "foldl (\<lambda>n ch. n * b + digit_value ch) 0 (replicate k (CHR ''0'')) = 0" for k
    by (induction k) (simp_all add: digit_value_def)
  then show ?thesis by (simp add: number_value_def zero_pad_def)
qed

text \<open>Digits contain neither a space nor a line end, so the fields of a line are found again.\<close>

definition plain :: "char \<Rightarrow> bool" where
  "plain ch \<longleftrightarrow> ch \<noteq> CHR '' '' \<and> ch \<noteq> CHR ''\<newline>''"

lemma plain_char_of: "48 \<le> n \<Longrightarrow> n < 256 \<Longrightarrow> plain (char_of n)" for n :: nat
proof -
  assume n: "48 \<le> n" "n < 256"
  have "char_of n \<noteq> ch" if "of_char ch < (48 :: nat)" for ch
  proof
    assume "char_of n = ch"
    then have "(of_char (char_of n :: char) :: nat) = of_char ch" by (rule arg_cong)
    with n that show False by (simp add: of_char_of)
  qed
  from this [of "CHR '' ''"] this [of "CHR ''\<newline>''"] show ?thesis by (simp add: plain_def)
qed

lemma plain_hex: "\<forall>ch\<in>set (hex n). plain ch"
proof (induction n rule: hex.induct)
  case (1 n)
  have "plain (hex_digit d)" if "d < 16" for d using that by (simp add: hex_digit_def plain_char_of)
  then show ?case using 1 by (subst hex.simps) simp
qed

lemma plain_decimal: "\<forall>ch\<in>set (decimal n). plain ch"
proof (induction n rule: decimal.induct)
  case (1 n)
  have "plain (char_of (48 + d))" if "d < 10" for d :: nat using that by (intro plain_char_of) simp_all
  then show ?case using 1 by (subst decimal.simps) simp
qed

lemma plain_zero_pad: "\<forall>ch\<in>set s. plain ch \<Longrightarrow> \<forall>ch\<in>set (zero_pad w s). plain ch"
proof -
  have "plain (CHR ''0'')" by (simp add: plain_def)
  then show "\<forall>ch\<in>set s. plain ch \<Longrightarrow> \<forall>ch\<in>set (zero_pad w s). plain ch" unfolding zero_pad_def by auto
qed

lemma field_append:
  assumes "\<forall>ch\<in>set s. plain ch" and "sep = CHR '' '' \<or> sep = CHR ''\<newline>''"
  shows "field (s @ sep # rest) = (s, rest)"
proof -
  have "takeWhile (\<lambda>ch. ch \<noteq> CHR '' '' \<and> ch \<noteq> CHR ''\<newline>'') (s @ sep # rest) = s"
    using assms by (induction s) (auto simp: plain_def)
  then show ?thesis by (simp add: field_def)
qed

lemma length_hex_byte: "n < 256 \<Longrightarrow> length (zero_pad 2 (hex n)) = 2"
proof -
  assume n: "n < 256"
  show ?thesis
  proof (cases "n < 16")
    case True
    then show ?thesis by (simp add: zero_pad_def hex.simps [of n])
  next
    case False
    moreover have "n div 16 < 16" using n by (simp add: less_mult_imp_div_less)
    ultimately show ?thesis by (simp add: zero_pad_def hex.simps [of n] hex.simps [of "n div 16"])
  qed
qed

lemma byte_pairs_bytes:
  "byte_pairs (concat (map (\<lambda>b. zero_pad 2 (hex (unat b))) bs)) = map unat (bs :: u8 list)"
proof (induction bs)
  case (Cons b bs)
  have "unat b < 256" using unsigned_less [of b] by simp
  from length_hex_byte [OF this] obtain x y where xy: "zero_pad 2 (hex (unat b)) = [x, y]"
    by (auto simp: length_Suc_conv numeral_2_eq_2)
  then have "number_value 16 [x, y] = unat b" using number_value_zero_pad number_value_hex by metis
  with Cons xy show ?case by simp
qed simp

section \<open>Properties\<close>

text \<open>
  C35. The fuzzing harness covers the decoders and the decoders survive it: every frame, also one whose
  length field exceeds its 64 bytes, is the frame of some input; the frame of every input of at least
  five bytes is well formed and decodes to values of the declared types, with exactly five cells in
  a cell-voltage message; and no decoder depends on a byte past the tenth, so none reads past the frame.
\<close>

theorem fuzz_inputs_are_frames:
  "(fuzz_frame bytes = None \<longleftrightarrow> length bytes < 5) \<and>
   (\<forall>f. fuzz_frame bytes = Some f \<longrightarrow> frame_ok f \<and>
      (\<forall>cv. can_protocol_unpack_cell_voltages f = Some cv \<longrightarrow> length (cv_cell_mv cv) = BMS_CELL_COUNT) \<and>
      (\<forall>g. can_id g = can_id f \<and> dlc g = dlc f \<and> (\<forall>i<10. data g ! i = data f ! i) \<longrightarrow>
        LLVMFuzzerTestOneInput bytes = Some (can_protocol_unpack_status g, can_protocol_unpack_cell_voltages g,
          can_protocol_unpack_fault g, can_protocol_unpack_charge_command g))) \<and>
   (\<forall>f. frame_ok f \<longrightarrow> (\<exists>input. fuzz_frame input = Some f))"
proof (intro conjI allI impI)
  show "fuzz_frame bytes = None \<longleftrightarrow> length bytes < 5" by (simp add: fuzz_frame_def Let_def)
  fix f assume f: "fuzz_frame bytes = Some f"
  show "frame_ok f" by (rule fuzz_frame_ok [OF f])
  show "length (cv_cell_mv cv) = BMS_CELL_COUNT" if "can_protocol_unpack_cell_voltages f = Some cv" for cv
    using that by (auto simp: can_protocol_unpack_cell_voltages_def split: if_splits)
  show "LLVMFuzzerTestOneInput bytes = Some (can_protocol_unpack_status g, can_protocol_unpack_cell_voltages g,
          can_protocol_unpack_fault g, can_protocol_unpack_charge_command g)"
    if "can_id g = can_id f \<and> dlc g = dlc f \<and> (\<forall>i<10. data g ! i = data f ! i)" for g
    using decoders_read_ten_bytes [of g f] that by (simp add: LLVMFuzzerTestOneInput_def f)
next
  fix f assume "frame_ok f"
  then show "\<exists>input. fuzz_frame input = Some f" using fuzz_frame_surjective by blast
qed

theorem fuzz_inputs_are_frames_witness:
  "\<exists>f. fuzz_frame [0, 0, 1, 1, 255, 14] = Some f \<and> frame_ok f \<and>
    (\<exists>input. fuzz_frame input = Some (zero_frame\<lparr>dlc := 200\<rparr>))"
proof -
  have "frame_ok (zero_frame\<lparr>dlc := 200\<rparr>)" by (simp add: frame_ok_def zero_frame_def)
  with fuzz_inputs_are_frames [of "[0, 0, 1, 1, 255, 14]"] show ?thesis by auto
qed

text \<open>
  A printed frame carries the whole message: for every frame whose length field fits its data,
  splitting the line that \<open>print_frame\<close> prints at its spaces and reading the fields as hexadecimal
  and decimal numbers gives back the identifier, the length and exactly that many data bytes.
\<close>

lemma printed_frame_reads_back:
  assumes "frame_ok f" and "unat (dlc f) \<le> CAN_MAX_DLC"
  shows "read_frame (print_frame f) = (unat (can_id f), unat (dlc f), map unat (take (unat (dlc f)) (data f)))"
proof -
  let ?bytes = "concat (map (\<lambda>b. zero_pad 2 (hex (unat b))) (take (unat (dlc f)) (data f)))"
  have "map (\<lambda>i. zero_pad 2 (hex (unat (data f ! i)))) [0..<unat (dlc f)] =
      map (\<lambda>b. zero_pad 2 (hex (unat b))) (take (unat (dlc f)) (data f))"
    using assms by (intro nth_equalityI) (simp_all add: frame_ok_def)
  then have line: "print_frame f = zero_pad 3 (hex (unat (can_id f))) @ CHR '' '' # decimal (unat (dlc f)) @ CHR '' '' # ?bytes @ ''\<newline>''"
    by (simp add: print_frame_def)
  have "\<forall>ch\<in>set ?bytes. plain ch" using plain_zero_pad plain_hex by auto
  then have "field (?bytes @ ''\<newline>'') = (?bytes, [])" using field_append [of ?bytes "CHR ''\<newline>''" "[]"] by simp
  moreover have "field (decimal (unat (dlc f)) @ CHR '' '' # s) = (decimal (unat (dlc f)), s)" for s
    by (rule field_append) (use plain_decimal in auto)
  moreover have "field (zero_pad 3 (hex (unat (can_id f))) @ CHR '' '' # s) = (zero_pad 3 (hex (unat (can_id f))), s)" for s
    by (rule field_append) (use plain_zero_pad plain_hex in auto)
  ultimately show ?thesis
    by (simp add: read_frame_def line number_value_zero_pad number_value_hex number_value_decimal byte_pairs_bytes)
qed

end
