(* ===== verification/Board_Startup.thy ===== *)
theory Board_Startup
  imports Bms_Prelude
begin

text \<open>
  The startup code of the emulated board, \<open>targets/qemu_mps2_an385/startup.c\<close>: the vector table, and
  the two loops of \<open>Reset_Handler\<close> that fill the initialised data from flash and clear the rest.
  Memory maps the address of an aligned word to its value. The loops compare 32-bit addresses, so in
  this model they need not end; that they do, for the layouts the linker script produces, is proved.
\<close>

section \<open>The vector table\<close>

datatype vector_entry =
  Stack_Top | Reset_Entry | Default_Entry | HardFault_Entry | Reserved | SVCall_Entry | PendSV_Entry | SysTick_Entry

definition isr_vector :: "vector_entry list" where
  "isr_vector = [Stack_Top, Reset_Entry, Default_Entry, HardFault_Entry, Default_Entry, Default_Entry, Default_Entry,
     Reserved, Reserved, Reserved, Reserved, SVCall_Entry, Default_Entry, Reserved, PendSV_Entry, SysTick_Entry]"

section \<open>The loops of the reset handler\<close>

type_synonym memory = "u32 \<Rightarrow> u32"

partial_function (option) copy_data :: "u32 \<Rightarrow> u32 \<Rightarrow> u32 \<Rightarrow> memory \<Rightarrow> memory option" where
  "copy_data edata src dst mem =
     (if dst < edata then copy_data edata (src + 4) (dst + 4) (mem(dst := mem src)) else Some mem)"

partial_function (option) zero_bss :: "u32 \<Rightarrow> u32 \<Rightarrow> memory \<Rightarrow> memory option" where
  "zero_bss ebss dst mem = (if dst < ebss then zero_bss ebss (dst + 4) (mem(dst := 0)) else Some mem)"

record layout =
  l_sidata :: u32
  l_sdata :: u32
  l_edata :: u32
  l_sbss :: u32
  l_ebss :: u32

text \<open>The memory with which \<open>main\<close> starts.\<close>

definition Reset_Handler :: "layout \<Rightarrow> memory \<Rightarrow> memory option" where
  "Reset_Handler l mem =
     (case copy_data (l_edata l) (l_sidata l) (l_sdata l) mem of
        None \<Rightarrow> None | Some mem1 \<Rightarrow> zero_bss (l_ebss l) (l_sbss l) mem1)"

section \<open>What the loops do\<close>

definition word_at :: "u32 \<Rightarrow> nat \<Rightarrow> u32" where
  "word_at base i = base + of_nat (4 * i)"

text \<open>The number of words a loop from \<open>b\<close> to \<open>e\<close> touches: the last one may reach past \<open>e\<close>.\<close>

definition words_to :: "u32 \<Rightarrow> u32 \<Rightarrow> nat" where
  "words_to b e = (unat e - unat b + 3) div 4"

lemma unat_word_at: "unat b + 4 * i < 2 ^ 32 \<Longrightarrow> unat (word_at b i) = unat b + 4 * i"
proof -
  assume lt: "unat b + 4 * i < 2 ^ 32"
  then have "unat (of_nat (4 * i) :: u32) = 4 * i" by (simp add: unat_of_nat del: of_nat_mult)
  with lt show ?thesis unfolding word_at_def by (subst unat_add_lem [THEN iffD1]) simp_all
qed

lemma word_at_Suc: "word_at b (Suc i) = word_at (b + 4) i"
  by (simp add: word_at_def algebra_simps)

lemma word_at_0 [simp]: "word_at b 0 = b"
  by (simp add: word_at_def)

lemma unat_plus_4: "unat b + 4 < 2 ^ 32 \<Longrightarrow> unat (b + 4) = unat b + 4" for b :: u32
  using unat_word_at [of b 1] by (simp add: word_at_def)

lemma div4_step: "0 < d \<Longrightarrow> (d + 3) div 4 = Suc n \<Longrightarrow> (d - 4 + 3) div 4 = n" for d n :: nat
proof -
  assume d: "0 < d" "(d + 3) div 4 = Suc n"
  show ?thesis
  proof (cases "4 \<le> d")
    case True
    then obtain k where "d = 4 + k" using le_Suc_ex by blast
    with d show ?thesis by simp
  next
    case False
    with d show ?thesis by (simp add: div_nat_eqI)
  qed
qed

lemma words_to_Suc:
  assumes "words_to b e = Suc n" and "unat b + 4 * Suc n < 2 ^ 32"
  shows "b < e" and "words_to (b + 4) e = n"
proof -
  have "unat b < unat e" using assms(1) by (cases "unat b < unat e") (simp_all add: words_to_def)
  then show "b < e" by (simp add: word_less_nat_alt)
  have "unat (b + 4) = unat b + 4" using assms(2) by (intro unat_plus_4) simp
  moreover define d where "d = unat e - unat b"
  ultimately have "words_to (b + 4) e = (d - 4 + 3) div 4" by (simp add: words_to_def)
  moreover have "0 < d" "(d + 3) div 4 = Suc n"
    using assms(1) \<open>unat b < unat e\<close> by (simp_all add: words_to_def d_def)
  ultimately show "words_to (b + 4) e = n" using div4_step [of d n] by simp
qed

lemma words_to_0: "words_to b e = 0 \<Longrightarrow> \<not> b < e"
  by (simp add: words_to_def word_less_nat_alt)

lemma zero_bss_clears:
  assumes "words_to b e = n" and "unat b + 4 * n < 2 ^ 32"
  shows "\<exists>mem'. zero_bss e b mem = Some mem' \<and> (\<forall>i<n. mem' (word_at b i) = 0) \<and>
    (\<forall>a. (\<forall>i<n. a \<noteq> word_at b i) \<longrightarrow> mem' a = mem a)"
  using assms
proof (induction n arbitrary: b mem)
  case 0
  then show ?case using words_to_0 by (subst zero_bss.simps) simp
next
  case (Suc n)
  note step = words_to_Suc [OF Suc.prems]
  have "unat (b + 4) + 4 * n < 2 ^ 32" using Suc.prems(2) unat_plus_4 [of b] by simp
  from Suc.IH [OF step(2) this, of "mem(b := 0)"] obtain mem' where
    m: "zero_bss e (b + 4) (mem(b := 0)) = Some mem'" "\<forall>i<n. mem' (word_at (b + 4) i) = 0"
       "\<forall>a. (\<forall>i<n. a \<noteq> word_at (b + 4) i) \<longrightarrow> mem' a = (mem(b := 0)) a" by blast
  have b: "b \<noteq> word_at (b + 4) i" if "i < n" for i
    using unat_word_at [of b "Suc i"] Suc.prems(2) that by (auto simp flip: word_at_Suc)
  have "zero_bss e b mem = Some mem'" using step(1) m(1) by (subst zero_bss.simps) simp
  moreover have "mem' (word_at b i) = 0" if "i < Suc n" for i
    using that m(2,3) b by (cases i) (auto simp: word_at_Suc)
  moreover have "mem' a = mem a" if "\<forall>i<Suc n. a \<noteq> word_at b i" for a
  proof -
    have "a \<noteq> b" using that [rule_format, of 0] by simp
    moreover have "\<forall>i<n. a \<noteq> word_at (b + 4) i" using that by (auto simp flip: word_at_Suc)
    ultimately show ?thesis using m(3) by simp
  qed
  ultimately show ?case by blast
qed

lemma copy_data_copies:
  assumes "words_to b e = n" and "unat b + 4 * n < 2 ^ 32" and "unat s + 4 * n \<le> unat b"
  shows "\<exists>mem'. copy_data e s b mem = Some mem' \<and> (\<forall>i<n. mem' (word_at b i) = mem (word_at s i)) \<and>
    (\<forall>a. (\<forall>i<n. a \<noteq> word_at b i) \<longrightarrow> mem' a = mem a)"
  using assms
proof (induction n arbitrary: b s mem)
  case 0
  then show ?case using words_to_0 by (subst copy_data.simps) simp
next
  case (Suc n)
  note step = words_to_Suc [OF Suc.prems(1,2)]
  have b4: "unat (b + 4) = unat b + 4" "unat (s + 4) = unat s + 4" using Suc.prems(2,3) unat_plus_4 by simp_all
  then have "unat (b + 4) + 4 * n < 2 ^ 32" "unat (s + 4) + 4 * n \<le> unat (b + 4)" using Suc.prems(2,3) by simp_all
  from Suc.IH [OF step(2) this, of "mem(b := mem s)"] obtain mem' where
    m: "copy_data e (s + 4) (b + 4) (mem(b := mem s)) = Some mem'"
       "\<forall>i<n. mem' (word_at (b + 4) i) = (mem(b := mem s)) (word_at (s + 4) i)"
       "\<forall>a. (\<forall>i<n. a \<noteq> word_at (b + 4) i) \<longrightarrow> mem' a = (mem(b := mem s)) a" by blast
  have b: "b \<noteq> word_at (b + 4) i" if "i < n" for i
    using unat_word_at [of b "Suc i"] Suc.prems(2) that by (auto simp flip: word_at_Suc)
  have s: "b \<noteq> word_at (s + 4) i" if "i < n" for i
    using unat_word_at [of s "Suc i"] Suc.prems(2,3) that by (auto simp flip: word_at_Suc)
  have "copy_data e s b mem = Some mem'" using step(1) m(1) by (subst copy_data.simps) simp
  moreover have "mem' (word_at b i) = mem (word_at s i)" if "i < Suc n" for i
    using that m(2,3) b s by (cases i) (auto simp: word_at_Suc)
  moreover have "mem' a = mem a" if "\<forall>i<Suc n. a \<noteq> word_at b i" for a
  proof -
    have "a \<noteq> b" using that [rule_format, of 0] by simp
    moreover have "\<forall>i<n. a \<noteq> word_at (b + 4) i" using that by (auto simp flip: word_at_Suc)
    ultimately show ?thesis using m(3) by simp
  qed
  ultimately show ?case by blast
qed

text \<open>
  What the linker script guarantees: the initial values lie in flash below the data in RAM, the cleared
  region follows the data, and both end before the end of the address space.
\<close>

definition layout_ok :: "layout \<Rightarrow> bool" where
  "layout_ok l \<longleftrightarrow>
     unat (l_sidata l) + 4 * words_to (l_sdata l) (l_edata l) \<le> unat (l_sdata l) \<and>
     unat (l_sdata l) + 4 * words_to (l_sdata l) (l_edata l) \<le> unat (l_sbss l) \<and>
     unat (l_sbss l) + 4 * words_to (l_sbss l) (l_ebss l) < 2 ^ 32"

lemma vector_positions:
  "length isr_vector = 16 \<and> isr_vector ! 1 = Reset_Entry \<and> isr_vector ! 3 = HardFault_Entry \<and>
   isr_vector ! 11 = SVCall_Entry \<and> isr_vector ! 14 = PendSV_Entry \<and> isr_vector ! 15 = SysTick_Entry"
  by (simp add: isr_vector_def)

section \<open>Properties\<close>

text \<open>
  C33. The reset handler reaches its call of \<open>main\<close>, and with the right memory: for every layout that the
  linker script can produce, both loops end, every word of the initialised data has its value from
  flash, every word of the cleared region is zero, and no other word has changed.
\<close>

theorem reset_handler_initialises_memory:
  assumes "layout_ok l"
  shows "\<exists>mem'. Reset_Handler l mem = Some mem' \<and>
    (\<forall>i<words_to (l_sdata l) (l_edata l). mem' (word_at (l_sdata l) i) = mem (word_at (l_sidata l) i)) \<and>
    (\<forall>i<words_to (l_sbss l) (l_ebss l). mem' (word_at (l_sbss l) i) = 0) \<and>
    (\<forall>a. (\<forall>i<words_to (l_sdata l) (l_edata l). a \<noteq> word_at (l_sdata l) i) \<and>
         (\<forall>i<words_to (l_sbss l) (l_ebss l). a \<noteq> word_at (l_sbss l) i) \<longrightarrow> mem' a = mem a)"
proof -
  define nd where "nd = words_to (l_sdata l) (l_edata l)"
  define nb where "nb = words_to (l_sbss l) (l_ebss l)"
  have lay: "unat (l_sidata l) + 4 * nd \<le> unat (l_sdata l)" "unat (l_sdata l) + 4 * nd \<le> unat (l_sbss l)"
    "unat (l_sbss l) + 4 * nb < 2 ^ 32" "unat (l_sdata l) + 4 * nd < 2 ^ 32"
    using assms unsigned_less [of "l_sbss l"] by (simp_all add: layout_ok_def nd_def nb_def)
  obtain mem1 where m1: "copy_data (l_edata l) (l_sidata l) (l_sdata l) mem = Some mem1"
    "\<forall>i<nd. mem1 (word_at (l_sdata l) i) = mem (word_at (l_sidata l) i)"
    "\<forall>a. (\<forall>i<nd. a \<noteq> word_at (l_sdata l) i) \<longrightarrow> mem1 a = mem a"
    using copy_data_copies [OF nd_def [symmetric] lay(4,1)] by blast
  obtain mem2 where m2: "zero_bss (l_ebss l) (l_sbss l) mem1 = Some mem2" "\<forall>i<nb. mem2 (word_at (l_sbss l) i) = 0"
    "\<forall>a. (\<forall>i<nb. a \<noteq> word_at (l_sbss l) i) \<longrightarrow> mem2 a = mem1 a"
    using zero_bss_clears [OF nb_def [symmetric] lay(3)] by blast
  have apart: "word_at (l_sdata l) i \<noteq> word_at (l_sbss l) j" if "i < nd" "j < nb" for i j
    using that lay unat_word_at [of "l_sdata l" i] unat_word_at [of "l_sbss l" j] by auto
  have "Reset_Handler l mem = Some mem2" using m1(1) m2(1) by (simp add: Reset_Handler_def)
  moreover have "mem2 (word_at (l_sdata l) i) = mem (word_at (l_sidata l) i)" if "i < nd" for i
    using that m1(2) m2(3) apart by simp
  ultimately show ?thesis using m1(3) m2(2,3) unfolding nd_def [symmetric] nb_def [symmetric] by auto
qed

theorem reset_handler_initialises_memory_witness:
  "\<exists>mem'. Reset_Handler \<lparr>l_sidata = 0x1000, l_sdata = 0x20000000, l_edata = 0x20000006, l_sbss = 0x20000008,
      l_ebss = 0x20000010\<rparr> (\<lambda>a. a + 1) = Some mem' \<and> mem' 0x20000004 = 0x1005 \<and> mem' 0x2000000C = 0"
proof -
  define l where "l = \<lparr>l_sidata = 0x1000, l_sdata = 0x20000000, l_edata = 0x20000006, l_sbss = 0x20000008,
      l_ebss = 0x20000010\<rparr>"
  have n: "words_to (l_sdata l) (l_edata l) = 2" "words_to (l_sbss l) (l_ebss l) = 2"
    by (simp_all add: l_def words_to_def)
  then have "layout_ok l" by (simp add: layout_ok_def) (simp add: l_def)
  from reset_handler_initialises_memory [OF this, of "\<lambda>a. a + 1"] obtain mem' where
    m: "Reset_Handler l (\<lambda>a. a + 1) = Some mem'"
       "\<forall>i<2. mem' (word_at (l_sdata l) i) = word_at (l_sidata l) i + 1" "\<forall>i<2. mem' (word_at (l_sbss l) i) = 0"
    unfolding n by blast
  from m(2) [rule_format, of 1] m(3) [rule_format, of 1] m(1) show ?thesis
    unfolding l_def [symmetric] by (simp add: word_at_def) (simp add: l_def)
qed

end
