(* ===== verification/Osal_Freertos.thy ===== *)
theory Osal_Freertos
  imports Osal_Mutex
begin

text \<open>
  The FreeRTOS implementation of the OS abstraction layer, \<open>src/osal/osal_freertos.c\<close>, as far as
  it has logic of its own: the order in which it allocates, and what it releases on each error path.
  The kernel's calls are arguments (whether an allocation or creation succeeds, the conversion to
  ticks, the queue calls). The state counts what is allocated.
\<close>

section \<open>Resources\<close>

record rtos =
  heap_blocks :: nat
  semaphores :: nat
  running_tasks :: nat
  queues :: nat

record rtos_task =
  task_priority :: nat

section \<open>Operations\<close>

definition pvPortMalloc :: "rtos \<Rightarrow> rtos" where
  "pvPortMalloc r = r\<lparr>heap_blocks := heap_blocks r + 1\<rparr>"

definition vPortFree :: "rtos \<Rightarrow> rtos" where
  "vPortFree r = r\<lparr>heap_blocks := heap_blocks r - 1\<rparr>"

definition sem_create :: "rtos \<Rightarrow> rtos" where
  "sem_create r = r\<lparr>semaphores := semaphores r + 1\<rparr>"

definition sem_delete :: "rtos \<Rightarrow> rtos" where
  "sem_delete r = r\<lparr>semaphores := semaphores r - 1\<rparr>"

definition rtos_task_create :: "bool \<Rightarrow> bool \<Rightarrow> bool \<Rightarrow> nat \<Rightarrow> rtos \<Rightarrow> rtos_task option \<times> rtos" where
  "rtos_task_create malloc_ok sem_ok create_ok priority r =
     (if \<not> malloc_ok then (None, r)
      else let r1 = pvPortMalloc r
           in if \<not> sem_ok then (None, vPortFree r1)
              else let r2 = sem_create r1
                   in if \<not> create_ok then (None, vPortFree (sem_delete r2))
                      else (Some \<lparr>task_priority = priority + 1\<rparr>, r2\<lparr>running_tasks := running_tasks r2 + 1\<rparr>))"

text \<open>The trampoline runs the task's function, gives the semaphore and deletes the task.\<close>

definition rtos_task_trampoline_end :: "rtos \<Rightarrow> rtos" where
  "rtos_task_trampoline_end r = r\<lparr>running_tasks := running_tasks r - 1\<rparr>"

definition rtos_task_join :: "rtos_task option \<Rightarrow> rtos \<Rightarrow> rtos" where
  "rtos_task_join t r = (case t of None \<Rightarrow> r | Some _ \<Rightarrow> vPortFree (sem_delete r))"

definition rtos_get_tick_ms :: "u32 \<Rightarrow> u32 \<Rightarrow> u32" where
  "rtos_get_tick_ms xTaskGetTickCount portTICK_PERIOD_MS = xTaskGetTickCount * portTICK_PERIOD_MS"

definition rtos_queue_create :: "bool \<Rightarrow> bool \<Rightarrow> rtos \<Rightarrow> bool \<times> rtos" where
  "rtos_queue_create malloc_ok create_ok r =
     (if \<not> malloc_ok then (False, r)
      else let r1 = pvPortMalloc r
           in if \<not> create_ok then (False, vPortFree r1) else (True, r1\<lparr>queues := queues r1 + 1\<rparr>))"

definition rtos_queue_send :: "('i \<Rightarrow> u32 \<Rightarrow> bool) \<Rightarrow> (u32 \<Rightarrow> u32) \<Rightarrow> 'i \<Rightarrow> u32 \<Rightarrow> int" where
  "rtos_queue_send xQueueSend pdMS_TO_TICKS item timeout_ms =
     (if xQueueSend item (pdMS_TO_TICKS timeout_ms) then 1 else 0)"

definition rtos_queue_receive :: "(u32 \<Rightarrow> 'i option) \<Rightarrow> (u32 \<Rightarrow> u32) \<Rightarrow> u32 \<Rightarrow> int \<times> 'i option" where
  "rtos_queue_receive xQueueReceive pdMS_TO_TICKS timeout_ms =
     (case xQueueReceive (pdMS_TO_TICKS timeout_ms) of None \<Rightarrow> (0, None) | Some item \<Rightarrow> (1, Some item))"

definition rtos_mutex_create :: "bool \<Rightarrow> bool \<Rightarrow> rtos \<Rightarrow> bool \<times> rtos" where
  "rtos_mutex_create malloc_ok create_ok r =
     (if \<not> malloc_ok then (False, r)
      else let r1 = pvPortMalloc r
           in if \<not> create_ok then (False, vPortFree r1) else (True, sem_create r1))"

definition rtos_mutex_destroy :: "bool \<Rightarrow> rtos \<Rightarrow> rtos" where
  "rtos_mutex_destroy m r = (if \<not> m then r else vPortFree (sem_delete r))"

section \<open>Calls passed on to the kernel\<close>

text \<open>The ticks that \<open>osal_task_delay_ms\<close> hands to \<open>vTaskDelay\<close>.\<close>

definition rtos_task_delay_ms :: "(u32 \<Rightarrow> u32) \<Rightarrow> u32 \<Rightarrow> u32" where
  "rtos_task_delay_ms pdMS_TO_TICKS ms = pdMS_TO_TICKS ms"

record 'h rtos_mutex =
  rm_handle :: 'h

definition rtos_mutex_lock :: "('t \<Rightarrow> 'h \<Rightarrow> 'h outcome) \<Rightarrow> 't \<Rightarrow> 'h rtos_mutex \<Rightarrow> 'h rtos_mutex outcome" where
  "rtos_mutex_lock xSemaphoreTake t m = map_outcome (\<lambda>h. m\<lparr>rm_handle := h\<rparr>) (xSemaphoreTake t (rm_handle m))"

definition rtos_mutex_unlock :: "('t \<Rightarrow> 'h \<Rightarrow> 'h outcome) \<Rightarrow> 't \<Rightarrow> 'h rtos_mutex \<Rightarrow> 'h rtos_mutex outcome" where
  "rtos_mutex_unlock xSemaphoreGive t m = map_outcome (\<lambda>h. m\<lparr>rm_handle := h\<rparr>) (xSemaphoreGive t (rm_handle m))"

text \<open>The scheduler's start is the kernel's; the shutdown flag is a variable, as in the POSIX port.\<close>

definition rtos_start_scheduler :: "('s \<Rightarrow> 's) \<Rightarrow> 's \<Rightarrow> 's" where
  "rtos_start_scheduler vTaskStartScheduler s = vTaskStartScheduler s"

definition rtos_request_shutdown :: "bool \<Rightarrow> bool" where
  "rtos_request_shutdown g_shutdown = True"

definition rtos_is_shutdown_requested :: "bool \<Rightarrow> bool" where
  "rtos_is_shutdown_requested g_shutdown = g_shutdown"

text \<open>If the kernel's mutex meets the contract of \<open>Osal_Mutex\<close>, so does the one of the OS layer.\<close>

lemma rtos_mutex_contract:
  assumes "mutex_contract xSemaphoreTake xSemaphoreGive owner alive"
  shows "mutex_contract (rtos_mutex_lock xSemaphoreTake) (rtos_mutex_unlock xSemaphoreGive)
    (\<lambda>m. owner (rm_handle m)) (\<lambda>m. alive (rm_handle m))"
proof
  note c = mutex_contract.lock_returns [OF assms] mutex_contract.lock_free [OF assms]
    mutex_contract.unlock_returns [OF assms] mutex_contract.unlock_owner [OF assms]
  show "rtos_mutex_lock xSemaphoreTake t m = Returns m' \<Longrightarrow>
      owner (rm_handle m) = None \<and> owner (rm_handle m') = Some t \<and> alive (rm_handle m')" for t m m'
    using c(1) by (auto simp: rtos_mutex_lock_def)
  show "alive (rm_handle m) \<Longrightarrow> owner (rm_handle m) = None \<Longrightarrow> \<exists>m'. rtos_mutex_lock xSemaphoreTake t m = Returns m'" for t m
    using c(2) [of "rm_handle m" t] by (auto simp: rtos_mutex_lock_def)
  show "rtos_mutex_unlock xSemaphoreGive t m = Returns m' \<Longrightarrow>
      owner (rm_handle m) = Some t \<and> owner (rm_handle m') = None \<and> alive (rm_handle m')" for t m m'
    using c(3) by (auto simp: rtos_mutex_unlock_def)
  show "alive (rm_handle m) \<Longrightarrow> owner (rm_handle m) = Some t \<Longrightarrow> \<exists>m'. rtos_mutex_unlock xSemaphoreGive t m = Returns m'" for t m
    using c(4) [of "rm_handle m" t] by (auto simp: rtos_mutex_unlock_def)
qed

section \<open>Resource balance\<close>

lemmas rtos_defs = pvPortMalloc_def vPortFree_def sem_create_def sem_delete_def rtos_task_create_def
  rtos_task_join_def rtos_task_trampoline_end_def rtos_queue_create_def rtos_mutex_create_def
  rtos_mutex_destroy_def

text \<open>A failed creation leaves the kernel's resources as they were, on every error path.\<close>

lemma rtos_failure_releases:
  "fst (rtos_task_create m s c p r) = None \<Longrightarrow> snd (rtos_task_create m s c p r) = r"
  "fst (rtos_queue_create m c r) = False \<Longrightarrow> snd (rtos_queue_create m c r) = r"
  "fst (rtos_mutex_create m c r) = False \<Longrightarrow> snd (rtos_mutex_create m c r) = r"
  by (auto simp: rtos_defs Let_def split: if_splits)

text \<open>Creating a task, letting it end and joining it is neutral; so is a mutex's life.\<close>

lemma rtos_task_life_balanced:
  "rtos_task_join (fst (rtos_task_create m s c p r))
     (case fst (rtos_task_create m s c p r) of None \<Rightarrow> snd (rtos_task_create m s c p r)
      | Some _ \<Rightarrow> rtos_task_trampoline_end (snd (rtos_task_create m s c p r))) = r"
  by (simp add: rtos_defs Let_def)

lemma rtos_mutex_life_balanced:
  "rtos_mutex_destroy (fst (rtos_mutex_create m c r)) (snd (rtos_mutex_create m c r)) = r"
  by (simp add: rtos_defs Let_def)

text \<open>Priorities keep their order and stay above the idle priority.\<close>

lemma rtos_priority:
  "fst (rtos_task_create True True True p r) = Some \<lparr>task_priority = p + 1\<rparr>"
  by (simp add: rtos_task_create_def Let_def)

end
