(* ===== verification/Board_Io.thy ===== *)
theory Board_Io
  imports Board_Config Osal_Freertos Bms_System
begin

text \<open>
  The rest of the emulated board's support code in \<open>targets/qemu_mps2_an385/\<close>: the polled UART, the
  retargeted \<open>_write\<close>, the kernel's fatal-error hooks, the stack report and the board's \<open>main\<close>.
  An access to a device register is an event: writes are the list of address and value pairs the
  code makes, and what the volatile status register reads is a list of values.
\<close>

section \<open>The UART\<close>

definition UART0_BASE :: u32 where "UART0_BASE = 0x40004000"

definition UART0_DATA :: u32 where "UART0_DATA = UART0_BASE + 0"

definition UART0_STATE :: u32 where "UART0_STATE = UART0_BASE + 4"

definition UART0_CTRL :: u32 where "UART0_CTRL = UART0_BASE + 8"

definition UART0_BAUDDIV :: u32 where "UART0_BAUDDIV = UART0_BASE + 16"

definition UART0_STATE_TX_BUFFER_FULL :: u32 where "UART0_STATE_TX_BUFFER_FULL = push_bit 0 1"

definition UART0_CTRL_TX_ENABLE :: u32 where "UART0_CTRL_TX_ENABLE = push_bit 0 1"

type_synonym device_write = "u32 \<times> u32"

definition uart_init :: "device_write list" where
  "uart_init = [(UART0_BAUDDIV, 16), (UART0_CTRL, UART0_CTRL_TX_ENABLE)]"

definition tx_full :: "u32 \<Rightarrow> bool" where
  "tx_full state \<longleftrightarrow> state AND UART0_STATE_TX_BUFFER_FULL \<noteq> 0"

text \<open>
  Polling reads the status until the buffer has room; \<^const>\<open>None\<close> if it has none in the values
  given. The result is the write and the status values not yet read.
\<close>

fun uart_putc :: "u8 \<Rightarrow> u32 list \<Rightarrow> (device_write \<times> u32 list) option" where
  "uart_putc ch [] = None"
| "uart_putc ch (state # later) =
     (if tx_full state then uart_putc ch later else Some ((UART0_DATA, ucast ch), later))"

section \<open>The write call\<close>

fun write_bytes :: "u8 list \<Rightarrow> u32 list \<Rightarrow> (device_write list \<times> u32 list) option" where
  "write_bytes [] states = Some ([], states)"
| "write_bytes (ch # chs) states =
     (case (if ch = 10 then map_option (\<lambda>(w, st). ([w], st)) (uart_putc 13 states) else Some ([], states)) of
        None \<Rightarrow> None
      | Some (cr, st1) \<Rightarrow>
          (case uart_putc ch st1 of
             None \<Rightarrow> None
           | Some (w, st2) \<Rightarrow> map_option (\<lambda>(ws, st). (cr @ w # ws, st)) (write_bytes chs st2)))"

definition sys_write :: "int \<Rightarrow> u8 list \<Rightarrow> u32 list \<Rightarrow> (int \<times> device_write list \<times> u32 list) option" where
  "sys_write fd buf states = map_option (\<lambda>(ws, st). (int (length buf), ws, st)) (write_bytes buf states)"

text \<open>The translation of line ends, and how a terminal undoes it.\<close>

fun crlf :: "u8 list \<Rightarrow> u8 list" where
  "crlf [] = []"
| "crlf (ch # chs) = (if ch = 10 then [13, 10] else [ch]) @ crlf chs"

fun uncrlf :: "u8 list \<Rightarrow> u8 list" where
  "uncrlf [] = []"
| "uncrlf [ch] = [ch]"
| "uncrlf (a # b # chs) = (if a = 13 \<and> b = 10 then 10 # uncrlf chs else a # uncrlf (b # chs))"

lemma ucast_u8_u32 [simp]: "(ucast (ucast (b :: u8) :: u32) :: u8) = b"
  by (rule bit_word_eqI) (auto simp: bit_simps)

lemma crlf_hd: "crlf chs = x # xs \<Longrightarrow> x \<noteq> 10"
  by (cases chs) (auto split: if_splits)

lemma uncrlf_crlf: "uncrlf (crlf chs) = chs"
proof (induction chs)
  case (Cons ch chs)
  show ?case
  proof (cases "ch = 10")
    case False
    then have "uncrlf (ch # crlf chs) = ch # uncrlf (crlf chs)" 
      using crlf_hd [of chs] by (cases "crlf chs") auto
    with Cons False show ?thesis by simp
  qed (use Cons in simp)
qed simp

lemma uart_putc_Some:
  "uart_putc ch states = Some (w, rest) \<Longrightarrow>
     w = (UART0_DATA, ucast ch) \<and> (\<exists>reads. states = reads @ rest \<and> length (filter (\<lambda>s. \<not> tx_full s) reads) = 1)"
proof (induction ch states rule: uart_putc.induct)
  case (2 ch state later)
  show ?case
  proof (cases "tx_full state")
    case True
    with 2 obtain reads where "w = (UART0_DATA, ucast ch)" "later = reads @ rest"
      "length (filter (\<lambda>s. \<not> tx_full s) reads) = 1" by auto
    with True show ?thesis by (auto intro!: exI [of _ "state # reads"])
  next
    case False
    with 2 show ?thesis by (auto intro!: exI [of _ "[state]"])
  qed
qed simp

lemma uart_putc_returns:
  "0 < length (filter (\<lambda>s. \<not> tx_full s) states) \<Longrightarrow> \<exists>w rest. uart_putc ch states = Some (w, rest)"
  by (induction states) auto

text \<open>Enough room in the status values makes the whole write return, with the remaining room accounted for.\<close>

lemma write_bytes_returns:
  "length (crlf buf) \<le> length (filter (\<lambda>s. \<not> tx_full s) states) \<Longrightarrow>
     \<exists>ws rest. write_bytes buf states = Some (ws, rest) \<and> ws = map (\<lambda>ch. (UART0_DATA, ucast ch)) (crlf buf) \<and>
       length (filter (\<lambda>s. \<not> tx_full s) states) =
         length (crlf buf) + length (filter (\<lambda>s. \<not> tx_full s) rest)"
proof (induction buf arbitrary: states)
  case (Cons ch chs)
  let ?room = "\<lambda>st. length (filter (\<lambda>s. \<not> tx_full s) st)"
  have putc: "\<exists>rest. uart_putc c st = Some ((UART0_DATA, ucast c), rest) \<and> ?room st = Suc (?room rest)"
    if "0 < ?room st" for c st
    using uart_putc_returns [OF that, of c] uart_putc_Some [of c st] by force
  show ?case
  proof (cases "ch = 10")
    case True
    then have room: "0 < ?room states" using Cons.prems by (simp del: length_greater_0_conv)
    obtain st1 where st1: "uart_putc 13 states = Some ((UART0_DATA, ucast (13 :: u8)), st1)" "?room states = Suc (?room st1)"
      using putc [OF room] by blast
    have "0 < ?room st1" using st1(2) Cons.prems True by (simp del: length_greater_0_conv)
    then obtain st2 where st2: "uart_putc ch st1 = Some ((UART0_DATA, ucast ch), st2)" "?room st1 = Suc (?room st2)"
      using putc by blast
    have "length (crlf chs) \<le> ?room st2" using st1(2) st2(2) Cons.prems True by simp
    from Cons.IH [OF this] show ?thesis using True st1 st2 by auto
  next
    case False
    then have "0 < ?room states" using Cons.prems by (simp del: length_greater_0_conv)
    then obtain st2 where st2: "uart_putc ch states = Some ((UART0_DATA, ucast ch), st2)" "?room states = Suc (?room st2)"
      using putc by blast
    have "length (crlf chs) \<le> ?room st2" using st2(2) Cons.prems False by simp
    from Cons.IH [OF this] show ?thesis using False st2 by auto
  qed
qed simp

section \<open>Fatal errors\<close>

text \<open>
  The hooks and the default exception handlers end in an empty loop. The processor spins: its step
  changes nothing, so with interrupts off nothing else runs.
\<close>

record cpu =
  irq_enabled :: bool
  spinning :: bool

definition cpu_spin :: "cpu \<Rightarrow> cpu" where
  "cpu_spin s = s\<lparr>spinning := True\<rparr>"

definition vApplicationStackOverflowHook :: "cpu \<Rightarrow> cpu" where
  "vApplicationStackOverflowHook s = cpu_spin (s\<lparr>irq_enabled := False\<rparr>)"

definition vApplicationMallocFailedHook :: "cpu \<Rightarrow> cpu" where
  "vApplicationMallocFailedHook s = cpu_spin (s\<lparr>irq_enabled := False\<rparr>)"

definition Default_Handler :: "cpu \<Rightarrow> cpu" where
  "Default_Handler s = cpu_spin s"

definition HardFault_Handler :: "cpu \<Rightarrow> cpu" where
  "HardFault_Handler s = cpu_spin s"

section \<open>The stack report\<close>

definition STACK_REPORT_DELAY_MS :: u32 where "STACK_REPORT_DELAY_MS = 3000"

definition STACK_REPORT_BUFFER_LEN :: nat where "STACK_REPORT_BUFFER_LEN = 512"

datatype report_action = Task_Delay u32 | Print string | Delete_Self

text \<open>The kernel's task list, written into a buffer of the given size, is an argument.\<close>

definition stack_report_task :: "(u32 \<Rightarrow> u32) \<Rightarrow> (nat \<Rightarrow> string) \<Rightarrow> report_action list" where
  "stack_report_task pdMS_TO_TICKS vTaskListTasks =
     [Task_Delay (pdMS_TO_TICKS STACK_REPORT_DELAY_MS),
      Print (''\<newline>=== Stack high-water marks (words of stack never touched; see docs/ARCHITECTURE.md '' @
             [CHR 0x22] @ ''Memory footprint'' @ [CHR 0x22] @ '') ===\<newline>''),
      Print ''Name            State  Prio  StackHWM  TaskNum\<newline>'',
      Print (vTaskListTasks STACK_REPORT_BUFFER_LEN @ ''\<newline>''),
      Delete_Self]"

section \<open>The board's main\<close>

record board_task =
  bt_name :: string
  bt_stack_words :: nat
  bt_priority :: nat

text \<open>What \<open>osal_task_create\<close> asks of the kernel for an application task.\<close>

definition board_create :: "string \<Rightarrow> nat \<Rightarrow> board_task" where
  "board_create name priority =
     \<lparr>bt_name = name, bt_stack_words = configMINIMAL_STACK_SIZE * 2,
      bt_priority = task_priority (the (fst (rtos_task_create True True True priority
        \<lparr>heap_blocks = 0, semaphores = 0, running_tasks = 0, queues = 0\<rparr>)))\<rparr>"

definition stack_report_start :: board_task where
  "stack_report_start = \<lparr>bt_name = ''stack_report'', bt_stack_words = configMINIMAL_STACK_SIZE * 2, bt_priority = 1\<rparr>"

text \<open>
  \<open>main\<close> up to the start of the scheduler, which does not return: the device writes, the initial
  system, always in the nominal scenario, and the tasks in the order of their creation.
\<close>

definition board_main :: "(real \<Rightarrow> real) \<Rightarrow> device_write list \<times> bms_system \<times> board_task list" where
  "board_main rnd =
     (uart_init, (sys_init rnd None)\<lparr>s_cells := cell_model_set_scenario SCENARIO_NOMINAL cell_model_init\<rparr>,
      [board_create ''sensor'' 3, board_create ''soc'' 2, board_create ''fault'' 4, board_create ''can'' 2,
       board_create ''watchdog'' 5, stack_report_start])"

definition portTICK_PERIOD_MS :: u32 where
  "portTICK_PERIOD_MS = of_nat (1000 div configTICK_RATE_HZ)"

definition board_task_ok :: "board_task \<Rightarrow> bool" where
  "board_task_ok t \<longleftrightarrow> 0 < bt_priority t \<and> bt_priority t < configMAX_PRIORITIES \<and>
     length (bt_name t) < configMAX_TASK_NAME_LEN \<and> configMINIMAL_STACK_SIZE \<le> bt_stack_words t"

lemma board_priority: "bt_priority (board_create name p) = p + 1"
  by (simp add: board_create_def rtos_priority)

section \<open>Properties\<close>

text \<open>
  The console receives exactly what is written, with line ends translated: whatever the status
  register reads, if it shows room at least once per byte to send then \<open>_write\<close> returns the number of
  bytes it was given and the UART's data register has received the bytes with a carriage return before
  each line feed, in order, one per room seen; and the original bytes can be recovered from the output.
\<close>

lemma write_reaches_the_console:
  assumes "length (crlf buf) \<le> length (filter (\<lambda>s. \<not> tx_full s) states)"
  shows "\<exists>ws rest. sys_write fd buf states = Some (int (length buf), ws, rest) \<and>
    ws = map (\<lambda>ch. (UART0_DATA, ucast ch)) (crlf buf) \<and>
    length (filter (\<lambda>s. \<not> tx_full s) states) = length ws + length (filter (\<lambda>s. \<not> tx_full s) rest) \<and>
    uncrlf (map (\<lambda>w. ucast (snd w)) ws) = buf"
  using write_bytes_returns [OF assms] by (auto simp: sys_write_def comp_def uncrlf_crlf)

text \<open>
  The board starts the same system as the host, and its kernel configuration carries it: \<open>main\<close>
  begins in the host's nominal initial state, every task has a priority above idle and below the
  configured number, a name within the configured length and at least the minimal stack; the
  watchdog, fault and sensor tasks come first in this order; all task stacks together (four bytes per
  word, the idle task included) take less than half of the configured heap; the calls the OS layer makes are
  compiled in, and a tick is a millisecond.
\<close>

lemma board_configuration_carries_the_tasks:
  "fst (snd (board_main rnd)) = sys_init rnd None \<and> list_all board_task_ok (snd (snd (board_main rnd))) \<and>
   map bt_priority (snd (snd (board_main rnd))) = [4, 3, 5, 3, 6, 1] \<and>
   2 * (4 * (sum_list (map bt_stack_words (snd (snd (board_main rnd)))) + configMINIMAL_STACK_SIZE)) < configTOTAL_HEAP_SIZE \<and>
   INCLUDE_vTaskDelete = 1 \<and> INCLUDE_vTaskDelay = 1 \<and> INCLUDE_xTaskGetTickCount = 1 \<and> configUSE_MUTEXES = 1 \<and>
   configUSE_16_BIT_TICKS = 0 \<and> rtos_get_tick_ms t portTICK_PERIOD_MS = t"
  by (simp add: board_main_def board_task_ok_def board_priority stack_report_start_def)
    (simp add: board_create_def board_defs sys_init_def app_context_init_def parse_scenario_def
      cell_model_set_scenario_def rtos_get_tick_ms_def portTICK_PERIOD_MS_def)

end
