(* ===== verification/Soft_Float.thy ===== *)
theory Soft_Float
  imports Soc_Estimator "HOL-Library.Monad_Syntax"
begin

text \<open>
  An executable implementation of \<open>round_f64\<close>: a double is an integer mantissa with a binary
  exponent, and every operation computes the exact quotient of two integers and rounds it to 53 bits,
  or to a multiple of the smallest subnormal number, with integer arithmetic. The refinement lemmas say that each operation, and then each function of the
  estimator, computes what the model over the reals computes, so that concrete runs of the compiled filter
  can be evaluated bit by bit.
\<close>

section \<open>Mantissa and exponent\<close>

datatype soft = Soft (mant: int) (expo: int)

definition f64_of :: "soft \<Rightarrow> real" where
  "f64_of x = of_int (mant x) * 2 powi expo x"

primrec num_len :: "num \<Rightarrow> int" where
  "num_len num.One = 1"
| "num_len (num.Bit0 n) = num_len n + 1"
| "num_len (num.Bit1 n) = num_len n + 1"

definition int_len :: "int \<Rightarrow> int" where
  "int_len n = bitlen \<bar>n\<bar>"

lemma bitlen_numeral: "bitlen (numeral n) = num_len n"
  by (induction n) (simp_all add: compute_bitlen [of "numeral _"] compute_bitlen [of 1])

lemma int_len_code [code]:
  "int_len 0 = 0" "int_len (Int.Pos n) = num_len n" "int_len (Int.Neg n) = num_len n"
  by (simp_all add: int_len_def bitlen_numeral)

lemma int_len_bounds:
  assumes "n \<noteq> 0"
  shows "1 \<le> int_len n" and "2 powi (int_len n - 1) \<le> \<bar>of_int n :: real\<bar>" and "\<bar>of_int n :: real\<bar> < 2 powi int_len n"
proof -
  show l: "1 \<le> int_len n" using assms bitlen_nonneg [of "\<bar>n\<bar>"] bitlen_eq_zero_iff [of "\<bar>n\<bar>"]
    by (simp add: int_len_def)
  have "2 ^ nat (int_len n - 1) \<le> \<bar>n\<bar>" "\<bar>n\<bar> < 2 ^ nat (int_len n)"
    using assms bitlen_bounds [of "\<bar>n\<bar>"] by (simp_all add: int_len_def)
  then have "(of_int (2 ^ nat (int_len n - 1)) :: real) \<le> of_int \<bar>n\<bar>" "(of_int \<bar>n\<bar> :: real) < of_int (2 ^ nat (int_len n))"
    by (simp_all only: of_int_le_iff of_int_less_iff)
  with l show "2 powi (int_len n - 1) \<le> \<bar>of_int n :: real\<bar>" "\<bar>of_int n :: real\<bar> < 2 powi int_len n"
    by (simp_all add: power_int_def)
qed

section \<open>Rounding a quotient\<close>

definition rhe_div :: "int \<Rightarrow> int \<Rightarrow> int" where
  "rhe_div a b =
     (let q = a div b; r = a mod b
      in if 2 * r < b then q else if 2 * r > b then q + 1 else if even q then q else q + 1)"

lemma round_half_even_quotient:
  assumes "0 < b"
  shows "round_half_even (of_int a / of_int b) = rhe_div a b"
proof -
  have f: "\<lfloor>of_int a / of_int b :: real\<rfloor> = a div b" by (rule floor_divide_of_int_eq)
  have "(of_int a :: real) = of_int b * of_int (a div b) + of_int (a mod b)"
    by (metis of_int_add of_int_mult mult_div_mod_eq)
  then have "(of_int a / of_int b :: real) - of_int (a div b) = of_int (a mod b) / of_int b"
    using assms by (simp add: diff_divide_eq_iff) (simp add: field_simps)
  moreover have "(2 * of_int (a mod b) < (of_int b :: real)) = (2 * (a mod b) < b)"
    "((of_int b :: real) < 2 * of_int (a mod b)) = (b < 2 * (a mod b))"
    by (simp_all flip: of_int_less_iff [where 'a = real])
  then have "(of_int (a mod b) / of_int b < (1 / 2 :: real)) = (2 * (a mod b) < b)"
    "(of_int (a mod b) / of_int b > (1 / 2 :: real)) = (2 * (a mod b) > b)"
    using assms by (simp_all add: field_simps)
  ultimately show ?thesis unfolding round_half_even_def rhe_div_def Let_def f by (simp only:)
qed

lemma round_f64_quotient:
  assumes "0 < b" and "a \<noteq> 0" and "\<bar>a\<bar> < 2 ^ 53 * b" and "2 ^ 52 * b \<le> \<bar>a\<bar> \<and> - 1074 \<le> e \<or> e = - 1074"
  shows "round_f64 (of_int a / of_int b * 2 powi e) = of_int (rhe_div a b) * 2 powi e"
proof -
  let ?x = "of_int a / of_int b * 2 powi e :: real"
  define y where "y = \<bar>of_int a / of_int b :: real\<bar>"
  have x: "\<bar>?x\<bar> = y * 2 powi e" "?x \<noteq> 0" using assms(1,2) by (simp_all add: y_def abs_mult)
  have "(of_int \<bar>a\<bar> :: real) < of_int (2 ^ 53 * b)" using assms(3) by (simp only: of_int_less_iff)
  then have y: "y < 2 ^ 53" using assms(1) by (simp add: y_def field_simps)
  have "2 powi (53 + e) = (2 ^ 53 * 2 powi e :: real)" by (simp add: power_int_add)
  then have "\<bar>?x\<bar> < 2 powi (53 + e)" unfolding x(1) using y by simp
  with binade_bounds(1) [OF x(2)] have "2 powi binade ?x < (2 powi (53 + e) :: real)" by linarith
  then have up: "binade ?x \<le> 52 + e" by (simp add: powi2_less_iff)
  have "max (binade ?x - 52) (- 1074) = e"
  proof (cases "e = - 1074")
    case True
    then show ?thesis using up by simp
  next
    case False
    then have "2 ^ 52 * b \<le> \<bar>a\<bar>" "- 1074 \<le> e" using assms(4) by auto
    then have "(of_int (2 ^ 52 * b) :: real) \<le> of_int \<bar>a\<bar>" by (simp only: of_int_le_iff)
    then have "2 ^ 52 \<le> y" using assms(1) by (simp add: y_def field_simps)
    then have "2 powi (52 + e) \<le> \<bar>?x\<bar>" unfolding x(1) by (simp add: power_int_add)
    with binade_bounds(2) [OF x(2)] have "2 powi (52 + e) < (2 powi (binade ?x + 1) :: real)" by linarith
    then have "52 + e \<le> binade ?x" by (simp add: powi2_less_iff)
    with up \<open>- 1074 \<le> e\<close> show ?thesis by simp
  qed
  then show ?thesis using round_half_even_quotient [OF assms(1), of a] x(2) by (simp add: round_f64_def Let_def)
qed

text \<open>\<open>n / d\<close> times a power of two, rounded to 53 bits, the last of them worth at least \<open>2 ^ -1074\<close>.\<close>

definition soft_round :: "int \<Rightarrow> int \<Rightarrow> int \<Rightarrow> soft" where
  "soft_round n d e =
     (if n = 0 then Soft 0 0
      else let t = 53 - (int_len n - int_len d);
               big = 2 ^ 53 * (d * 2 ^ nat (- t)) \<le> \<bar>n\<bar> * 2 ^ nat t;
               s = min (if big then t - 1 else t) (e + 1074)
           in Soft (rhe_div (n * 2 ^ nat s) (d * 2 ^ nat (- s))) (e - s))"

text \<open>
  For evaluation by rewriting, every value that is used more than once is an argument of an auxiliary
  function, so that it is computed before the function is unfolded.
\<close>

definition rhe_pick :: "int \<Rightarrow> int \<Rightarrow> int \<Rightarrow> int" where
  "rhe_pick q r b = (if 2 * r < b then q else if 2 * r > b then q + 1 else if even q then q else q + 1)"

lemma rhe_div_code [code]: "rhe_div a b = rhe_pick (a div b) (a mod b) b"
  by (simp add: rhe_div_def rhe_pick_def Let_def)

definition soft_shifted :: "int \<Rightarrow> int \<Rightarrow> int \<Rightarrow> int \<Rightarrow> soft" where
  "soft_shifted n d e s = Soft (rhe_div (n * 2 ^ nat s) (d * 2 ^ nat (- s))) (e - s)"

definition soft_guess :: "int \<Rightarrow> int \<Rightarrow> int \<Rightarrow> int \<Rightarrow> soft" where
  "soft_guess n d e t =
     soft_shifted n d e
       (min (if 2 ^ 53 * (d * 2 ^ nat (- t)) \<le> \<bar>n\<bar> * 2 ^ nat t then t - 1 else t) (e + 1074))"

lemma soft_round_code [code]:
  "soft_round n d e = (if n = 0 then Soft 0 0 else soft_guess n d e (53 - (int_len n - int_len d)))"
  by (simp add: soft_round_def soft_guess_def soft_shifted_def Let_def)

lemma powi_nat_split: "2 powi t = (2 ^ nat t / 2 ^ nat (- t) :: real)"
  by (simp add: power_int_def field_simps)

lemma soft_scale:
  assumes "0 < d"
  shows "(c * (d * 2 ^ nat (- t)) \<le> \<bar>n\<bar> * 2 ^ nat t) = (of_int c * of_int d \<le> \<bar>of_int n\<bar> * (2 powi t :: real))"
proof -
  have "(c * (d * 2 ^ nat (- t)) \<le> \<bar>n\<bar> * 2 ^ nat t) =
      ((of_int (c * (d * 2 ^ nat (- t))) :: real) \<le> of_int (\<bar>n\<bar> * 2 ^ nat t))" by (simp only: of_int_le_iff)
  then show ?thesis by (simp add: powi_nat_split [of t] field_simps)
qed

lemma f64_of_soft_round:
  assumes "0 < d"
  shows "f64_of (soft_round n d e) = round_f64 (of_int n / of_int d * 2 powi e)"
proof (cases "n = 0")
  case True
  then show ?thesis by (simp add: soft_round_def f64_of_def f64.rnd_0)
next
  case False
  define t where "t = 53 - (int_len n - int_len d)"
  define s0 where "s0 = (if 2 ^ 53 * (d * 2 ^ nat (- t)) \<le> \<bar>n\<bar> * 2 ^ nat t then t - 1 else t)"
  define s where "s = min s0 (e + 1074)"
  have dn: "d \<noteq> 0" using assms by simp
  have ln: "2 powi (int_len n - 1) \<le> \<bar>of_int n :: real\<bar>" "\<bar>of_int n :: real\<bar> < 2 powi int_len n"
    using int_len_bounds [OF False] by simp_all
  have ld: "2 powi (int_len d - 1) \<le> (of_int d :: real)" "(of_int d :: real) < 2 powi int_len d"
    using int_len_bounds [OF dn] assms by simp_all
  have lo: "2 ^ 52 * of_int d < \<bar>of_int n\<bar> * (2 powi t :: real)"
  proof -
    have "2 ^ 52 * of_int d < (2 ^ 52 * 2 powi int_len d :: real)" using ld by simp
    also have "\<dots> = 2 powi (int_len n - 1) * 2 powi t" by (simp add: t_def power_int_add power_int_diff)
    also have "\<dots> \<le> \<bar>of_int n\<bar> * 2 powi t" using ln(1) by simp
    finally show ?thesis .
  qed
  have hi: "\<bar>of_int n\<bar> * (2 powi t :: real) < 2 ^ 54 * of_int d"
  proof -
    have "\<bar>of_int n\<bar> * (2 powi t :: real) < 2 powi int_len n * 2 powi t" using ln(2) by simp
    also have "\<dots> = 2 ^ 54 * 2 powi (int_len d - 1)" by (simp add: t_def power_int_add power_int_diff)
    also have "\<dots> \<le> 2 ^ 54 * of_int d" using ld(1) by simp
    finally show ?thesis .
  qed
  define x where "x = \<bar>of_int n\<bar> * (2 powi t :: real)"
  have half: "\<bar>of_int n\<bar> * (2 powi (t - 1) :: real) = x / 2" by (simp add: x_def power_int_diff)
  have s0: "s0 = (if 2 ^ 53 * of_int d \<le> x then t - 1 else t)"
    using soft_scale [OF assms, of "2 ^ 53" t n] by (simp add: s0_def x_def)
  have "\<bar>of_int n\<bar> * (2 powi s0 :: real) = (if 2 ^ 53 * of_int d \<le> x then x / 2 else x)"
    unfolding s0 using half by (simp add: x_def)
  then have b0: "2 ^ 52 * of_int d \<le> \<bar>of_int n\<bar> * (2 powi s0 :: real)" "\<bar>of_int n\<bar> * (2 powi s0 :: real) < 2 ^ 53 * of_int d"
    using lo hi by (auto simp flip: x_def)
  have "(2 powi s :: real) \<le> 2 powi s0" by (simp add: s_def powi2_le_iff)
  then have "\<bar>of_int n\<bar> * (2 powi s :: real) \<le> \<bar>of_int n\<bar> * 2 powi s0" by (rule mult_left_mono) simp
  with b0(2) have "\<not> 2 ^ 53 * of_int d \<le> \<bar>of_int n\<bar> * (2 powi s :: real)" by linarith
  then have hi': "\<bar>n * 2 ^ nat s\<bar> < 2 ^ 53 * (d * 2 ^ nat (- s))"
    using soft_scale [OF assms, of "2 ^ 53" s n] by (simp add: abs_mult)
  have lo': "2 ^ 52 * (d * 2 ^ nat (- s)) \<le> \<bar>n * 2 ^ nat s\<bar> \<and> - 1074 \<le> e - s \<or> e - s = - 1074"
    using soft_scale [OF assms, of "2 ^ 52" s n] b0(1) by (cases "s0 \<le> e + 1074") (simp_all add: s_def abs_mult)
  from round_f64_quotient [OF _ _ hi' lo'] assms False
  have "round_f64 (of_int (n * 2 ^ nat s) / of_int (d * 2 ^ nat (- s)) * 2 powi (e - s)) =
      f64_of (Soft (rhe_div (n * 2 ^ nat s) (d * 2 ^ nat (- s))) (e - s))" by (simp add: f64_of_def)
  moreover have "of_int (n * 2 ^ nat s) / of_int (d * 2 ^ nat (- s)) * 2 powi (e - s) = (of_int n / of_int d * 2 powi e :: real)"
    by (simp add: power_int_diff powi_nat_split [of s])
  moreover have "soft_round n d e = Soft (rhe_div (n * 2 ^ nat s) (d * 2 ^ nat (- s))) (e - s)"
    using False by (simp add: soft_round_def Let_def flip: t_def) (simp add: s_def s0_def)
  ultimately show ?thesis by simp
qed

section \<open>Operations\<close>

definition soft_add :: "soft \<Rightarrow> soft \<Rightarrow> soft" where
  "soft_add a b =
     (let e = min (expo a) (expo b)
      in soft_round (mant a * 2 ^ nat (expo a - e) + mant b * 2 ^ nat (expo b - e)) 1 e)"

definition soft_add_at :: "int \<Rightarrow> soft \<Rightarrow> soft \<Rightarrow> soft" where
  "soft_add_at e a b = soft_round (mant a * 2 ^ nat (expo a - e) + mant b * 2 ^ nat (expo b - e)) 1 e"

lemma soft_add_code [code]: "soft_add a b = soft_add_at (min (expo a) (expo b)) a b"
  by (simp add: soft_add_def soft_add_at_def Let_def)

definition soft_neg :: "soft \<Rightarrow> soft" where
  "soft_neg a = Soft (- mant a) (expo a)"

definition soft_mul :: "soft \<Rightarrow> soft \<Rightarrow> soft" where
  "soft_mul a b = soft_round (mant a * mant b) 1 (expo a + expo b)"

text \<open>The reals divide by zero to zero; the estimator tests its divisors before.\<close>

definition soft_div :: "soft \<Rightarrow> soft \<Rightarrow> soft" where
  "soft_div a b =
     (if mant b = 0 then Soft 0 0
      else if mant b > 0 then soft_round (mant a) (mant b) (expo a - expo b)
      else soft_round (- mant a) (- mant b) (expo a - expo b))"

definition soft_less_at :: "int \<Rightarrow> soft \<Rightarrow> soft \<Rightarrow> bool" where
  "soft_less_at e a b \<longleftrightarrow> mant a * 2 ^ nat (expo a - e) < mant b * 2 ^ nat (expo b - e)"

definition soft_less :: "soft \<Rightarrow> soft \<Rightarrow> bool" where
  "soft_less a b = soft_less_at (min (expo a) (expo b)) a b"

definition soft_floor :: "soft \<Rightarrow> int" where
  "soft_floor a = (if expo a \<ge> 0 then mant a * 2 ^ nat (expo a) else mant a div 2 ^ nat (- expo a))"

definition soft_truncate :: "soft \<Rightarrow> int" where
  "soft_truncate a = (if mant a \<ge> 0 then soft_floor a else - soft_floor (soft_neg a))"

lemma f64_of_shift: "e \<le> expo a \<Longrightarrow> f64_of a = of_int (mant a * 2 ^ nat (expo a - e)) * 2 powi e"
proof -
  assume "e \<le> expo a"
  then have "2 powi expo a = (2 ^ nat (expo a - e) * 2 powi e :: real)"
    using power_int_add [of "2 :: real" "expo a - e" e] by (simp add: power_int_def)
  then show ?thesis by (simp add: f64_of_def)
qed

lemma f64_of_Soft: "f64_of (Soft m 0) = of_int m"
  by (simp add: f64_of_def)

lemma f64_of_neg: "f64_of (soft_neg a) = - f64_of a"
  by (simp add: f64_of_def soft_neg_def)

lemma f64_of_lit: "0 < d \<Longrightarrow> f64_of (soft_round n d 0) = round_f64 (of_int n / of_int d)"
  by (simp add: f64_of_soft_round)

lemma f64_of_add: "f64_of (soft_add a b) = round_f64 (f64_of a + f64_of b)"
proof -
  define e where "e = min (expo a) (expo b)"
  then have "f64_of a = of_int (mant a * 2 ^ nat (expo a - e)) * 2 powi e"
    "f64_of b = of_int (mant b * 2 ^ nat (expo b - e)) * 2 powi e"
    by (simp_all only: f64_of_shift min.cobounded1 min.cobounded2)
  then show ?thesis
    unfolding soft_add_def Let_def e_def [symmetric] by (simp add: f64_of_soft_round distrib_right)
qed

lemma f64_of_mul: "f64_of (soft_mul a b) = round_f64 (f64_of a * f64_of b)"
  unfolding soft_mul_def by (simp add: f64_of_soft_round f64_of_def [of a] f64_of_def [of b] power_int_add mult_ac)

lemma f64_of_div: "f64_of (soft_div a b) = round_f64 (f64_of a / f64_of b)"
proof -
  have "f64_of a / f64_of b = of_int (mant a) / of_int (mant b) * 2 powi (expo a - expo b)"
    by (simp add: f64_of_def power_int_diff)
  then show ?thesis by (simp add: soft_div_def f64_of_soft_round f64.rnd_0) (simp add: f64_of_def f64.rnd_0)
qed

lemma soft_less_iff: "soft_less a b \<longleftrightarrow> f64_of a < f64_of b"
proof -
  define e where "e = min (expo a) (expo b)"
  then have "f64_of a = of_int (mant a * 2 ^ nat (expo a - e)) * 2 powi e"
    "f64_of b = of_int (mant b * 2 ^ nat (expo b - e)) * 2 powi e"
    by (simp_all only: f64_of_shift min.cobounded1 min.cobounded2)
  moreover have "(0 :: real) < 2 powi e" by simp
  ultimately show ?thesis
    unfolding soft_less_def soft_less_at_def e_def [symmetric] by (simp only: mult_less_cancel_right_pos of_int_less_iff)
qed

lemma mant_zero_iff: "mant a = 0 \<longleftrightarrow> f64_of a = 0"
  by (simp add: f64_of_def)

lemma soft_floor_eq: "\<lfloor>f64_of a\<rfloor> = soft_floor a"
proof (cases "expo a \<ge> 0")
  case True
  then have "f64_of a = of_int (mant a * 2 ^ nat (expo a))" by (simp add: f64_of_def power_int_def)
  then show ?thesis using True by (simp only: floor_of_int soft_floor_def if_True)
next
  case False
  then have "f64_of a = of_int (mant a) / of_int (2 ^ nat (- expo a))"
    by (simp add: f64_of_def power_int_def field_simps)
  then show ?thesis using False by (simp only: floor_divide_of_int_eq soft_floor_def if_False)
qed

lemma soft_truncate_eq: "c_truncate (f64_of a) = soft_truncate a"
proof -
  have "(0 :: real) < 2 powi expo a" by simp
  then have "(0 \<le> f64_of a) = (0 \<le> mant a)"
    unfolding f64_of_def by (simp only: zero_le_mult_iff of_int_0_le_iff) linarith
  then show ?thesis
    by (simp add: c_truncate_def soft_truncate_def soft_floor_eq ceiling_def f64_of_neg flip: soft_floor_eq)
qed

section \<open>The estimator in integer arithmetic\<close>

record soft_estimator =
  sf_percent :: soft
  sf_bias :: soft
  sf_p00 :: soft
  sf_p01 :: soft
  sf_p11 :: soft
  sf_capacity :: u16

definition estimator_of :: "soft_estimator \<Rightarrow> soc_estimator_t" where
  "estimator_of e =
     \<lparr>soc_percent = f64_of (sf_percent e), bias_ca = f64_of (sf_bias e), p00 = f64_of (sf_p00 e),
      p01 = f64_of (sf_p01 e), p11 = f64_of (sf_p11 e), capacity_mah = sf_capacity e\<rparr>"

abbreviation soft_int :: "int \<Rightarrow> soft" where
  "soft_int n \<equiv> Soft n 0"

definition soft_init :: "u16 \<Rightarrow> soft_estimator" where
  "soft_init cap =
     \<lparr>sf_percent = soft_int 100, sf_bias = soft_int 0, sf_p00 = soft_int 1, sf_p01 = soft_int 0,
      sf_p11 = soft_int 25, sf_capacity = cap\<rparr>"

lemma soft_init_refines: "estimator_of (soft_init cap) = soc_estimator_init round_f64 cap"
  by (simp add: estimator_of_def soft_init_def soc_estimator_init_def f64_of_Soft config_defs f64.rnd_1 f64.rnd_numeral)

definition soft_load :: "soft \<Rightarrow> soft" where
  "soft_load a = soft_add (soft_round 25 100 0) (soft_mul (soft_mul (soft_int 100) a) a)"

definition soft_noise :: "i16 \<Rightarrow> soft" where
  "soft_noise cur = soft_load (soft_div (soft_int (sint cur)) (soft_int 100))"

definition soft_process :: "soft \<Rightarrow> soft" where
  "soft_process sense = soft_add (soft_round 4 10000 0) (soft_mul sense sense)"

definition soft_k :: "u16 \<Rightarrow> u32 \<Rightarrow> soft" where
  "soft_k cap dt = soft_div (soft_int (uint dt)) (soft_mul (soft_int 3600) (soft_int (uint cap)))"

definition soft_walk :: "u32 \<Rightarrow> soft" where
  "soft_walk dt = soft_mul (soft_round 1 10000 0) (soft_div (soft_int (uint dt)) (soft_int 1000))"

text \<open>The prediction, given the factor \<open>k\<close> and the change of the charge.\<close>

definition soft_predicted :: "soft_estimator \<Rightarrow> u32 \<Rightarrow> soft \<Rightarrow> soft \<Rightarrow> soft_estimator" where
  "soft_predicted e dt k delta =
     e\<lparr>sf_percent := soft_add (sf_percent e) delta,
       sf_p00 :=
         soft_add
           (soft_add (soft_add (sf_p00 e) (soft_neg (soft_mul (soft_mul (soft_int 2) k) (sf_p01 e))))
             (soft_mul (soft_mul k k) (sf_p11 e)))
           (soft_process (soft_mul (soft_round 1 100 0) delta)),
       sf_p01 := soft_add (sf_p01 e) (soft_neg (soft_mul k (sf_p11 e))),
       sf_p11 := soft_add (sf_p11 e) (soft_walk dt)\<rparr>"

definition soft_predict_k :: "soft_estimator \<Rightarrow> i16 \<Rightarrow> u32 \<Rightarrow> soft \<Rightarrow> soft_estimator" where
  "soft_predict_k e cur dt k =
     soft_predicted e dt k (soft_mul k (soft_add (soft_int (sint cur)) (soft_neg (sf_bias e))))"

definition soft_predict :: "soft_estimator \<Rightarrow> i16 \<Rightarrow> u32 \<Rightarrow> soft_estimator" where
  "soft_predict e cur dt = soft_predict_k e cur dt (soft_k (sf_capacity e) dt)"

definition soft_measured :: "u16 \<Rightarrow> soft" where
  "soft_measured mv = soft_div (soft_int (uint (soc_estimator_ocv_lookup_percent_x2 mv))) (soft_int 2)"

definition soft_above :: "soft \<Rightarrow> int \<Rightarrow> soft" where
  "soft_above y hi = (if soft_less (soft_int hi) y then soft_int hi else y)"

definition soft_clamp :: "soft \<Rightarrow> int \<Rightarrow> soft" where
  "soft_clamp x hi = soft_above (if mant x < 0 then soft_int 0 else x) hi"

text \<open>The correction, given the two gains and the residual.\<close>

definition soft_corrected :: "soft_estimator \<Rightarrow> soft \<Rightarrow> soft \<Rightarrow> soft \<Rightarrow> soft_estimator" where
  "soft_corrected e k_soc k_bias residual =
     e\<lparr>sf_percent := soft_clamp (soft_add (sf_percent e) (soft_mul k_soc residual)) 100,
       sf_bias := soft_add (sf_bias e) (soft_mul k_bias residual),
       sf_p00 := soft_add (sf_p00 e) (soft_neg (soft_mul k_soc (sf_p00 e))),
       sf_p01 := soft_add (sf_p01 e) (soft_neg (soft_mul k_soc (sf_p01 e))),
       sf_p11 := soft_add (sf_p11 e) (soft_neg (soft_mul k_bias (sf_p01 e)))\<rparr>"

definition soft_correct :: "soft_estimator \<Rightarrow> soft \<Rightarrow> soft \<Rightarrow> soft_estimator option" where
  "soft_correct e z s =
     (if mant s = 0 then None
      else Some (soft_corrected e (soft_div (sf_p00 e) s) (soft_div (sf_p01 e) s)
             (soft_add z (soft_neg (sf_percent e)))))"

definition soft_fuse :: "soft_estimator \<Rightarrow> soft \<Rightarrow> soft \<Rightarrow> soft_estimator option" where
  "soft_fuse e z noise = soft_correct e z (soft_add (sf_p00 e) noise)"

definition soft_update :: "soft_estimator \<Rightarrow> i16 \<Rightarrow> u32 \<Rightarrow> u16 \<Rightarrow> soft_estimator option" where
  "soft_update e cur dt mv =
     (if sf_capacity e = 0 then None else soft_fuse (soft_predict e cur dt) (soft_measured mv) (soft_noise cur))"

lemma f64_of_clamp: "f64_of (soft_clamp x hi) = (let y = (if f64_of x < 0 then 0 else f64_of x) in if of_int hi < y then of_int hi else y)"
proof -
  have "\<not> 2 powi expo x < (0 :: real)" by (simp add: not_less)
  then have "(mant x < 0) = (f64_of x < 0)" by (simp add: f64_of_def mult_less_0_iff)
  then show ?thesis by (simp add: soft_clamp_def soft_above_def Let_def soft_less_iff f64_of_Soft)
qed

lemmas f64_of_ops = f64_of_Soft f64_of_neg f64_of_add f64_of_mul f64_of_div f64_of_soft_round f64_of_clamp

lemma soft_predict_refines:
  "soc_predict round_f64 (estimator_of e) cur dt mv =
     (let e' = soft_predict e cur dt
      in \<lparr>pr_soc = f64_of (sf_percent e'), pr_p00 = f64_of (sf_p00 e'), pr_p01 = f64_of (sf_p01 e'),
          pr_p11 = f64_of (sf_p11 e'), pr_z = f64_of (soft_measured mv), pr_noise = f64_of (soft_noise cur),
          pr_s = f64_of (soft_add (sf_p00 e') (soft_noise cur))\<rparr>)"
  by (simp add: soc_predict_def soft_predict_def soft_predict_k_def soft_predicted_def soft_process_def soft_k_def
      soft_walk_def soft_measured_def soft_noise_def soft_load_def Let_def estimator_of_def f64_of_ops
      soc_gain_k_def soc_process_noise_def soc_bias_walk_def soc_measurement_noise_def config_defs f64.rnd_numeral)

lemma soft_predict_keeps:
  "sf_bias (soft_predict e cur dt) = sf_bias e" "sf_capacity (soft_predict e cur dt) = sf_capacity e"
  by (simp_all add: soft_predict_def soft_predict_k_def soft_predicted_def)

lemma soft_update_refines:
  "map_option estimator_of (soft_update e cur dt mv) = soc_estimator_update round_f64 (estimator_of e) cur dt mv"
proof -
  let ?pr = "soc_predict round_f64 (estimator_of e) cur dt mv"
  define e' where "e' = soft_predict e cur dt"
  have keeps: "sf_bias e' = sf_bias e" "sf_capacity e' = sf_capacity e"
    by (simp_all add: e'_def soft_predict_keeps)
  define s where "s = soft_add (sf_p00 e') (soft_noise cur)"
  have "estimator_of (soft_corrected e' (soft_div (sf_p00 e') s) (soft_div (sf_p01 e') s)
      (soft_add (soft_measured mv) (soft_neg (sf_percent e')))) = soc_correct round_f64 (estimator_of e) ?pr"
    unfolding soft_predict_refines Let_def e'_def [symmetric] s_def [symmetric]
    by (simp add: soft_corrected_def soc_correct_def Let_def estimator_of_def f64_of_ops clamp_percent_def keeps)
  moreover have "capacity_mah (estimator_of e) = sf_capacity e" by (simp add: estimator_of_def)
  moreover have "pr_s ?pr = f64_of s" by (simp add: soft_predict_refines Let_def e'_def s_def)
  ultimately show ?thesis
    by (simp add: soft_update_def soft_fuse_def soft_correct_def soc_estimator_update_def Let_def mant_zero_iff
        flip: e'_def s_def)
qed

section \<open>Reading the estimate, and runs\<close>

definition soft_round_off :: "soft \<Rightarrow> soft" where
  "soft_round_off x = soft_add x (Soft 1 (- 1))"

definition int_u8 :: "int \<Rightarrow> u8 option" where
  "int_u8 n = (if 0 \<le> n \<and> n < 2 ^ 8 then Some (word_of_int n) else None)"

definition int_i32 :: "int \<Rightarrow> i32 option" where
  "int_i32 n = (if - (2 ^ 31) \<le> n \<and> n < 2 ^ 31 then Some (word_of_int n) else None)"

definition soft_i32 :: "soft \<Rightarrow> i32 option" where
  "soft_i32 x = int_i32 (soft_truncate (soft_round_off x))"

definition soft_percent_x2 :: "soft_estimator \<Rightarrow> u8 option" where
  "soft_percent_x2 e =
     int_u8 (soft_truncate (soft_round_off (soft_clamp (soft_mul (sf_percent e) (soft_int 2)) 200)))"

definition soft_variance :: "soft \<Rightarrow> i32 option" where
  "soft_variance v = soft_i32 (if soft_less v (soft_int 0) then soft_int 0 else v)"

definition soft_variance_x1000 :: "soft_estimator \<Rightarrow> i32 option" where
  "soft_variance_x1000 e = soft_variance (soft_mul (sf_p00 e) (soft_int 1000))"

definition soft_bias :: "soft \<Rightarrow> i32 option" where
  "soft_bias v = (if soft_less v (soft_int 0) then map_option uminus (soft_i32 (soft_neg v)) else soft_i32 v)"

definition soft_bias_x10 :: "soft_estimator \<Rightarrow> i32 option" where
  "soft_bias_x10 e = soft_bias (soft_mul (sf_bias e) (soft_int 10))"

lemma f64_of_round_off: "f64_of (soft_round_off x) = round_f64 (f64_of x + 1 / 2)"
proof -
  have "f64_of (Soft 1 (- 1)) = 1 / 2" by (simp add: f64_of_def power_int_minus)
  then show ?thesis unfolding soft_round_off_def f64_of_add by (simp only:)
qed

lemma soft_i32_refines: "soft_i32 x = f64_to_i32 (round_f64 (f64_of x + 1 / 2))"
  by (simp add: soft_i32_def int_i32_def f64_to_i32_def f64_of_round_off flip: soft_truncate_eq)

lemma soft_percent_x2_refines: "soft_percent_x2 e = soc_estimator_get_percent_x2 round_f64 (estimator_of e)"
  by (simp add: soft_percent_x2_def int_u8_def soc_estimator_get_percent_x2_def f64_to_u8_def estimator_of_def Let_def
      f64_of_round_off f64_of_clamp f64_of_mul f64_of_Soft flip: soft_truncate_eq)

lemma soft_variance_x1000_refines:
  "soft_variance_x1000 e = soc_estimator_get_variance_x1000 round_f64 (estimator_of e)"
  by (simp add: soft_variance_x1000_def soft_variance_def soc_estimator_get_variance_x1000_def soft_i32_refines
      estimator_of_def Let_def soft_less_iff f64_of_mul f64_of_Soft)

lemma soft_bias_x10_refines: "soft_bias_x10 e = soc_estimator_get_bias_ca_x10 round_f64 (estimator_of e)"
  by (simp add: soft_bias_x10_def soft_bias_def soc_estimator_get_bias_ca_x10_def soft_i32_refines
      estimator_of_def Let_def soft_less_iff f64_of_neg f64_of_mul f64_of_Soft)

text \<open>A run of updates: the three values the estimator offers after each, and the last state.\<close>

fun soc_observe ::
  "(real \<Rightarrow> real) \<Rightarrow> soc_estimator_t \<Rightarrow> (i16 \<times> u32 \<times> u16) list \<Rightarrow> ((u8 \<times> i32 \<times> i32) list \<times> soc_estimator_t) option" where
  "soc_observe rnd e [] = Some ([], e)"
| "soc_observe rnd e ((cur, dt, mv) # ms) =
     do {
       e' \<leftarrow> soc_estimator_update rnd e cur dt mv;
       p \<leftarrow> soc_estimator_get_percent_x2 rnd e';
       v \<leftarrow> soc_estimator_get_variance_x1000 rnd e';
       b \<leftarrow> soc_estimator_get_bias_ca_x10 rnd e';
       map_option (apfst ((#) (p, v, b))) (soc_observe rnd e' ms)
     }"

fun soft_observe ::
  "soft_estimator \<Rightarrow> (i16 \<times> u32 \<times> u16) list \<Rightarrow> ((u8 \<times> i32 \<times> i32) list \<times> soft_estimator) option" where
  "soft_observe e [] = Some ([], e)"
| "soft_observe e ((cur, dt, mv) # ms) =
     do {
       e' \<leftarrow> soft_update e cur dt mv;
       p \<leftarrow> soft_percent_x2 e';
       v \<leftarrow> soft_variance_x1000 e';
       b \<leftarrow> soft_bias_x10 e';
       map_option (apfst ((#) (p, v, b))) (soft_observe e' ms)
     }"

lemma soc_observe_eq:
  "soc_observe round_f64 (estimator_of e) ms = map_option (apsnd estimator_of) (soft_observe e ms)"
proof (induction ms arbitrary: e)
  case (Cons m ms)
  obtain cur dt mv where m: "m = (cur, dt, mv)" by (cases m)
  show ?case
    by (cases "soft_update e cur dt mv")
      (simp_all add: m Cons soft_update_refines [symmetric] soft_percent_x2_refines soft_variance_x1000_refines
        soft_bias_x10_refines map_option_bind option.map_comp comp_def apfst_def apsnd_def prod.map_comp prod.map_id)
qed simp

end
