(* ===== verification/Unit_Tests.thy ===== *)
theory Unit_Tests
  imports Soft_Float Fault_Manager Can_Messages
begin

text \<open>
  The program's own unit tests (\<open>test/\<close>) run against the model: one definition per test
  function, with the assertions in the order of the source and the counters of \<open>test.h\<close>. A test that
  meets an undefined conversion, or reads an output that a decoder has not written, has the value
  \<^const>\<open>None\<close>. The numbers the Kalman suite pins down are those of the compiled filter, so this is
  evaluated with \<open>round_f64\<close>, by \<open>Soft_Float\<close>.
\<close>

section \<open>The test macros\<close>

record test_counts =
  g_tests_run :: nat
  g_tests_failed :: nat

definition TEST_ASSERT :: "bool \<Rightarrow> test_counts \<Rightarrow> test_counts" where
  "TEST_ASSERT cond c =
     c\<lparr>g_tests_run := g_tests_run c + 1,
       g_tests_failed := (if \<not> cond then g_tests_failed c + 1 else g_tests_failed c)\<rparr>"

definition TEST_ASSERT_EQ_INT :: "int \<Rightarrow> int \<Rightarrow> test_counts \<Rightarrow> test_counts" where
  "TEST_ASSERT_EQ_INT expected actual c =
     c\<lparr>g_tests_run := g_tests_run c + 1,
       g_tests_failed := (if expected \<noteq> actual then g_tests_failed c + 1 else g_tests_failed c)\<rparr>"

text \<open>Statements one after the other.\<close>

definition in_order :: "('s \<Rightarrow> 's) list \<Rightarrow> 's \<Rightarrow> 's" where
  "in_order fs s = fold (\<lambda>f. f) fs s"

lemma in_order_simps [simp]: "in_order [] s = s" "in_order (f # fs) s = in_order fs (f s)"
  by (simp_all add: in_order_def)

lemma test_passes [simp]:
  "b \<Longrightarrow> TEST_ASSERT b c = c\<lparr>g_tests_run := g_tests_run c + 1\<rparr>"
  "TEST_ASSERT_EQ_INT n n c = c\<lparr>g_tests_run := g_tests_run c + 1\<rparr>"
  by (simp_all add: TEST_ASSERT_def TEST_ASSERT_EQ_INT_def)

section \<open>The fault manager\<close>

abbreviation state_int :: "fault_manager_t \<Rightarrow> int" where
  "state_int fm \<equiv> uint (bms_state_code (fm_state fm))"

abbreviation asil_int :: "bms_asil_t \<Rightarrow> int" where
  "asil_int a \<equiv> int (asil_code a)"

abbreviation evaluations :: "(cell_reading_t \<times> u32) list \<Rightarrow> fault_manager_t \<Rightarrow> fault_manager_t" where
  "evaluations rs fm \<equiv> in_order (map (\<lambda>(r, now) fm. fault_manager_evaluate fm r now) rs) fm"

definition make_nominal :: cell_reading_t where
  "make_nominal = \<lparr>cell_mv = replicate BMS_CELL_COUNT (word_of_int BMS_CELL_NOMINAL_MV),
     cell_temp_c = replicate BMS_CELL_COUNT 25, pack_current_ca = - 200\<rparr>"

definition make_undervoltage :: cell_reading_t where
  "make_undervoltage =
     make_nominal\<lparr>cell_mv := (cell_mv make_nominal)[0 := word_of_int (BMS_CELL_UNDERVOLTAGE_MV - 50)]\<rparr>"

definition make_overvoltage :: cell_reading_t where
  "make_overvoltage =
     make_nominal\<lparr>cell_mv := (cell_mv make_nominal)[0 := word_of_int (BMS_CELL_OVERVOLTAGE_MV + 50)]\<rparr>"

definition test_nominal_stays_normal :: "test_counts \<Rightarrow> test_counts" where
  "test_nominal_stays_normal =
     (let fm = fault_manager_evaluate fault_manager_init make_nominal 0
      in in_order
        [TEST_ASSERT_EQ_INT (uint (bms_state_code BMS_STATE_NORMAL)) (state_int fm),
         TEST_ASSERT_EQ_INT 0 (uint (active_faults fm)),
         TEST_ASSERT_EQ_INT (asil_int BMS_ASIL_QM) (asil_int (fm_severity fm))])"

definition test_hard_fault_trips_fault_immediately :: "test_counts \<Rightarrow> test_counts" where
  "test_hard_fault_trips_fault_immediately =
     (let fm = fault_manager_evaluate fault_manager_init make_undervoltage 10
      in in_order
        [TEST_ASSERT_EQ_INT (uint (bms_state_code BMS_STATE_FAULT)) (state_int fm),
         TEST_ASSERT (active_faults fm AND FAULT_BIT_UNDERVOLTAGE \<noteq> 0),
         TEST_ASSERT_EQ_INT (asil_int BMS_ASIL_C) (asil_int (fm_severity fm))])"

definition test_fault_clears_after_debounce :: "test_counts \<Rightarrow> test_counts" where
  "test_fault_clears_after_debounce =
     (let fm1 = fault_manager_evaluate fault_manager_init make_undervoltage 10;
          fm2 = fault_manager_evaluate fm1 make_nominal 310;
          fm3 = fault_manager_evaluate fm2 make_nominal 620
      in in_order
        [TEST_ASSERT_EQ_INT (uint (bms_state_code BMS_STATE_FAULT)) (state_int fm1),
         TEST_ASSERT_EQ_INT (uint (bms_state_code BMS_STATE_FAULT)) (state_int fm2),
         TEST_ASSERT_EQ_INT (uint (bms_state_code BMS_STATE_NORMAL)) (state_int fm3)])"

definition test_repeated_faults_latch_to_shutdown :: "test_counts \<Rightarrow> test_counts" where
  "test_repeated_faults_latch_to_shutdown =
     (let fm1 = evaluations [(make_undervoltage, 10), (make_nominal, 310), (make_nominal, 620)] fault_manager_init;
          fm2 = evaluations [(make_undervoltage, 650), (make_nominal, 660), (make_nominal, 970)] fm1;
          fm3 = fault_manager_evaluate fm2 make_undervoltage 1000;
          fm4 = fault_manager_evaluate fm3 make_nominal 2000
      in in_order
        [TEST_ASSERT_EQ_INT (uint (bms_state_code BMS_STATE_NORMAL)) (state_int fm1),
         TEST_ASSERT_EQ_INT (uint (bms_state_code BMS_STATE_NORMAL)) (state_int fm2),
         TEST_ASSERT_EQ_INT (uint (bms_state_code BMS_STATE_SHUTDOWN)) (state_int fm3),
         TEST_ASSERT_EQ_INT (uint (bms_state_code BMS_STATE_SHUTDOWN)) (state_int fm4)])"

definition test_asil_d_fault_shuts_down_immediately :: "test_counts \<Rightarrow> test_counts" where
  "test_asil_d_fault_shuts_down_immediately =
     (let fm1 = fault_manager_evaluate fault_manager_init make_overvoltage 10;
          fm2 = fault_manager_evaluate fm1 make_nominal 2000
      in in_order
        [TEST_ASSERT_EQ_INT (uint (bms_state_code BMS_STATE_SHUTDOWN)) (state_int fm1),
         TEST_ASSERT_EQ_INT (asil_int BMS_ASIL_D) (asil_int (fm_severity fm1)),
         TEST_ASSERT_EQ_INT (uint (bms_state_code BMS_STATE_SHUTDOWN)) (state_int fm2)])"

definition test_watchdog_fault_shuts_down_immediately :: "test_counts \<Rightarrow> test_counts" where
  "test_watchdog_fault_shuts_down_immediately =
     (let fm1 = fault_manager_report_watchdog_fault fault_manager_init 0;
          fm2 = fault_manager_evaluate fm1 make_nominal 2000
      in in_order
        [TEST_ASSERT_EQ_INT (uint (bms_state_code BMS_STATE_SHUTDOWN)) (state_int fm1),
         TEST_ASSERT (active_faults fm1 AND FAULT_BIT_TASK_WATCHDOG \<noteq> 0),
         TEST_ASSERT_EQ_INT (asil_int BMS_ASIL_D) (asil_int (fm_severity fm1)),
         TEST_ASSERT_EQ_INT (uint (bms_state_code BMS_STATE_SHUTDOWN)) (state_int fm2)])"

definition test_severity_classification :: "test_counts \<Rightarrow> test_counts" where
  "test_severity_classification = in_order
     (map (\<lambda>(level, faults). TEST_ASSERT_EQ_INT (asil_int level) (asil_int (fault_manager_get_severity faults)))
       [(BMS_ASIL_QM, 0), (BMS_ASIL_B, FAULT_BIT_CELL_IMBALANCE), (BMS_ASIL_C, FAULT_BIT_UNDERVOLTAGE),
        (BMS_ASIL_D, FAULT_BIT_OVERVOLTAGE), (BMS_ASIL_D, FAULT_BIT_OVERTEMP), (BMS_ASIL_D, FAULT_BIT_TASK_WATCHDOG),
        (BMS_ASIL_D, FAULT_BIT_CELL_IMBALANCE OR FAULT_BIT_OVERVOLTAGE),
        (BMS_ASIL_C, FAULT_BIT_UNDERVOLTAGE OR FAULT_BIT_CELL_IMBALANCE)])"

definition test_fault_manager_suite :: "test_counts \<Rightarrow> test_counts" where
  "test_fault_manager_suite = in_order
     [test_nominal_stays_normal, test_hard_fault_trips_fault_immediately, test_fault_clears_after_debounce,
      test_repeated_faults_latch_to_shutdown, test_asil_d_fault_shuts_down_immediately,
      test_watchdog_fault_shuts_down_immediately, test_severity_classification]"

section \<open>The CAN messages\<close>

definition return_code :: "'a option \<Rightarrow> int" where
  "return_code r = (case r of None \<Rightarrow> - 1 | Some _ \<Rightarrow> 0)"

definition test_status_roundtrip :: "test_counts \<Rightarrow> test_counts option" where
  "test_status_roundtrip c =
     (let msg = \<lparr>st_pack_voltage_mv = 14800, st_pack_current_ca = - 350, st_soc_percent_x2 = 164,
                  st_state = bms_state_code BMS_STATE_WARNING\<rparr>;
          frame = can_protocol_pack_status msg;
          rc = can_protocol_unpack_status frame
      in map_option (\<lambda>out. in_order
           [TEST_ASSERT_EQ_INT (uint CAN_ID_BMS_STATUS) (uint (can_id frame)),
            TEST_ASSERT_EQ_INT 0 (return_code rc),
            TEST_ASSERT_EQ_INT (uint (st_pack_voltage_mv msg)) (uint (st_pack_voltage_mv out)),
            TEST_ASSERT_EQ_INT (sint (st_pack_current_ca msg)) (sint (st_pack_current_ca out)),
            TEST_ASSERT_EQ_INT (uint (st_soc_percent_x2 msg)) (uint (st_soc_percent_x2 out)),
            TEST_ASSERT_EQ_INT (uint (st_state msg)) (uint (st_state out))] c) rc)"

definition test_cell_voltages_roundtrip :: "test_counts \<Rightarrow> test_counts option" where
  "test_cell_voltages_roundtrip c =
     (let msg = \<lparr>cv_cell_mv = [3650, 3700, 3695, 3712, 3680]\<rparr>;
          frame = can_protocol_pack_cell_voltages msg;
          rc = can_protocol_unpack_cell_voltages frame
      in map_option (\<lambda>out. in_order
           ([TEST_ASSERT_EQ_INT (int BMS_CELL_COUNT * 2) (uint (dlc frame)), TEST_ASSERT_EQ_INT 0 (return_code rc)] @
            map (\<lambda>i. TEST_ASSERT_EQ_INT (uint (cv_cell_mv msg ! i)) (uint (cv_cell_mv out ! i))) [0..<BMS_CELL_COUNT]) c) rc)"

definition test_fault_report_roundtrip :: "test_counts \<Rightarrow> test_counts option" where
  "test_fault_report_roundtrip c =
     (let msg = \<lparr>fr_fault_bitmask = FAULT_BIT_OVERVOLTAGE OR FAULT_BIT_OVERTEMP, fr_severity = of_nat (asil_code BMS_ASIL_D)\<rparr>;
          rc = can_protocol_unpack_fault (can_protocol_pack_fault msg)
      in map_option (\<lambda>out. in_order
           [TEST_ASSERT_EQ_INT 0 (return_code rc),
            TEST_ASSERT_EQ_INT (uint (fr_fault_bitmask msg)) (uint (fr_fault_bitmask out)),
            TEST_ASSERT_EQ_INT (uint (fr_severity msg)) (uint (fr_severity out))] c) rc)"

definition test_unpack_rejects_wrong_id :: "test_counts \<Rightarrow> test_counts" where
  "test_unpack_rejects_wrong_id = TEST_ASSERT_EQ_INT (- 1)
     (return_code (can_protocol_unpack_status (zero_frame\<lparr>can_id := CAN_ID_CHARGE_COMMAND, dlc := 6\<rparr>)))"

definition test_unpack_rejects_short_dlc :: "test_counts \<Rightarrow> test_counts" where
  "test_unpack_rejects_short_dlc = TEST_ASSERT_EQ_INT (- 1)
     (return_code (can_protocol_unpack_cell_voltages (zero_frame\<lparr>can_id := CAN_ID_CELL_VOLTAGES, dlc := 8\<rparr>)))"

definition test_charge_command_unpack :: "test_counts \<Rightarrow> test_counts option" where
  "test_charge_command_unpack c =
     (let rc = can_protocol_unpack_charge_command
            (zero_frame\<lparr>can_id := CAN_ID_CHARGE_COMMAND, dlc := 2, data := (data zero_frame)[0 := 0x00, 1 := 0x64]\<rparr>)
      in map_option (\<lambda>out. in_order
           [TEST_ASSERT_EQ_INT 0 (return_code rc), TEST_ASSERT_EQ_INT 100 (uint (requested_current_x10 out))] c) rc)"

definition test_can_protocol_suite :: "test_counts \<Rightarrow> test_counts option" where
  "test_can_protocol_suite c =
     do {
       c \<leftarrow> test_status_roundtrip c;
       c \<leftarrow> test_cell_voltages_roundtrip c;
       c \<leftarrow> test_fault_report_roundtrip c;
       test_charge_command_unpack (in_order [test_unpack_rejects_wrong_id, test_unpack_rejects_short_dlc] c)
     }"

section \<open>The estimator\<close>

definition test_soc_estimator_suite :: "(real \<Rightarrow> real) \<Rightarrow> test_counts \<Rightarrow> test_counts option" where
  "test_soc_estimator_suite rnd c =
     do {
       let e = soc_estimator_init rnd 5000;
       p \<leftarrow> soc_estimator_get_percent_x2 rnd e;
       v \<leftarrow> soc_estimator_get_variance_x1000 rnd e;
       let c = in_order [TEST_ASSERT_EQ_INT 200 (uint p), TEST_ASSERT_EQ_INT 1000 (sint v)] c;
       e \<leftarrow> soc_estimator_update rnd e (- 200) 3600000 3800;
       p \<leftarrow> soc_estimator_get_percent_x2 rnd e;
       let c = TEST_ASSERT_EQ_INT 120 (uint p) c;
       e \<leftarrow> soc_estimator_update rnd e (- 200) (3600000 * 5) 3000;
       p \<leftarrow> soc_estimator_get_percent_x2 rnd e;
       let c = TEST_ASSERT_EQ_INT 0 (uint p) c;
       e2 \<leftarrow> soc_estimator_update rnd (soc_estimator_init rnd 5000) 500 (3600000 * 10) 4200;
       p \<leftarrow> soc_estimator_get_percent_x2 rnd e2;
       let c = TEST_ASSERT_EQ_INT 200 (uint p) c;
       e3 \<leftarrow> soc_estimator_update rnd (soc_estimator_init rnd 5000) 0 60000 4200;
       p \<leftarrow> soc_estimator_get_percent_x2 rnd e3;
       Some (TEST_ASSERT_EQ_INT 200 (uint p) c)
     }"

definition test_soc_estimator_ocv_lookup_suite :: "test_counts \<Rightarrow> test_counts" where
  "test_soc_estimator_ocv_lookup_suite = in_order
     (map (\<lambda>(expected, mv). TEST_ASSERT_EQ_INT expected (uint (soc_estimator_ocv_lookup_percent_x2 mv)))
       [(200, 4200), (0, 3000), (200, 5000), (0, 2500), (85, 3650)])"

text \<open>A \<open>for\<close> loop that repeats an update.\<close>

fun repeat_update :: "nat \<Rightarrow> ('e \<Rightarrow> 'e option) \<Rightarrow> 'e \<Rightarrow> 'e option" where
  "repeat_update 0 f e = Some e"
| "repeat_update (Suc n) f e = do { e' \<leftarrow> f e; repeat_update n f e' }"

definition test_kalman_rest :: "(real \<Rightarrow> real) \<Rightarrow> test_counts \<Rightarrow> test_counts option" where
  "test_kalman_rest rnd c =
     do {
       e \<leftarrow> soc_estimator_update rnd (soc_estimator_init rnd 5000) 0 5000 3800;
       p \<leftarrow> soc_estimator_get_percent_x2 rnd e;
       v \<leftarrow> soc_estimator_get_variance_x1000 rnd e;
       let c = in_order [TEST_ASSERT_EQ_INT 136 (uint p), TEST_ASSERT_EQ_INT 200 (sint v)] c;
       e \<leftarrow> soc_estimator_update rnd e 0 5000 3800;
       p \<leftarrow> soc_estimator_get_percent_x2 rnd e;
       v \<leftarrow> soc_estimator_get_variance_x1000 rnd e;
       let c = in_order [TEST_ASSERT_EQ_INT 129 (uint p), TEST_ASSERT_EQ_INT 111 (sint v)] c;
       e \<leftarrow> soc_estimator_update rnd e 0 20000 3800;
       p \<leftarrow> soc_estimator_get_percent_x2 rnd e;
       v \<leftarrow> soc_estimator_get_variance_x1000 rnd e;
       Some (in_order [TEST_ASSERT_EQ_INT 126 (uint p), TEST_ASSERT_EQ_INT 77 (sint v)] c)
     }"

definition test_kalman_load :: "(real \<Rightarrow> real) \<Rightarrow> test_counts \<Rightarrow> test_counts option" where
  "test_kalman_load rnd c =
     do {
       agree \<leftarrow> soc_estimator_update rnd (soc_estimator_init rnd 5000) (- 200) 3600000 3800;
       disagree \<leftarrow> soc_estimator_update rnd (soc_estimator_init rnd 5000) (- 200) 3600000 3700;
       p \<leftarrow> soc_estimator_get_percent_x2 rnd disagree;
       va \<leftarrow> soc_estimator_get_variance_x1000 rnd agree;
       vd \<leftarrow> soc_estimator_get_variance_x1000 rnd disagree;
       ba \<leftarrow> soc_estimator_get_bias_ca_x10 rnd agree;
       bd \<leftarrow> soc_estimator_get_bias_ca_x10 rnd disagree;
       Some (in_order [TEST_ASSERT_EQ_INT 120 (uint p), TEST_ASSERT_EQ_INT (sint va) (sint vd),
         TEST_ASSERT_EQ_INT 0 (sint ba), TEST_ASSERT_EQ_INT 1 (sint bd)] c)
     }"

definition test_kalman_bias :: "(real \<Rightarrow> real) \<Rightarrow> test_counts \<Rightarrow> test_counts option" where
  "test_kalman_bias rnd c =
     do {
       b \<leftarrow> repeat_update 10 (\<lambda>b. soc_estimator_update rnd b 0 5000 3900) (soc_estimator_init rnd 5000);
       p \<leftarrow> soc_estimator_get_percent_x2 rnd b;
       bias \<leftarrow> soc_estimator_get_bias_ca_x10 rnd b;
       let c = in_order [TEST_ASSERT_EQ_INT 141 (uint p), TEST_ASSERT_EQ_INT 11 (sint bias)] c;
       b \<leftarrow> soc_estimator_update rnd b 10 5000 3900;
       bias \<leftarrow> soc_estimator_get_bias_ca_x10 rnd b;
       let c = TEST_ASSERT_EQ_INT 11 (sint bias) c;
       b \<leftarrow> repeat_update 3 (\<lambda>b. soc_estimator_update rnd b 10 5000 3900) b;
       bias \<leftarrow> soc_estimator_get_bias_ca_x10 rnd b;
       let c = TEST_ASSERT_EQ_INT 12 (sint bias) c;
       b \<leftarrow> repeat_update 4 (\<lambda>b. soc_estimator_update rnd b 10 5000 3900) b;
       bias \<leftarrow> soc_estimator_get_bias_ca_x10 rnd b;
       Some (TEST_ASSERT_EQ_INT 14 (sint bias) c)
     }"

definition test_soc_estimator_kalman_suite :: "(real \<Rightarrow> real) \<Rightarrow> test_counts \<Rightarrow> test_counts option" where
  "test_soc_estimator_kalman_suite rnd c =
     do { c \<leftarrow> test_kalman_rest rnd c; c \<leftarrow> test_kalman_load rnd c; test_kalman_bias rnd c }"

section \<open>The test program\<close>

text \<open>The counters at the end and the exit code.\<close>

definition test_main :: "(real \<Rightarrow> real) \<Rightarrow> (test_counts \<times> int) option" where
  "test_main rnd =
     do {
       c \<leftarrow> test_soc_estimator_suite rnd \<lparr>g_tests_run = 0, g_tests_failed = 0\<rparr>;
       c \<leftarrow> test_soc_estimator_kalman_suite rnd (test_soc_estimator_ocv_lookup_suite c);
       c \<leftarrow> test_can_protocol_suite (test_fault_manager_suite c);
       Some (c, if g_tests_failed c = 0 then 0 else 1)
     }"

section \<open>Evaluation\<close>

lemma soc_observe_Cons:
  "soc_observe rnd e ((cur, dt, mv) # ms) = Some (obs, final) \<longleftrightarrow>
     (\<exists>e' p v b obs'. soc_estimator_update rnd e cur dt mv = Some e' \<and>
        soc_estimator_get_percent_x2 rnd e' = Some p \<and> soc_estimator_get_variance_x1000 rnd e' = Some v \<and>
        soc_estimator_get_bias_ca_x10 rnd e' = Some b \<and> soc_observe rnd e' ms = Some (obs', final) \<and>
        obs = (p, v, b) # obs')"
  by (auto simp: bind_eq_Some_conv)

declare soc_observe.simps(2) [simp del]

lemmas observe_simps = soc_observe.simps(1) soc_observe_Cons

lemma repeat_update_fun:
  "repeat_update 0 f = Some" "repeat_update (Suc n) f = (\<lambda>e. f e \<bind> repeat_update n f)"
  by (simp_all add: fun_eq_iff)

lemma repeat_update_numeral:
  "repeat_update 3 f e = do { e \<leftarrow> f e; e \<leftarrow> f e; f e }"
  "repeat_update 4 f e = do { e \<leftarrow> f e; e \<leftarrow> f e; e \<leftarrow> f e; f e }"
  by (simp_all add: numeral_eq_Suc repeat_update_fun)

lemma repeat_update_add: "repeat_update (m + n) f e = repeat_update m f e \<bind> repeat_update n f"
  by (induction m arbitrary: e) (simp_all cong: bind_option_cong)

lemma observe_replicate:
  "soc_observe rnd e (replicate n (cur, dt, mv)) = Some (obs, e') \<Longrightarrow>
     repeat_update n (\<lambda>b. soc_estimator_update rnd b cur dt mv) e = Some e'"
  by (induction n arbitrary: e obs) (auto simp: observe_simps)

text \<open>From the evaluated integer arithmetic to the model over the reals.\<close>

lemma observed:
  assumes "map_option fst (soft_observe e ms) = Some obs"
  obtains final where "soc_observe round_f64 (estimator_of e) ms = Some (obs, final)"
  using assms soc_observe_eq [of e ms] by auto

lemma observed_init:
  assumes "map_option fst (soft_observe (soft_init cap) ms) = Some obs"
  obtains final where "soc_observe round_f64 (soc_estimator_init round_f64 cap) ms = Some (obs, final)"
  using observed [OF assms] by (auto simp: soft_init_refines)

lemma init_values:
  "soc_estimator_get_percent_x2 round_f64 (soc_estimator_init round_f64 5000) = Some 200"
  "soc_estimator_get_variance_x1000 round_f64 (soc_estimator_init round_f64 5000) = Some 1000"
proof -
  have "soft_percent_x2 (soft_init 5000) = Some 200" "soft_variance_x1000 (soft_init 5000) = Some 1000"
    by code_simp+
  then show "soc_estimator_get_percent_x2 round_f64 (soc_estimator_init round_f64 5000) = Some 200"
    "soc_estimator_get_variance_x1000 round_f64 (soc_estimator_init round_f64 5000) = Some 1000"
    by (simp_all add: soft_percent_x2_refines soft_variance_x1000_refines soft_init_refines)
qed

lemma discharge_run:
  "map_option fst (soft_observe (soft_init 5000) [(- 200, 3600000, 3800), (- 200, 18000000, 3000)]) =
     Some [(120, 2149, 0), (0, 37514, - 96)]"
  by code_simp

lemma other_runs:
  "map_option fst (soft_observe (soft_init 5000) [(500, 36000000, 4200)]) = Some [(200, 186044, 185)]"
  "map_option fst (soft_observe (soft_init 5000) [(0, 60000, 4200)]) = Some [(200, 200, 0)]"
  "map_option fst (soft_observe (soft_init 5000) [(- 200, 3600000, 3700)]) = Some [(120, 2149, 1)]"
  by code_simp+

lemma rest_run:
  "map_option fst (soft_observe (soft_init 5000) [(0, 5000, 3800), (0, 5000, 3800), (0, 20000, 3800)]) =
     Some [(136, 200, 2), (129, 111, 4), (126, 77, 8)]"
  by code_simp

text \<open>The run that learns the bias, in two halves.\<close>

definition after_nine :: soft_estimator where
  "after_nine =
     \<lparr>sf_percent = Soft 4981513035761603 (- 46), sf_bias = Soft 4513038652148372 (- 52),
      sf_p00 = Soft 8096017438421832 (- 58), sf_p01 = Soft (- 8170306542972738) (- 58),
      sf_p11 = Soft 7034603076868506 (- 48), sf_capacity = 5000\<rparr>"

lemma bias_run_1:
  "soft_observe (soft_init 5000) (replicate 9 (0, 5000, 3900)) =
     Some ([(152, 200, 2), (147, 111, 3), (145, 77, 4), (144, 59, 5), (143, 48, 6), (142, 41, 7), (142, 35, 8),
        (142, 31, 9), (142, 28, 10)], after_nine)"
  by code_simp

lemma bias_run_2:
  "map_option fst (soft_observe after_nine ((0, 5000, 3900) # replicate 8 (10, 5000, 3900))) =
     Some [(141, 26, 11), (141, 25, 11), (141, 25, 11), (141, 25, 12), (141, 25, 12), (141, 25, 12), (141, 25, 13),
        (141, 25, 13), (141, 25, 14)]"
  by code_simp

lemma soc_estimator_suite_passes:
  "test_soc_estimator_suite round_f64 \<lparr>g_tests_run = 0, g_tests_failed = 0\<rparr> = Some \<lparr>g_tests_run = 6, g_tests_failed = 0\<rparr>"
proof -
  obtain l1 l2 l3 where
    "soc_observe round_f64 (soc_estimator_init round_f64 5000) [(- 200, 3600000, 3800), (- 200, 18000000, 3000)] =
       Some ([(120, 2149, 0), (0, 37514, - 96)], l1)"
    "soc_observe round_f64 (soc_estimator_init round_f64 5000) [(500, 36000000, 4200)] = Some ([(200, 186044, 185)], l2)"
    "soc_observe round_f64 (soc_estimator_init round_f64 5000) [(0, 60000, 4200)] = Some ([(200, 200, 0)], l3)"
    using observed_init [OF discharge_run] observed_init [OF other_runs(1)] observed_init [OF other_runs(2)] by metis
  then show ?thesis by (auto simp: observe_simps test_soc_estimator_suite_def init_values Let_def)
qed

lemma ocv_lookup_suite_passes:
  "test_soc_estimator_ocv_lookup_suite \<lparr>g_tests_run = 6, g_tests_failed = 0\<rparr> = \<lparr>g_tests_run = 11, g_tests_failed = 0\<rparr>"
proof -
  have "map soc_estimator_ocv_lookup_percent_x2 [4200, 3000, 5000, 2500, 3650] = [200, 0, 200, 0, 85]" by code_simp
  then show ?thesis by (simp add: test_soc_estimator_ocv_lookup_suite_def)
qed

lemma kalman_rest_passes: "test_kalman_rest round_f64 \<lparr>g_tests_run = 11, g_tests_failed = 0\<rparr> = Some \<lparr>g_tests_run = 17, g_tests_failed = 0\<rparr>"
proof -
  obtain l where "soc_observe round_f64 (soc_estimator_init round_f64 5000) [(0, 5000, 3800), (0, 5000, 3800), (0, 20000, 3800)] =
      Some ([(136, 200, 2), (129, 111, 4), (126, 77, 8)], l)" by (rule observed_init [OF rest_run])
  then show ?thesis by (auto simp: observe_simps test_kalman_rest_def Let_def)
qed

lemma kalman_load_passes: "test_kalman_load round_f64 \<lparr>g_tests_run = 17, g_tests_failed = 0\<rparr> = Some \<lparr>g_tests_run = 21, g_tests_failed = 0\<rparr>"
proof -
  obtain l1 l2 where
    "soc_observe round_f64 (soc_estimator_init round_f64 5000) [(- 200, 3600000, 3800), (- 200, 18000000, 3000)] =
       Some ([(120, 2149, 0), (0, 37514, - 96)], l1)"
    "soc_observe round_f64 (soc_estimator_init round_f64 5000) [(- 200, 3600000, 3700)] = Some ([(120, 2149, 1)], l2)"
    using observed_init [OF discharge_run] observed_init [OF other_runs(3)] by metis
  then show ?thesis by (auto simp: observe_simps test_kalman_load_def Let_def)
qed

lemma kalman_bias_passes: "test_kalman_bias round_f64 \<lparr>g_tests_run = 21, g_tests_failed = 0\<rparr> = Some \<lparr>g_tests_run = 26, g_tests_failed = 0\<rparr>"
proof -
  have 1: "soc_observe round_f64 (soc_estimator_init round_f64 5000) (replicate 9 (0, 5000, 3900)) =
      Some ([(152, 200, 2), (147, 111, 3), (145, 77, 4), (144, 59, 5), (143, 48, 6), (142, 41, 7), (142, 35, 8),
        (142, 31, 9), (142, 28, 10)], estimator_of after_nine)"
    using soc_observe_eq [of "soft_init 5000" "replicate 9 (0, 5000, 3900)"] by (simp add: bias_run_1 soft_init_refines)
  obtain l where 2: "soc_observe round_f64 (estimator_of after_nine) ((0, 5000, 3900) # replicate 8 (10, 5000, 3900)) =
      Some ([(141, 26, 11), (141, 25, 11), (141, 25, 11), (141, 25, 12), (141, 25, 12), (141, 25, 12), (141, 25, 13),
        (141, 25, 13), (141, 25, 14)], l)" by (rule observed [OF bias_run_2])
  have "repeat_update 10 f e = repeat_update 9 f e \<bind> f" for f and e :: soc_estimator_t
    using repeat_update_add [of 9 1 f e] by (simp add: repeat_update_fun)
  moreover have "replicate 8 x = [x, x, x, x, x, x, x, x]" for x :: "i16 \<times> u32 \<times> u16" by (simp add: numeral_eq_Suc)
  ultimately show ?thesis using observe_replicate [OF 1] 2
    by (auto simp: observe_simps repeat_update_numeral test_kalman_bias_def Let_def)
qed

lemma fault_manager_suite_passes:
  "test_fault_manager_suite \<lparr>g_tests_run = 26, g_tests_failed = 0\<rparr> = \<lparr>g_tests_run = 54, g_tests_failed = 0\<rparr>"
  by code_simp

lemma can_protocol_suite_passes:
  "test_can_protocol_suite \<lparr>g_tests_run = 54, g_tests_failed = 0\<rparr> = Some \<lparr>g_tests_run = 74, g_tests_failed = 0\<rparr>"
  by code_simp

text \<open>
  The model passes the program's own unit tests: run with double arithmetic, all 74 assertions of
  the test program hold, among them the exact values the Kalman suite pins for the compiled filter, no
  update or conversion is undefined, and the exit code is 0.
\<close>

lemma unit_tests_pass: "test_main round_f64 = Some (\<lparr>g_tests_run = 74, g_tests_failed = 0\<rparr>, 0)"
  by (simp add: test_main_def soc_estimator_suite_passes test_soc_estimator_kalman_suite_def ocv_lookup_suite_passes
      kalman_rest_passes kalman_load_passes kalman_bias_passes fault_manager_suite_passes can_protocol_suite_passes)

end
