(* ===== verification/Spec2Isabelle.thy ===== *)
theory Spec2Isabelle
  imports Task_Progress Schedule Socketcan_Threads Osal_Tasks Can_Harness Board_Startup Board_Io Unit_Tests
begin

text \<open>
  A verification development for the BMS firmware simulator: a battery-management ECU with five
  periodic tasks over a shared context, a fault state machine, a Kalman filter for the State of
  Charge, and a CAN message layer.

  \<^bold>\<open>The program and its model.\<close> The tasks (\<open>src/tasks/\<close>) run concurrently and share
  one context behind one mutex. The sensor task steps the simulated cells (\<open>src/bms/cell_model.c\<close>)
  and publishes the reading; the SoC task runs the estimator (\<open>src/bms/soc_estimator.c\<close>) on it
  and fills the status message; the fault task runs the fault manager (\<open>src/bms/fault_manager.c\<close>);
  the CAN task packs status, voltages and fault reports (\<open>src/can/can_protocol.c\<close>) and sends
  them through the bus (\<open>src/can/can_hal_virtual.c\<close>); the watchdog task reports a stale
  heartbeat to the fault manager. Tasks, mutexes, queues, time and the shutdown flag come from the OS
  abstraction, with one port for POSIX (\<open>src/osal/osal_posix.c\<close>) and one for FreeRTOS
  (\<open>src/osal/osal_freertos.c\<close>), the latter with the support code of an emulated board
  (\<open>targets/qemu_mps2_an385/\<close>). \<open>src/main.c\<close> creates the tasks, stops and joins them and
  prints the final status.

  \<^item> \<open>Bms_Prelude\<close>: C integer types, C division, C strings, fact collections, the locales
    \<open>step_machine\<close> (a machine with an invariant) and \<open>simulation\<close>.
  \<^item> \<open>Bms_Config\<close>: the constants of \<open>src/bms/bms_config.h\<close>.
  \<^item> \<open>Can_Protocol\<close>: \<open>can_frame_t\<close>, the messages, one definition per pack and unpack
    function; the locales \<open>frame_decoder\<close> and \<open>frame_codec\<close> state what a message type
    promises and are interpreted for the four messages. \<open>Can_Messages\<close> adds the signal database
    \<open>dbc/bms.dbc\<close> as a second description, and the round trips, the agreement with the database,
    and the facts that decoders read only declared bytes and are mutually exclusive.
  \<^item> \<open>Cell_Model\<close>: the three file-scope variables as a record, with the 32-bit elapsed time
    and the 16-bit drift. \<open>Scenario_Faults\<close>: which fault bits each scenario raises.
  \<^item> \<open>Fault_Manager\<close>: \<open>fault_manager_t\<close> and every function of \<open>fault_manager.c\<close>,
    the declarative meaning of the scan, the worst-wins severity, the invariant \<open>fm_ok\<close>.
    \<open>Fault_History\<close>: runs of the manager, the specification with an unbounded history of fault
    entries and its refinement, latching, debounce and the three-strikes rule.
  \<^item> \<open>Float64\<close>: double arithmetic as exact arithmetic followed by a rounding function; the
    locale \<open>fp_rounding\<close> is interpreted for 53-bit round-to-nearest-even and for the identity.
    \<open>Binary64\<close> adds the exponent range: \<open>round_f64\<close> is IEEE binary64 with gradual underflow,
    \<open>binary64\<close> also takes what an overflow gives as an argument. The compiler is assumed to round every
    operation by itself, as \<open>-std=c11\<close> asks for (no contraction of a product and a sum).
    \<open>Soc_Estimator\<close>: the open-circuit-voltage table and the filter, every floating-point operation
    rounded. \<open>Soc_Filter\<close>: ranges and signs under any rounding, positive definiteness in exact
    arithmetic. \<open>Soc_Kalman\<close>: equality with the textbook matrix filter, and the properties of the
    estimate. \<open>Soc_Float\<close>: the rounding-error analysis of the compiled filter (locales
    \<open>fp_near\<close> and \<open>fp_relative\<close>): it stays positive semidefinite and never fails.
    \<open>Soc_Binary64\<close>: its variances and gains stay clear of underflow, so the analysis holds for
    \<open>round_f64\<close>, and no operation overflows (locale \<open>rounding_with_overflow\<close>). \<open>Soft_Float\<close>:
    \<open>round_f64\<close> and the filter in integer arithmetic, with the proof that they agree with the
    definitions over the reals, so that runs of the compiled filter can be evaluated exactly.
  \<^item> \<open>Unit_Tests\<close>: the repository's own unit tests (\<open>test/\<close>) as definitions, all
    evaluated in the kernel; this ties the model to the values the tests expect of the program.
  \<^item> \<open>Osal_Posix\<close>: tick arithmetic, deadlines, the byte-level ring buffer behind the locale
    \<open>bounded_fifo\<close>, the timed wait loops with the wake-ups as an explicit list.
  \<^item> \<open>Can_Hal_Virtual\<close>: subscription and broadcast behind the locale \<open>subscriber_table\<close>,
    and a step relation for interleaved registrations.
    \<open>Can_Hal_Socketcan\<close>: the Linux back end, with the conversion of frames in both directions,
    the receive loop over an explicit list of reads, the selection of the interface and the order of
    the kernel calls when it opens, and closing; it interprets the same locale.
    \<open>Socketcan_Threads\<close>: its reader, a client that registers and the shutdown as threads.
  \<^item> \<open>Osal_Mutex\<close>: the mutex of the OS abstraction as an object with an owner; a call returns,
    blocks or is undefined. The locale \<open>mutex_contract\<close> says what a client relies on and is
    interpreted for POSIX here and for FreeRTOS in \<open>Osal_Freertos\<close>, which has the port's own logic:
    allocation and release on every error path, delays, the scheduler start. \<open>Osal_Tasks\<close>: creation,
    end and joining of tasks in both ports, behind the locale \<open>join_protocol\<close>, with the limited time
    FreeRTOS waits on the board.
    \<open>Closing\<close>: schedules, and the locale \<open>closing_machine\<close> of programs that wind down after
    a request, interpreted for \<open>Bms_Threads\<close>, \<open>Bms_Io\<close> and \<open>Socketcan_Threads\<close>.
  \<^item> \<open>Logger\<close>: the format of a log line and concurrent calls under the logger's mutex.
    \<open>Can_Harness\<close>: the fuzzing harness (\<open>fuzz/fuzz_can_protocol.c\<close>) and the program that
    prints frames for the comparison with the database (\<open>dbc/verify_dbc.c\<close>).
  \<^item> \<open>Board_Config\<close>, \<open>Board_Startup\<close>, \<open>Board_Io\<close>: the emulated board: kernel configuration,
    vector table and reset handler, UART, retargeted output, hooks, stack report and \<open>main\<close>.
  \<^item> \<open>App_Tasks\<close>: the shared context and the loop bodies of the tasks. \<open>Bms_System\<close>: the
    tasks together; a run is a list of labels, one per atomic part of a loop body, in any order.
  \<^item> \<open>Bms_Threads\<close>: the same program at the granularity of its statements, with \<open>main\<close>, a
    program counter per thread and the mutex as an object. \<open>Thread_Refinement\<close>: every run of it
    is matched by a run of \<open>Bms_System\<close>, which justifies the atomic sections there.
    \<open>Thread_Progress\<close>: mutual exclusion, no undefined call, no deadlock, the end of the program
    and its final report.
  \<^item> \<open>Bms_Io\<close>: the whole program with its three mutexes. On top of \<open>Bms_Threads\<close> each
    thread also executes its log calls, the registration and the sends of the CAN task with the delivery to
    the subscriber, and the shutdown of the bus and the logger, one statement at a time.
    \<open>Io_Invariant\<close>: who owns which mutex, and what \<open>main\<close> closes is not used any more.
    \<open>Io_Delivery\<close>: the frames on their way to the subscriber. \<open>Io_Progress\<close>: projections to
    \<open>Bms_Threads\<close> and to the logger, no undefined call, no deadlock, the statements left after the
    shutdown request. \<open>Io_Console\<close>: the standard output. \<open>Whole_Program\<close>: the properties of complete runs.
    \<open>Task_Progress\<close>: the properties of single threads: none is locked out by another, the watchdog
    catches a task that executes nothing, and a thread that hangs while it owns the mutex of the context
    freezes the program.
  \<^item> \<open>Availability\<close>: the scenarios that are not dangerous, through the system of atomic sections.
    \<open>Schedule\<close>: the conditions on the times between the steps under which the watchdog stays silent.

  \<^bold>\<open>Bounds and fuel.\<close> No definition uses fuel. The loops of the code run over the five cells,
  the eleven table points, the subscribers or the items of a list; wait loops recurse over a list of
  wake-ups or register values, with a value for \<open>still waiting\<close> when the list ends before the call
  does; the two loops of the reset handler compare addresses and are partial functions whose
  termination is proved for the linker's layouts. The rounding analysis is for up to \<open>10 ^ 8\<close>
  updates at positive intervals of at most a second, where the accumulated error is still far below the noise
  the filter adds; at the task's period of 500 ms that is more than a year and a half. The SoC task
  executes eleven statements per round, so the statements about threads allow \<open>10 ^ 9\<close> of its
  statements. After a shutdown request at most 63 statements on the context are left, the sum of what each
  thread can have ahead of it; each of them starts at most six statements of input and output, and at most 40
  are pending at the request, which makes 481. The first ten minutes of simulated time, in which the drift of
  the simulated cells raises no fault of its own, are 6000 steps of the sensor task; the program runs for 8
  seconds.

  \<^bold>\<open>Not modelled here.\<close> The kernels and libraries below the program are arguments of the
  definitions: the FreeRTOS calls, the socket calls, the clock, \<open>calloc\<close>, \<open>vprintf\<close>. The whole
  program of \<open>Bms_Io\<close> is the one with the virtual bus; the threads of the SocketCAN back end are
  modelled by themselves. Null pointers that no caller passes and the scheduling priorities are not
  modelled.

  The theorems of this theory are about the whole system: they combine the tasks' steps in any
  interleaving.
\<close>

section \<open>Properties of the whole system\<close>

text \<open>
  C7. Every state the five tasks can reach, in any interleaving and with double arithmetic, is sound:
  the fault manager satisfies its invariant, the charge is within 0 to 100 percent, the published
  percentage and state are in range, the 16-bit sum of the cell voltages does not wrap, and every
  frame sent is well formed.
\<close>

theorem system_invariant:
  assumes "sys_run round_f64 (sys_init round_f64 arg) ls s"
  shows "fm_ok (fault_mgr (s_ctx s)) \<and>
    0 \<le> soc_percent (soc (s_ctx s)) \<and> soc_percent (soc (s_ctx s)) \<le> 100 \<and>
    uint (st_soc_percent_x2 (status (s_ctx s))) \<le> 200 \<and> uint (st_state (status (s_ctx s))) \<le> 3 \<and>
    uint (pack_voltage (latest_reading (s_ctx s))) =
      (\<Sum>i<BMS_CELL_COUNT. uint (cell_mv (latest_reading (s_ctx s)) ! i)) \<and>
    list_all frame_ok (s_bus s)"
proof -
  have ok: "sys_ok s" using sys_run_ok [OF assms] by simp
  then have "\<forall>i<BMS_CELL_COUNT. uint (cell_mv (latest_reading (s_ctx s)) ! i) \<le> 4250"
    by (auto simp: sys_ok_def app_ok_def BMS_CELL_OVERVOLTAGE_MV_def)
  from pack_voltage_sum [OF this] ok show ?thesis
    by (simp add: sys_ok_def app_ok_def soc_in_range_def list_all_iff)
qed

theorem system_invariant_witness:
  "\<exists>s. sys_run round_f64 (sys_init round_f64 None) [Sensor_Cycle, Can_Cycle] s \<and>
    fm_ok (fault_mgr (s_ctx s)) \<and> list_all frame_ok (s_bus s)"
proof -
  obtain s where s: "sys_run round_f64 (sys_init round_f64 None) [Sensor_Cycle, Can_Cycle] s"
    by (simp add: sys_run_Cons case_prod_unfold Let_def)
  with system_invariant [OF s] show ?thesis by blast
qed

text \<open>
  C15. The watchdog can also fire without cause. It reads the tick before it takes the lock, so a
  heartbeat stamped in between is newer than that tick and the unsigned difference wraps: there is a
  run of the nominal scenario in which all three monitored tasks have completed their cycles, no
  heartbeat is ever older than 301 ms, the reading has no fault, and the system ends in SHUTDOWN.
\<close>

theorem watchdog_race_shuts_down_healthy_system:
  "\<exists>s. sys_run round_f64 (sys_init round_f64 None)
      [Sensor_Cycle, Soc_Cycle, Fault_Read_Tick, Fault_Cycle, Time 300, Watchdog_Read_Tick, Time 1,
       Sensor_Cycle, Watchdog_Check, Watchdog_Report] s \<and>
    s_tick s = 301 \<and> hb_sensor_ms (s_ctx s) = 301 \<and> hb_soc_ms (s_ctx s) = 0 \<and> hb_fault_ms (s_ctx s) = 0 \<and>
    hard_fault_mask (latest_reading (s_ctx s)) = 0 \<and>
    fm_state (fault_mgr (s_ctx s)) = BMS_STATE_SHUTDOWN"
proof -
  define s0 where "s0 = sys_init round_f64 None"
  define c1 where "c1 = task_sensor_cycle 0 (s_ctx s0, s_cells s0)"
  have "filter_signs (soc (fst c1))"
    by (simp add: c1_def s0_def sys_init_def app_context_init_def BMS_PACK_CAPACITY_MAH_def)
  then obtain c2 where c2: "task_soc_cycle round_f64 0 (fst c1) = Some c2"
    using soc_cycle_defined by blast
  have s0: "s_tick s0 = 0" "s_fault_now s0 = None" "s_watchdog s0 = Wd_Asleep" "hb_fault_ms (s_ctx s0) = 0"
    "s_cells s0 = cell_model_init"
    by (simp_all add: s0_def sys_init_def app_context_init_def parse_scenario_def
        cell_model_set_scenario_def cell_model_init_def)
  define s2 where "s2 = s0\<lparr>s_ctx := c2, s_cells := snd c1\<rparr>"
  have run1: "sys_run round_f64 s0 [Sensor_Cycle, Soc_Cycle] s2"
    using c2 by (simp add: sys_run_Cons case_prod_unfold Let_def s0(1) s2_def flip: c1_def)
  have "s_tick s2 = 0" "s_fault_now s2 = None" "s_watchdog s2 = Wd_Asleep" "hb_soc_ms (s_ctx s2) = 0"
    "s_cells s2 = snd c1"
    using s0 soc_cycle_frame(3) [OF c2] by (simp_all add: s2_def)
  then have run2: "\<exists>s. sys_run round_f64 s2
      [Fault_Read_Tick, Fault_Cycle, Time 300, Watchdog_Read_Tick, Time 1, Sensor_Cycle, Watchdog_Check,
       Watchdog_Report] s \<and>
    s_tick s = 301 \<and> hb_sensor_ms (s_ctx s) = 301 \<and> hb_soc_ms (s_ctx s) = 0 \<and> hb_fault_ms (s_ctx s) = 0 \<and>
    latest_reading (s_ctx s) = step_reading TASK_PERIOD_SENSOR_MS (snd c1) \<and>
    fm_state (fault_mgr (s_ctx s)) = BMS_STATE_SHUTDOWN"
    by (simp add: sys_run_Cons case_prod_unfold Let_def watchdog_stale_def watchdog_report_def
        WATCHDOG_STALE_MS_def step_reading_def)
  have "hard_fault_mask (step_reading TASK_PERIOD_SENSOR_MS (snd c1)) = 0"
    using scenario_hard_faults [of "snd c1" TASK_PERIOD_SENSOR_MS]
    by (simp add: c1_def s0(5)) (simp add: cell_model_init_def drift_of_def scenario_mask_def config_defs)
  moreover have "sys_run round_f64 s0 ([Sensor_Cycle, Soc_Cycle] @ ls) s" if "sys_run round_f64 s2 ls s" for ls s
    using run1 that by (auto simp only: sys_run_append)
  ultimately show ?thesis using run2 unfolding s0_def by fastforce
qed

end
